(* ===== verification/Zida_Prelude.thy ===== *)
theory Zida_Prelude
  imports Main "HOL-Library.Word" "HOL-Library.Sublist"
begin

text \<open>
  Shared vocabulary of the development.

  \<^item> The integer types of the C++ sources: a \<^verbatim>\<open>std::uint64_t\<close> is a 64-bit word (additions on
    sequence numbers wrap), a \<^verbatim>\<open>std::int64_t\<close> is the \<^typ>\<open>int\<close> it denotes; \<open>i64_ok\<close> is the range
    check where an operation could leave it.
  \<^item> \<open>lower_bound\<close>, the binary search of the C++ standard library, with the theorem that it
    finds the partition point.
  \<^item> \<open>insert_at\<close>, \<open>erase_at\<close>: \<^verbatim>\<open>vector::insert\<close> and \<^verbatim>\<open>vector::erase\<close>.
  \<^item> the two drop-oldest enqueue loops of the sources (\<^verbatim>\<open>while (size >= cap) pop_front\<close> and
    \<^verbatim>\<open>if (size >= cap) pop_front\<close>) and the interface \<open>drop_oldest_queue\<close> of a bounded FIFO that
    prefers fresh elements.
  \<^item> the interface \<open>tick_order\<close> of a strict total order on price ticks, in which the lemmas about
    strictly sorted price levels are proved once for both sides of a book.
\<close>

named_theorems step_defs \<open>definitions a component's step unfolds to\<close>
named_theorems inv_defs \<open>definitions of the invariants\<close>

type_synonym u64 = "64 word"
type_synonym u32 = "32 word"
type_synonym i64 = int

definition i64_ok :: "int \<Rightarrow> bool" where
  "i64_ok x \<longleftrightarrow> - (2 ^ 63) \<le> x \<and> x < 2 ^ 63"

section \<open>Vectors\<close>

definition insert_at :: "nat \<Rightarrow> 'a \<Rightarrow> 'a list \<Rightarrow> 'a list" where
  "insert_at i x xs = take i xs @ x # drop i xs"

definition erase_at :: "nat \<Rightarrow> 'a list \<Rightarrow> 'a list" where
  "erase_at i xs = take i xs @ drop (Suc i) xs"

text \<open>
  \<^verbatim>\<open>std::lower_bound\<close>: the loop keeps a half-open window \<open>[first, first + len)\<close>.
\<close>

function lower_bound_loop :: "('a \<Rightarrow> bool) \<Rightarrow> 'a list \<Rightarrow> nat \<Rightarrow> nat \<Rightarrow> nat" where
  "lower_bound_loop P xs first len =
     (if len > 0 then
        (let half = len div 2; middle = first + half in
         if P (xs ! middle) then lower_bound_loop P xs (Suc middle) (len - half - 1)
         else lower_bound_loop P xs first half)
      else first)"
  by pat_completeness auto
termination
  by (relation "measure (\<lambda>(P, xs, first, len). len)") auto

declare lower_bound_loop.simps [simp del]

definition lower_bound :: "('a \<Rightarrow> bool) \<Rightarrow> 'a list \<Rightarrow> nat" where
  "lower_bound P xs = lower_bound_loop P xs 0 (length xs)"

definition partitioned :: "('a \<Rightarrow> bool) \<Rightarrow> 'a list \<Rightarrow> bool" where
  "partitioned P xs \<longleftrightarrow> (\<forall>i j. i \<le> j \<longrightarrow> j < length xs \<longrightarrow> P (xs ! j) \<longrightarrow> P (xs ! i))"

section \<open>Bounded queues that drop their oldest element\<close>

fun pop_while_full :: "nat \<Rightarrow> 'a list \<Rightarrow> 'a list" where
  "pop_while_full cap [] = []"
| "pop_while_full cap (x # q) = (if length (x # q) \<ge> cap then pop_while_full cap q else x # q)"

definition push_while :: "nat \<Rightarrow> 'a \<Rightarrow> 'a list \<Rightarrow> 'a list" where
  "push_while cap x q = pop_while_full cap q @ [x]"

definition push_if :: "nat \<Rightarrow> 'a \<Rightarrow> 'a list \<Rightarrow> 'a list" where
  "push_if cap x q = (if length q \<ge> cap then tl q else q) @ [x]"

text \<open>\<^verbatim>\<open>std::to_string\<close> of an integer.\<close>

fun nat_str :: "nat \<Rightarrow> string" where
  "nat_str n = (if n < 10 then [char_of (48 + n)] else nat_str (n div 10) @ [char_of (48 + n mod 10)])"

declare nat_str.simps [simp del]

definition int_str :: "int \<Rightarrow> string" where
  "int_str i = (if i < 0 then ''-'' @ nat_str (nat (- i)) else nat_str (nat i))"

section \<open>Lemmas on vectors\<close>

lemma length_insert_at [simp]: "i \<le> length xs \<Longrightarrow> length (insert_at i x xs) = Suc (length xs)"
  by (simp add: insert_at_def)

lemma set_insert_at: "set (insert_at i x xs) = insert x (set xs)"
  unfolding insert_at_def by (metis append_take_drop_id set_append set_simps(2) Un_insert_right)

lemma length_erase_at [simp]: "i < length xs \<Longrightarrow> length (erase_at i xs) = length xs - 1"
  by (simp add: erase_at_def)

lemma set_erase_at: "set (erase_at i xs) \<subseteq> set xs"
  by (auto simp: erase_at_def dest: in_set_takeD in_set_dropD)

lemma map_insert_at: "map f (insert_at i x xs) = insert_at i (f x) (map f xs)"
  by (simp add: insert_at_def take_map drop_map)

lemma map_erase_at: "map f (erase_at i xs) = erase_at i (map f xs)"
  by (simp add: erase_at_def take_map drop_map)

lemma partitionedD:
  "partitioned P xs \<Longrightarrow> P (xs ! j) \<Longrightarrow> i \<le> j \<Longrightarrow> j < length xs \<Longrightarrow> P (xs ! i)"
  by (auto simp: partitioned_def)

lemma takeWhile_length_eqI:
  assumes "k \<le> length xs" and "\<And>i. i < k \<Longrightarrow> P (xs ! i)"
    and "k < length xs \<Longrightarrow> \<not> P (xs ! k)"
  shows "length (takeWhile P xs) = k"
proof -
  have "takeWhile P xs = take k xs"
    using assms by (intro takeWhile_eq_take_P_nth) auto
  with assms(1) show ?thesis by simp
qed

lemma lower_bound_loop_partition:
  assumes "partitioned P xs" and "first + len \<le> length xs"
    and "\<forall>i < first. P (xs ! i)"
    and "first + len < length xs \<longrightarrow> \<not> P (xs ! (first + len))"
  shows "lower_bound_loop P xs first len = length (takeWhile P xs)"
  using assms
proof (induction P xs first len rule: lower_bound_loop.induct)
  case (1 P xs first len)
  show ?case
  proof (cases "len > 0")
    case False
    with "1.prems" have "length (takeWhile P xs) = first"
      by (intro takeWhile_length_eqI) auto
    with False show ?thesis by (simp add: lower_bound_loop.simps [of P xs first 0])
  next
    case pos: True
    define half where "half = len div 2"
    define middle where "middle = first + half"
    have mid: "middle < length xs" and half: "half < len"
      using pos "1.prems"(2) by (auto simp: middle_def half_def)
    show ?thesis
    proof (cases "P (xs ! middle)")
      case True
      have "\<forall>i < Suc middle. P (xs ! i)"
        using partitionedD [OF "1.prems"(1) True _ mid] by (simp add: less_Suc_eq_le)
      moreover have "Suc middle + (len - half - 1) = first + len"
        using half by (simp add: middle_def)
      ultimately have "lower_bound_loop P xs (Suc middle) (len - half - 1) = length (takeWhile P xs)"
        using "1.IH"(1) [OF pos half_def [unfolded half_def] middle_def [unfolded middle_def half_def]]
          True "1.prems" by (simp add: middle_def half_def)
      with pos True show ?thesis
        by (simp add: lower_bound_loop.simps [of P xs first len] Let_def middle_def half_def)
    next
      case False
      have "lower_bound_loop P xs first half = length (takeWhile P xs)"
        using "1.IH"(2) [OF pos half_def [unfolded half_def] middle_def [unfolded middle_def half_def]]
          False mid "1.prems" by (simp add: middle_def half_def)
      with pos False show ?thesis
        by (simp add: lower_bound_loop.simps [of P xs first len] Let_def middle_def half_def)
    qed
  qed
qed

lemma lower_bound_partition:
  "partitioned P xs \<Longrightarrow> lower_bound P xs = length (takeWhile P xs)"
  by (simp add: lower_bound_def lower_bound_loop_partition)

section \<open>The bounded FIFO interface\<close>

locale drop_oldest_queue =
  fixes cap :: nat and push :: "'a \<Rightarrow> 'a list \<Rightarrow> 'a list"
  assumes cap_pos: "cap > 0"
    and push_suffix: "suffix (push x q) (q @ [x])"
    and push_last: "push x q \<noteq> [] \<and> last (push x q) = x"
    and push_bound: "length q \<le> cap \<Longrightarrow> length (push x q) \<le> cap"
    and push_room: "length q < cap \<Longrightarrow> push x q = q @ [x]"
begin

lemma fold_push_bound: "length q \<le> cap \<Longrightarrow> length (fold push xs q) \<le> cap"
  by (induction xs arbitrary: q) (auto simp: push_bound)

lemma suffix_append_mono: "suffix a b \<Longrightarrow> suffix (a @ c) (b @ c)"
  by (auto simp: suffix_def)

lemma fold_push_suffix: "suffix (fold push xs q) (q @ xs)"
proof (induction xs arbitrary: q)
  case Nil
  show ?case by simp
next
  case (Cons x xs)
  have "suffix (fold push xs (push x q)) (push x q @ xs)" by (rule Cons.IH)
  also have "suffix (push x q @ xs) ((q @ [x]) @ xs)"
    by (rule suffix_append_mono) (rule push_suffix)
  finally show ?case by simp
qed

lemma fold_push_room: "length q + length xs \<le> cap \<Longrightarrow> fold push xs q = q @ xs"
proof (induction xs arbitrary: q)
  case Nil
  show ?case by simp
next
  case (Cons x xs)
  then have "push x q = q @ [x]" by (intro push_room) simp
  with Cons show ?case by simp
qed

end

lemma pop_while_full_suffix: "suffix (pop_while_full cap q) q"
  by (induction q) (auto intro: suffix_ConsI)

lemma pop_while_full_length: "0 < cap \<Longrightarrow> length (pop_while_full cap q) < cap"
  by (induction q) auto

lemma pop_while_full_room: "length q < cap \<Longrightarrow> pop_while_full cap q = q"
  by (cases q) auto

lemma push_while_queue: "0 < cap \<Longrightarrow> drop_oldest_queue cap (push_while cap)"
proof
  assume "0 < cap"
  then show "length (push_while cap x q) \<le> cap" for x and q :: "'a list"
    using pop_while_full_length [of cap q] by (simp add: push_while_def)
qed (auto simp: push_while_def suffix_def pop_while_full_room
       intro: pop_while_full_suffix [unfolded suffix_def])

lemma push_if_queue: "0 < cap \<Longrightarrow> drop_oldest_queue cap (push_if cap)"
proof
  show "suffix (push_if cap x q) (q @ [x])" for x and q :: "'a list"
    by (cases q) (auto simp: push_if_def intro: suffix_ConsI)
qed (auto simp: push_if_def)

section \<open>Strictly sorted keys\<close>

locale tick_order =
  fixes before :: "int \<Rightarrow> int \<Rightarrow> bool"
  assumes irrefl: "\<not> before a a"
    and trans: "before a b \<Longrightarrow> before b c \<Longrightarrow> before a c"
    and total: "a \<noteq> b \<Longrightarrow> before a b \<or> before b a"
begin

lemma asym: "before a b \<Longrightarrow> \<not> before b a"
  using irrefl trans by blast

lemma transp: "transp before"
  by (rule transpI) (rule trans)

lemma sorted_distinct: "sorted_wrt before ks \<Longrightarrow> distinct ks"
  by (induction ks) (auto simp: irrefl)

lemma sorted_insert_mid:
  "sorted_wrt before (xs @ ys) \<Longrightarrow> (\<And>x. x \<in> set xs \<Longrightarrow> before x k) \<Longrightarrow>
    (\<And>y. y \<in> set ys \<Longrightarrow> before k y) \<Longrightarrow> sorted_wrt before (xs @ k # ys)"
  by (auto simp: sorted_wrt_append)

lemma sorted_partitioned:
  assumes "sorted_wrt before (map key xs)"
  shows "partitioned (\<lambda>x. before (key x) t) xs"
  unfolding partitioned_def
proof (intro allI impI)
  fix i j assume ij: "i \<le> j" "j < length xs" and b: "before (key (xs ! j)) t"
  show "before (key (xs ! i)) t"
  proof (cases "i = j")
    case False
    with ij assms have "before (key (xs ! i)) (key (xs ! j))"
      using sorted_wrt_nth_less [of before "map key xs" i j] by simp
    then show ?thesis using b by (rule trans)
  qed (use b in simp)
qed

lemma lower_bound_takeWhile:
  "sorted_wrt before (map key xs) \<Longrightarrow>
    lower_bound (\<lambda>x. before (key x) t) xs = length (takeWhile (\<lambda>x. before (key x) t) xs)"
  by (intro lower_bound_partition sorted_partitioned)

lemma takeWhile_before: "x \<in> set (takeWhile (\<lambda>x. before (key x) t) xs) \<Longrightarrow> before (key x) t"
  by (induction xs) (auto split: if_splits)

lemma dropWhile_not_before:
  assumes "sorted_wrt before (map key xs)"
    and "x \<in> set (dropWhile (\<lambda>x. before (key x) t) xs)"
  shows "\<not> before (key x) t"
  using assms
proof (induction xs)
  case (Cons a xs)
  show ?case
  proof (cases "before (key a) t")
    case True
    with Cons show ?thesis by simp
  next
    case False
    with Cons.prems trans show ?thesis by auto
  qed
qed simp

end


section \<open>Spacing limiters\<close>

text \<open>
  A limiter admits a request for a key when the last admitted request for it lies far enough back.
  The detector's per-pair rate limit and the execution engine's cooldown are limiters; admitted
  requests of one key are spaced by the limit, at any clock values.
\<close>

definition spaced_log :: "int \<Rightarrow> ('k \<times> int) list \<Rightarrow> bool" where
  "spaced_log limit log \<longleftrightarrow> sorted_wrt (\<lambda>a b. fst a = fst b \<longrightarrow> limit \<le> snd b - snd a) log"

definition tracked_log :: "('k \<rightharpoonup> int) \<Rightarrow> ('k \<times> int) list \<Rightarrow> bool" where
  "tracked_log m log \<longleftrightarrow> (\<forall>(k, t) \<in> set log. \<exists>u. m k = Some u \<and> t \<le> u)"

lemma logs_Nil [simp]: "spaced_log limit []" "tracked_log m []"
  by (simp_all add: spaced_log_def tracked_log_def)

locale spacing_limiter =
  fixes limit :: int
    and admit :: "'k \<Rightarrow> int \<Rightarrow> 's \<Rightarrow> bool \<times> 's"
    and last_of :: "'s \<Rightarrow> 'k \<rightharpoonup> int"
    and ok :: "'s \<Rightarrow> bool"
  assumes limit_pos: "ok s \<Longrightarrow> 0 < limit"
    and ok_admit: "ok s \<Longrightarrow> ok (snd (admit k t s))"
    and admitted: "ok s \<Longrightarrow> fst (admit k t s) \<Longrightarrow> last_of (snd (admit k t s)) = (last_of s)(k \<mapsto> t)"
    and spaced_admit: "ok s \<Longrightarrow> fst (admit k t s) \<Longrightarrow> last_of s k = Some u \<Longrightarrow> limit \<le> t - u"
    and refused: "ok s \<Longrightarrow> \<not> fst (admit k t s) \<Longrightarrow> last_of (snd (admit k t s)) = last_of s"
begin

lemma admit_logs:
  assumes "ok s" and "fst (admit k t s)" and "spaced_log limit log" and "tracked_log (last_of s) log"
  shows "spaced_log limit (log @ [(k, t)])" and "tracked_log (last_of (snd (admit k t s))) (log @ [(k, t)])"
proof -
  have late: "limit \<le> t - a" if key: "(k, a) \<in> set log" for a
  proof -
    obtain u where "last_of s k = Some u" "a \<le> u" using assms(4) key by (auto simp: tracked_log_def)
    then show ?thesis using spaced_admit [OF assms(1,2), of u] by linarith
  qed
  show "spaced_log limit (log @ [(k, t)])"
    using assms(3) late by (auto simp: spaced_log_def sorted_wrt_append)
  show "tracked_log (last_of (snd (admit k t s))) (log @ [(k, t)])"
    using assms(4) late limit_pos [OF assms(1)] unfolding admitted [OF assms(1,2)] tracked_log_def by fastforce
qed

end


section \<open>Decimal text\<close>

definition str_nat :: "string \<Rightarrow> nat" where
  "str_nat s = foldl (\<lambda>a c. a * 10 + (of_char c - 48)) 0 s"

lemma str_nat_nat_str: "str_nat (nat_str n) = n"
proof (induction n rule: nat_str.induct)
  case (1 n)
  have digit: "of_char (char_of (48 + k) :: char) = (48 + k :: nat)" if "k < 10" for k
    using that by (simp add: of_char_of take_bit_eq_mod)
  show ?case
  proof (cases "n < 10")
    case True
    then show ?thesis using digit [OF True] by (simp add: nat_str.simps [of n] str_nat_def)
  next
    case False
    then show ?thesis using 1 digit [of "n mod 10"] by (simp add: nat_str.simps [of n] str_nat_def)
  qed
qed

lemma nat_str_inject [simp]: "nat_str m = nat_str n \<longleftrightarrow> m = n"
  by (metis str_nat_nat_str)

section \<open>Runs\<close>

text \<open>A component that moves by events: what every allowed event keeps, every run of allowed events keeps.\<close>

locale guarded_steps =
  fixes step :: "'e \<Rightarrow> 's \<Rightarrow> 's" and allowed :: "'e \<Rightarrow> bool" and inv :: "'s \<Rightarrow> bool"
  assumes keeps: "inv s \<Longrightarrow> allowed e \<Longrightarrow> inv (step e s)"
begin

lemma keeps_run: "inv s \<Longrightarrow> list_all allowed es \<Longrightarrow> inv (fold step es s)"
  by (induction es arbitrary: s) (simp_all add: keeps)

end

locale steps = guarded_steps step "\<lambda>_. True" inv for step :: "'e \<Rightarrow> 's \<Rightarrow> 's" and inv :: "'s \<Rightarrow> bool"
begin

lemma always: "inv s \<Longrightarrow> inv (fold step es s)"
  by (rule keeps_run) (simp_all add: list_all_iff)

end

text \<open>Runs in which every event is enabled when it happens; a rank that enabled events lower bounds them.\<close>

fun enabled_run :: "('e \<Rightarrow> 's \<Rightarrow> bool) \<Rightarrow> ('e \<Rightarrow> 's \<Rightarrow> 's) \<Rightarrow> 'e list \<Rightarrow> 's \<Rightarrow> bool" where
  "enabled_run enabled step [] s = True"
| "enabled_run enabled step (e # es) s = (enabled e s \<and> enabled_run enabled step es (step e s))"

locale ranked_steps =
  fixes step :: "'e \<Rightarrow> 's \<Rightarrow> 's" and enabled :: "'e \<Rightarrow> 's \<Rightarrow> bool" and rank :: "'s \<Rightarrow> nat"
  assumes lowers: "enabled e s \<Longrightarrow> rank (step e s) < rank s"
begin

lemma run_bound: "enabled_run enabled step es s \<Longrightarrow> length es + rank (fold step es s) \<le> rank s"
proof (induction es arbitrary: s)
  case (Cons e es)
  then have "length es + rank (fold step es (step e s)) \<le> rank (step e s)" and "rank (step e s) < rank s"
    using lowers by auto
  then show ?case by simp
qed simp

end

end
