(* ===== verification/OrderBook.thy ===== *)
theory OrderBook
  imports Zida_Prelude
begin

text \<open>
  The depth-bounded limit order book of \<^verbatim>\<open>common/include/orderbook/OrderBook.hpp\<close>: price levels,
  the two sides, the update, remove, clear and accessor operations of class \<^verbatim>\<open>md::OrderBook\<close>, its
  self-check \<open>validate\<close>, and what they guarantee. A side is abstracted to the finite map from
  price ticks to quantities; an update is a map update followed by the restriction to the best
  \<open>depth\<close> ticks.
\<close>

section \<open>Data\<close>

record level =
  priceTick :: i64
  quantityLot :: i64
  price :: string
  quantity :: string

abbreviation Level :: "i64 \<Rightarrow> i64 \<Rightarrow> string \<Rightarrow> string \<Rightarrow> level" where
  "Level t q px qt \<equiv> \<lparr>priceTick = t, quantityLot = q, price = px, quantity = qt\<rparr>"

definition isEmpty :: "level \<Rightarrow> bool" where
  "isEmpty l \<longleftrightarrow> quantityLot l = 0"

datatype side = BID | ASK

datatype book_error = InvalidArgument

record order_book =
  ob_depth :: nat
  ob_bids :: "level list"
  ob_asks :: "level list"

text \<open>The constructor also reserves room for \<^verbatim>\<open>depth + 1\<close> levels on either side. Allocation is assumed to succeed: the
  exceptions that \<^verbatim>\<open>reserve\<close> throws for an enormous depth are not modelled.\<close>

definition new_OrderBook :: "nat \<Rightarrow> book_error + order_book" where
  "new_OrderBook depth =
     (if depth = 0 then Inl InvalidArgument
      else Inr \<lparr>ob_depth = depth, ob_bids = [], ob_asks = []\<rparr>)"

section \<open>Operations\<close>

definition bid_ptr :: "order_book \<Rightarrow> nat \<Rightarrow> level option" where
  "bid_ptr b i =
     (if i \<ge> length (ob_bids b) then None
      else if isEmpty (ob_bids b ! i) then None
      else Some (ob_bids b ! i))"

definition ask_ptr :: "order_book \<Rightarrow> nat \<Rightarrow> level option" where
  "ask_ptr b i =
     (if i \<ge> length (ob_asks b) then None
      else if isEmpty (ob_asks b ! i) then None
      else Some (ob_asks b ! i))"

text \<open>The comparators of the four \<^verbatim>\<open>lower_bound\<close> calls: bids descend, asks ascend.\<close>

fun better :: "side \<Rightarrow> i64 \<Rightarrow> i64 \<Rightarrow> bool" where
  "better BID a b = (a > b)"
| "better ASK a b = (a < b)"

fun side_vec :: "side \<Rightarrow> order_book \<Rightarrow> level list" where
  "side_vec BID b = ob_bids b"
| "side_vec ASK b = ob_asks b"

fun set_side_vec :: "side \<Rightarrow> level list \<Rightarrow> order_book \<Rightarrow> order_book" where
  "set_side_vec BID v b = b\<lparr>ob_bids := v\<rparr>"
| "set_side_vec ASK v b = b\<lparr>ob_asks := v\<rparr>"

definition find_pos :: "side \<Rightarrow> i64 \<Rightarrow> level list \<Rightarrow> nat" where
  "find_pos S t vec = lower_bound (\<lambda>obLevel. better S (priceTick obLevel) t) vec"

definition remove_vec :: "side \<Rightarrow> i64 \<Rightarrow> level list \<Rightarrow> level list" where
  "remove_vec S t vec =
     (let it = find_pos S t vec in
      if it \<noteq> length vec \<and> priceTick (vec ! it) = t then erase_at it vec else vec)"

definition update_vec :: "nat \<Rightarrow> side \<Rightarrow> level \<Rightarrow> level list \<Rightarrow> level list" where
  "update_vec depth S lvl vec =
     (let updateTick = priceTick lvl; it = find_pos S updateTick vec in
      if it \<noteq> length vec \<and> priceTick (vec ! it) = updateTick
      then vec[it := (vec ! it)\<lparr>quantityLot := quantityLot lvl\<rparr>]
      else if length vec < depth then insert_at it lvl vec
      else if it \<noteq> length vec then butlast (insert_at it lvl vec)
      else vec)"

definition remove_level :: "side \<Rightarrow> i64 \<Rightarrow> order_book \<Rightarrow> order_book" where
  "remove_level S t b = set_side_vec S (remove_vec S t (side_vec S b)) b"

definition update_level :: "side \<Rightarrow> level \<Rightarrow> order_book \<Rightarrow> order_book" where
  "update_level S lvl b =
     (if isEmpty lvl then remove_level S (priceTick lvl) b
      else set_side_vec S (update_vec (ob_depth b) S lvl (side_vec S b)) b)"

definition clear_book :: "order_book \<Rightarrow> order_book" where
  "clear_book b = b\<lparr>ob_bids := [], ob_asks := []\<rparr>"

definition empty_level :: level where
  "empty_level = (Level 0 0 '''' '''')"

definition best_bid :: "order_book \<Rightarrow> level" where
  "best_bid b = (case ob_bids b of [] \<Rightarrow> empty_level | l # _ \<Rightarrow> l)"

definition best_ask :: "order_book \<Rightarrow> level" where
  "best_ask b = (case ob_asks b of [] \<Rightarrow> empty_level | l # _ \<Rightarrow> l)"

text \<open>
  \<^verbatim>\<open>validate\<close>: the index loops of the source compare each level with its predecessor; a loop
  returns at the first violation.
\<close>

fun bids_strictly_decreasing :: "level list \<Rightarrow> bool" where
  "bids_strictly_decreasing (x # y # ls) =
     (if priceTick x \<le> priceTick y then False else bids_strictly_decreasing (y # ls))"
| "bids_strictly_decreasing _ = True"

fun asks_strictly_increasing :: "level list \<Rightarrow> bool" where
  "asks_strictly_increasing (x # y # ls) =
     (if priceTick x \<ge> priceTick y then False else asks_strictly_increasing (y # ls))"
| "asks_strictly_increasing _ = True"

definition validate :: "order_book \<Rightarrow> bool" where
  "validate b =
     (if length (ob_bids b) > ob_depth b then False
      else if length (ob_asks b) > ob_depth b then False
      else if \<not> bids_strictly_decreasing (ob_bids b) then False
      else if \<not> asks_strictly_increasing (ob_asks b) then False
      else if list_ex isEmpty (ob_bids b) then False
      else if list_ex isEmpty (ob_asks b) then False
      else True)"

section \<open>Invariant and abstraction\<close>

definition side_ok :: "nat \<Rightarrow> side \<Rightarrow> level list \<Rightarrow> bool" where
  "side_ok d S vec \<longleftrightarrow>
     length vec \<le> d \<and> sorted_wrt (better S) (map priceTick vec) \<and> (\<forall>l \<in> set vec. \<not> isEmpty l)"

definition book_inv :: "order_book \<Rightarrow> bool" where
  "book_inv b \<longleftrightarrow> side_ok (ob_depth b) BID (ob_bids b) \<and> side_ok (ob_depth b) ASK (ob_asks b)"

definition levels_map :: "level list \<Rightarrow> i64 \<rightharpoonup> i64" where
  "levels_map vec = map_of (map (\<lambda>l. (priceTick l, quantityLot l)) vec)"

text \<open>The abstract update of one side: set or delete the tick, then keep the best \<open>n\<close> ticks.\<close>

definition best_n :: "nat \<Rightarrow> side \<Rightarrow> (i64 \<rightharpoonup> i64) \<Rightarrow> (i64 \<rightharpoonup> i64)" where
  "best_n n S m = (\<lambda>k. if card {k' \<in> dom m. better S k' k} < n then m k else None)"

definition abs_update :: "nat \<Rightarrow> side \<Rightarrow> i64 \<Rightarrow> i64 \<Rightarrow> (i64 \<rightharpoonup> i64) \<Rightarrow> (i64 \<rightharpoonup> i64)" where
  "abs_update n S t q m = (if q = 0 then m(t := None) else best_n n S (m(t \<mapsto> q)))"

text \<open>Books that the public operations can produce.\<close>

datatype book_op = Update side level | Remove side i64 | Clear

fun book_step :: "book_op \<Rightarrow> order_book \<Rightarrow> order_book" where
  "book_step (Update S l) b = update_level S l b"
| "book_step (Remove S t) b = remove_level S t b"
| "book_step Clear b = clear_book b"

lemmas [step_defs] = update_level_def remove_level_def clear_book_def
lemmas [inv_defs] = book_inv_def side_ok_def

section \<open>Both sides are price orders\<close>

interpretation tick: tick_order "better S" for S
proof
  show "\<not> better S a a" for a by (cases S) auto
  show "better S a b \<Longrightarrow> better S b c \<Longrightarrow> better S a c" for a b c by (cases S) auto
  show "a \<noteq> b \<Longrightarrow> better S a b \<or> better S b a" for a b by (cases S) auto
qed

abbreviation ahead :: "side \<Rightarrow> i64 \<Rightarrow> level list \<Rightarrow> level list" where
  "ahead S t vec \<equiv> takeWhile (\<lambda>l. better S (priceTick l) t) vec"

abbreviation behind :: "side \<Rightarrow> i64 \<Rightarrow> level list \<Rightarrow> level list" where
  "behind S t vec \<equiv> dropWhile (\<lambda>l. better S (priceTick l) t) vec"

lemma find_pos_eq: "sorted_wrt (better S) (map priceTick vec) \<Longrightarrow> find_pos S t vec = length (ahead S t vec)"
  by (simp add: find_pos_def tick.lower_bound_takeWhile)

lemma ahead_behind: "vec = ahead S t vec @ behind S t vec"
  by simp

lemma present_iff:
  "length (ahead S t vec) \<noteq> length vec \<longleftrightarrow> behind S t vec \<noteq> []"
  by (metis append_Nil2 append_eq_conv_conj length_append self_append_conv takeWhile_dropWhile_id
      list.size(3) add_cancel_left_right length_0_conv)

lemma nth_find_pos:
  "behind S t vec = x # ls \<Longrightarrow> vec ! length (ahead S t vec) = x"
  by (metis takeWhile_dropWhile_id nth_append_length)


lemma behind_sorted:
  assumes "sorted_wrt (better S) (map priceTick vec)" and "behind S t vec = x # ls"
  shows "\<not> better S (priceTick x) t" and "\<forall>l \<in> set ls. better S (priceTick x) (priceTick l)"
proof -
  have "sorted_wrt (better S) (map priceTick (ahead S t vec) @ map priceTick (x # ls))"
    using assms by (metis map_append takeWhile_dropWhile_id)
  then show "\<forall>l \<in> set ls. better S (priceTick x) (priceTick l)"
    by (simp add: sorted_wrt_append)
  show "\<not> better S (priceTick x) t"
    using tick.dropWhile_not_before [OF assms(1), of x t] assms(2) by simp
qed

lemma behind_ticks:
  assumes "sorted_wrt (better S) (map priceTick vec)" and "behind S t vec = x # ls"
  shows "\<forall>l \<in> set ls. priceTick l \<noteq> t" and "priceTick x \<noteq> t \<longrightarrow> better S t (priceTick x)"
  using behind_sorted [OF assms] tick.total [of t "priceTick x" S] tick.trans tick.irrefl by blast+

lemma ahead_ticks: "l \<in> set (ahead S t vec) \<Longrightarrow> priceTick l \<noteq> t"
  using tick.takeWhile_before [of l S priceTick t vec] tick.irrefl by auto

lemma set_ahead_behind: "set vec = set (ahead S t vec) \<union> set (behind S t vec)"
  by (metis set_append takeWhile_dropWhile_id)

lemma tick_present_iff:
  assumes "sorted_wrt (better S) (map priceTick vec)"
  shows "t \<in> priceTick ` set vec \<longleftrightarrow> (\<exists>x ls. behind S t vec = x # ls \<and> priceTick x = t)"
proof
  assume "t \<in> priceTick ` set vec"
  then obtain l where "l \<in> set vec" "priceTick l = t" by auto
  then have "l \<in> set (behind S t vec)"
    using ahead_ticks set_ahead_behind [of vec S t] by blast
  with \<open>priceTick l = t\<close> show "\<exists>x ls. behind S t vec = x # ls \<and> priceTick x = t"
    using behind_ticks(1) [OF assms] by (cases "behind S t vec") auto
next
  assume "\<exists>x ls. behind S t vec = x # ls \<and> priceTick x = t"
  then show "t \<in> priceTick ` set vec"
    by (metis image_eqI in_set_conv_decomp takeWhile_dropWhile_id)
qed

lemma hit_iff:
  assumes "sorted_wrt (better S) (map priceTick vec)"
  shows "(find_pos S t vec \<noteq> length vec \<and> priceTick (vec ! find_pos S t vec) = t)
    \<longleftrightarrow> t \<in> priceTick ` set vec"
proof (cases "behind S t vec")
  case Nil
  have "length (ahead S t vec) = length vec" using present_iff [of S t vec] unfolding Nil by simp
  then show ?thesis unfolding tick_present_iff [OF assms] find_pos_eq [OF assms] Nil by simp
next
  case (Cons x ls)
  have "length (ahead S t vec) \<noteq> length vec" unfolding present_iff Cons by simp
  then show ?thesis
    unfolding tick_present_iff [OF assms] find_pos_eq [OF assms] nth_find_pos [OF Cons] Cons by simp
qed

subsection \<open>The operations on sorted levels, without positions\<close>

lemma remove_vec_filter:
  assumes "sorted_wrt (better S) (map priceTick vec)"
  shows "remove_vec S t vec = filter (\<lambda>l. priceTick l \<noteq> t) vec"
proof (cases "t \<in> priceTick ` set vec")
  case True
  then obtain x ls where B: "behind S t vec = x # ls" "priceTick x = t"
    unfolding tick_present_iff [OF assms] by blast
  then have vec: "vec = ahead S t vec @ x # ls" by (metis takeWhile_dropWhile_id)
  have "erase_at (length (ahead S t vec)) (ahead S t vec @ x # ls) = ahead S t vec @ ls"
    by (simp add: erase_at_def)
  with True have "remove_vec S t vec = ahead S t vec @ ls"
    using hit_iff [OF assms, of t] vec by (simp add: remove_vec_def Let_def find_pos_eq [OF assms])
  moreover have "filter (\<lambda>l. priceTick l \<noteq> t) (ahead S t vec @ x # ls) = ahead S t vec @ ls"
    using B behind_ticks(1) [OF assms B(1)] ahead_ticks by (auto simp: filter_id_conv)
  ultimately show ?thesis using vec by simp
next
  case False
  moreover from False have "filter (\<lambda>l. priceTick l \<noteq> t) vec = vec"
    by (auto simp: filter_id_conv)
  ultimately show ?thesis
    using hit_iff [OF assms, of t] unfolding remove_vec_def Let_def by presburger
qed

lemma update_vec_present:
  assumes "sorted_wrt (better S) (map priceTick vec)" and "priceTick lvl \<in> priceTick ` set vec"
  shows "update_vec d S lvl vec =
    map (\<lambda>l. if priceTick l = priceTick lvl then l\<lparr>quantityLot := quantityLot lvl\<rparr> else l) vec"
proof -
  let ?t = "priceTick lvl"
  let ?f = "\<lambda>l. if priceTick l = ?t then l\<lparr>quantityLot := quantityLot lvl\<rparr> else l"
  obtain x ls where B: "behind S ?t vec = x # ls" "priceTick x = ?t"
    using assms(2) unfolding tick_present_iff [OF assms(1)] by blast
  then have vec: "vec = ahead S ?t vec @ x # ls" by (metis takeWhile_dropWhile_id)
  have "update_vec d S lvl vec = vec[length (ahead S ?t vec) := x\<lparr>quantityLot := quantityLot lvl\<rparr>]"
    using hit_iff [OF assms(1), of ?t] assms(2)
    by (simp add: update_vec_def Let_def find_pos_eq [OF assms(1)] nth_find_pos [OF B(1)])
  also have "\<dots> = ahead S ?t vec @ x\<lparr>quantityLot := quantityLot lvl\<rparr> # ls"
    by (subst (1) vec) simp
  also have "\<dots> = map ?f (ahead S ?t vec @ x # ls)"
    using B behind_ticks(1) [OF assms(1) B(1)] ahead_ticks by (auto simp: map_idI)
  finally show ?thesis using vec by simp
qed

lemma update_vec_absent:
  assumes "sorted_wrt (better S) (map priceTick vec)" and "priceTick lvl \<notin> priceTick ` set vec"
    and "length vec \<le> d"
  shows "update_vec d S lvl vec =
    take d (ahead S (priceTick lvl) vec @ lvl # behind S (priceTick lvl) vec)"
proof -
  let ?A = "ahead S (priceTick lvl) vec" and ?B = "behind S (priceTick lvl) vec"
  have len: "length vec = length ?A + length ?B"
    by (metis length_append takeWhile_dropWhile_id)
  have ins: "insert_at (length ?A) lvl vec = ?A @ lvl # ?B"
    by (metis append_eq_conv_conj insert_at_def takeWhile_dropWhile_id)
  have upd: "update_vec d S lvl vec =
    (if length vec < d then ?A @ lvl # ?B
     else if length ?A \<noteq> length vec then butlast (?A @ lvl # ?B) else vec)"
    using hit_iff [OF assms(1), of "priceTick lvl"] assms(2)
    unfolding update_vec_def Let_def find_pos_eq [OF assms(1)] ins by presburger
  consider "length vec < d" | "length vec = d" using assms(3) by linarith
  then show ?thesis
  proof cases
    case 1
    then show ?thesis using upd len by simp
  next
    case full: 2
    show ?thesis
    proof (cases ?B)
      case Nil
      have A: "?A = vec" using Nil by (metis append_Nil2 takeWhile_dropWhile_id)
      show ?thesis using full upd unfolding Nil A by simp
    next
      case (Cons x ls)
      have "length ?A \<noteq> length vec" unfolding present_iff Cons by simp
      with upd full have "update_vec d S lvl vec = butlast (?A @ lvl # ?B)" by simp
      then show ?thesis using len full Cons by (simp add: butlast_conv_take)
    qed
  qed
qed


subsection \<open>The invariant is kept\<close>

lemma sorted_insert_between:
  assumes "sorted_wrt (better S) (map priceTick vec)" and "priceTick lvl \<notin> priceTick ` set vec"
  shows "sorted_wrt (better S)
    (map priceTick (ahead S (priceTick lvl) vec @ lvl # behind S (priceTick lvl) vec))"
proof -
  let ?t = "priceTick lvl" and ?A = "ahead S (priceTick lvl) vec" and ?B = "behind S (priceTick lvl) vec"
  have AB: "sorted_wrt (better S) (map priceTick ?A @ map priceTick ?B)"
    using assms(1) by (metis map_append takeWhile_dropWhile_id)
  have A: "better S (priceTick a) ?t" if "a \<in> set ?A" for a
    by (rule tick.takeWhile_before [where key = priceTick, OF that])
  have B: "better S ?t (priceTick b)" if "b \<in> set ?B" for b
  proof -
    have "\<not> better S (priceTick b) ?t" using tick.dropWhile_not_before [OF assms(1) that] .
    moreover have "b \<in> set vec" using that set_ahead_behind [of vec S ?t] by blast
    then have "priceTick b \<noteq> ?t" using assms(2) by (metis image_eqI)
    ultimately show ?thesis using tick.total by blast
  qed
  have "sorted_wrt (better S) (map priceTick ?A @ ?t # map priceTick ?B)"
    using AB A B by (intro tick.sorted_insert_mid) (auto simp only: set_map)
  then show ?thesis by simp
qed

lemma side_ok_update_vec:
  assumes "side_ok d S vec" and "\<not> isEmpty lvl"
  shows "side_ok d S (update_vec d S lvl vec)"
proof (cases "priceTick lvl \<in> priceTick ` set vec")
  case True
  let ?f = "\<lambda>l. if priceTick l = priceTick lvl then l\<lparr>quantityLot := quantityLot lvl\<rparr> else l"
  have "map priceTick (map ?f vec) = map priceTick vec" by auto
  with True assms show ?thesis
    by (auto simp: side_ok_def update_vec_present isEmpty_def simp del: map_map)
next
  case False
  let ?v = "ahead S (priceTick lvl) vec @ lvl # behind S (priceTick lvl) vec"
  have upd: "update_vec d S lvl vec = take d ?v"
    using False assms by (intro update_vec_absent) (auto simp: side_ok_def)
  have "sorted_wrt (better S) (map priceTick ?v)"
    using False assms by (intro sorted_insert_between) (auto simp: side_ok_def)
  then have "sorted_wrt (better S) (map priceTick (take d ?v))"
    by (metis sorted_wrt_take take_map)
  moreover have "\<forall>l \<in> set (take d ?v). \<not> isEmpty l"
    using assms set_ahead_behind [of vec S "priceTick lvl"]
    by (auto simp: side_ok_def dest!: in_set_takeD)
  ultimately show ?thesis unfolding side_ok_def upd by simp
qed

lemma side_ok_remove_vec: "side_ok d S vec \<Longrightarrow> side_ok d S (remove_vec S t vec)"
  by (auto simp: side_ok_def remove_vec_filter sorted_wrt_map
      intro: sorted_wrt_filter le_trans [OF length_filter_le])

lemma book_inv_side: "book_inv b \<longleftrightarrow> (\<forall>S. side_ok (ob_depth b) S (side_vec S b))"
  by (metis book_inv_def side.exhaust side_vec.simps)

lemma side_vec_set [simp]:
  "side_vec S' (set_side_vec S v b) = (if S' = S then v else side_vec S' b)"
  "ob_depth (set_side_vec S v b) = ob_depth b"
  by (cases S; cases S'; simp)+

lemma book_inv_set_side:
  "book_inv b \<Longrightarrow> side_ok (ob_depth b) S v \<Longrightarrow> book_inv (set_side_vec S v b)"
  by (simp add: book_inv_side)

lemma book_inv_remove [intro]: "book_inv b \<Longrightarrow> book_inv (remove_level S t b)"
  unfolding remove_level_def
  by (intro book_inv_set_side side_ok_remove_vec) (auto simp: book_inv_side)

lemma book_inv_update [intro]: "book_inv b \<Longrightarrow> book_inv (update_level S l b)"
  unfolding update_level_def
  by (auto intro!: book_inv_set_side side_ok_update_vec simp: book_inv_side [THEN iffD1, rule_format])

lemma book_inv_clear [simp]: "book_inv (clear_book b)"
  by (simp add: book_inv_def side_ok_def clear_book_def)

lemma book_inv_new: "new_OrderBook d = Inr b \<Longrightarrow> book_inv b \<and> ob_depth b = d \<and> 0 < d"
  by (auto simp: new_OrderBook_def book_inv_def side_ok_def split: if_splits)

lemma depth_step [simp]: "ob_depth (update_level S l b) = ob_depth b"
  "ob_depth (remove_level S t b) = ob_depth b" "ob_depth (clear_book b) = ob_depth b"
  by (simp_all add: step_defs)

lemma bids_strictly_decreasing_iff:
  "bids_strictly_decreasing ls \<longleftrightarrow> sorted_wrt (better BID) (map priceTick ls)"
  by (induction ls rule: bids_strictly_decreasing.induct)
    auto

lemma asks_strictly_increasing_iff:
  "asks_strictly_increasing ls \<longleftrightarrow> sorted_wrt (better ASK) (map priceTick ls)"
  by (induction ls rule: asks_strictly_increasing.induct)
    auto

lemma validate_iff: "validate b \<longleftrightarrow> book_inv b"
  by (auto simp: validate_def book_inv_def side_ok_def bids_strictly_decreasing_iff
      asks_strictly_increasing_iff list_ex_iff)


subsection \<open>Refinement: a side is the map of its best ticks\<close>

lemma levels_map_dom: "dom (levels_map vec) = priceTick ` set vec"
  by (auto simp: levels_map_def dom_map_of_conv_image_fst image_image)

lemma levels_map_nth:
  assumes "sorted_wrt (better S) (map priceTick vec)" and "i < length vec"
  shows "levels_map vec (priceTick (vec ! i)) = Some (quantityLot (vec ! i))"
proof -
  have "distinct (map priceTick vec)" using assms(1) by (rule tick.sorted_distinct)
  then show ?thesis unfolding levels_map_def
    using assms(2) by (intro map_of_is_SomeI) (auto simp: comp_def)
qed

lemma better_set_nth:
  assumes sorted: "sorted_wrt (better S) (map priceTick vec)" and i: "i < length vec"
  shows "{k \<in> priceTick ` set vec. better S k (priceTick (vec ! i))} = priceTick ` set (take i vec)"
proof -
  have less: "better S (priceTick (vec ! a)) (priceTick (vec ! b))" if "a < b" "b < length vec" for a b
    using sorted_wrt_nth_less [OF sorted, of a b] that by simp
  have "better S (priceTick (vec ! j)) (priceTick (vec ! i)) \<longleftrightarrow> j < i" if "j < length vec" for j
    using less [of j i] less [of i j] that i tick.asym tick.irrefl by (metis linorder_neqE_nat)
  moreover have "set (take i vec) = (!) vec ` {0..<i}" and "set vec = (!) vec ` {0..<length vec}"
    using i nth_image [of i vec] nth_image [of "length vec" vec] by simp_all
  ultimately show ?thesis using i by (auto simp: image_image)
qed

lemma card_better_nth:
  assumes "sorted_wrt (better S) (map priceTick vec)" and "i < length vec"
  shows "card {k \<in> priceTick ` set vec. better S k (priceTick (vec ! i))} = i"
proof -
  have "distinct (map priceTick (take i vec))"
    using tick.sorted_distinct [OF assms(1)] by (simp add: take_map [symmetric] distinct_take)
  then have "card (set (map priceTick (take i vec))) = length (map priceTick (take i vec))"
    by (rule distinct_card)
  then show ?thesis using assms by (simp add: better_set_nth)
qed

lemma best_n_take:
  assumes "sorted_wrt (better S) (map priceTick vec)"
  shows "best_n n S (levels_map vec) = levels_map (take n vec)"
proof
  fix k
  have taken: "sorted_wrt (better S) (map priceTick (take n vec))"
    using assms by (metis sorted_wrt_take take_map)
  show "best_n n S (levels_map vec) k = levels_map (take n vec) k"
  proof (cases "k \<in> priceTick ` set vec")
    case True
    then obtain i where i: "i < length vec" "k = priceTick (vec ! i)"
      by (auto simp: in_set_conv_nth)
    have "best_n n S (levels_map vec) k = (if i < n then Some (quantityLot (vec ! i)) else None)"
      using i by (simp add: best_n_def levels_map_dom card_better_nth [OF assms] levels_map_nth [OF assms])
    also have "\<dots> = levels_map (take n vec) k"
    proof (cases "i < n")
      case True
      then show ?thesis using levels_map_nth [OF taken, of i] i by simp
    next
      case False
      have "k \<notin> priceTick ` set (take n vec)"
      proof
        assume "k \<in> priceTick ` set (take n vec)"
        then obtain j where j: "j < n" "j < length vec" "priceTick (vec ! j) = priceTick (vec ! i)"
          using i by (auto simp: in_set_conv_nth)
        with False have "j < i" by simp
        with sorted_wrt_nth_less [OF assms, of j i] i j show False by (simp add: tick.irrefl)
      qed
      then show ?thesis using False levels_map_dom by (metis domIff)
    qed
    finally show ?thesis .
  next
    case False
    then have "levels_map vec k = None" and "levels_map (take n vec) k = None"
      using levels_map_dom by (metis domIff, metis domIff image_eqI imageE in_set_takeD)
    then show ?thesis by (simp add: best_n_def)
  qed
qed

lemma levels_map_append: "levels_map (xs @ ys) = levels_map ys ++ levels_map xs"
  by (simp add: levels_map_def)

lemma levels_map_Cons: "levels_map (l # ls) = (levels_map ls)(priceTick l \<mapsto> quantityLot l)"
  by (simp add: levels_map_def)

lemma levels_map_insert:
  assumes "priceTick lvl \<notin> priceTick ` set vec" and "xs @ ys = vec"
  shows "levels_map (xs @ lvl # ys) = (levels_map vec)(priceTick lvl \<mapsto> quantityLot lvl)"
proof -
  have "levels_map xs (priceTick lvl) = None"
    using assms levels_map_dom by (metis UnCI domIff image_eqI imageE set_append)
  then show ?thesis
    using assms(2) by (auto simp: levels_map_append levels_map_Cons map_add_def fun_eq_iff split: option.splits)
qed


lemma levels_map_filter:
  "levels_map (filter (\<lambda>l. priceTick l \<noteq> t) vec) = (levels_map vec)(t := None)"
  by (induction vec) (auto simp: levels_map_def)

lemma levels_map_set_quantity:
  assumes "t \<in> priceTick ` set vec"
  shows "levels_map (map (\<lambda>l. if priceTick l = t then l\<lparr>quantityLot := q\<rparr> else l) vec)
    = (levels_map vec)(t \<mapsto> q)"
proof -
  have "levels_map (map (\<lambda>l. if priceTick l = t then l\<lparr>quantityLot := q\<rparr> else l) ls) k =
      (if k = t \<and> t \<in> priceTick ` set ls then Some q else levels_map ls k)" for k ls
    by (induction ls) (auto simp: levels_map_def)
  with assms show ?thesis by (auto simp: fun_eq_iff)
qed

lemma update_vec_refines:
  assumes ok: "side_ok d S vec" and ne: "\<not> isEmpty l"
  shows "levels_map (update_vec d S l vec) = best_n d S ((levels_map vec)(priceTick l \<mapsto> quantityLot l))"
proof -
  have sorted: "sorted_wrt (better S) (map priceTick vec)" and len: "length vec \<le> d"
    using ok by (auto simp: side_ok_def)
  show ?thesis
  proof (cases "priceTick l \<in> priceTick ` set vec")
    case True
    have "length (update_vec d S l vec) \<le> d" and
      "sorted_wrt (better S) (map priceTick (update_vec d S l vec))"
      using side_ok_update_vec [OF ok ne] by (auto simp: side_ok_def)
    then have "best_n d S (levels_map (update_vec d S l vec)) = levels_map (update_vec d S l vec)"
      by (simp add: best_n_take)
    then show ?thesis
      by (simp add: update_vec_present [OF sorted True] levels_map_set_quantity [OF True])
  next
    case False
    show ?thesis
      unfolding update_vec_absent [OF sorted False len]
        best_n_take [OF sorted_insert_between [OF sorted False], symmetric]
        levels_map_insert [OF False takeWhile_dropWhile_id] ..
  qed
qed

lemma remove_vec_refines:
  "side_ok d S vec \<Longrightarrow> levels_map (remove_vec S t vec) = (levels_map vec)(t := None)"
  by (simp add: side_ok_def remove_vec_filter levels_map_filter)

section \<open>The contract of a book, as its clients use it\<close>

text \<open>
  What the controller and the consumers of a book rely on: updates and clearing keep the
  invariant, the invariant is exactly what \<^verbatim>\<open>validate\<close> checks, and the sides are sorted.
\<close>

locale level_book =
  fixes upd :: "side \<Rightarrow> level \<Rightarrow> 'b \<Rightarrow> 'b"
    and clr :: "'b \<Rightarrow> 'b"
    and ok :: "'b \<Rightarrow> bool"
    and inv :: "'b \<Rightarrow> bool"
    and view :: "side \<Rightarrow> 'b \<Rightarrow> level list"
  assumes inv_upd: "inv b \<Longrightarrow> inv (upd S l b)"
    and inv_clr: "inv (clr b)"
    and ok_inv: "ok b \<longleftrightarrow> inv b"
    and view_clr: "view S (clr b) = []"
    and view_sorted: "inv b \<Longrightarrow> sorted_wrt (better S) (map priceTick (view S b))"
    and view_nonempty: "inv b \<Longrightarrow> l \<in> set (view S b) \<Longrightarrow> \<not> isEmpty l"
    and view_other: "S' \<noteq> S \<Longrightarrow> view S' (upd S l b) = view S' b"
begin

lemma inv_fold: "inv b \<Longrightarrow> inv (fold (upd S) ls b)"
  by (induction ls arbitrary: b) (auto intro: inv_upd)

lemma ok_fold: "ok b \<Longrightarrow> ok (fold (upd S') ks (fold (upd S) ls b))"
  by (simp add: ok_inv inv_fold)

lemma view_fold_other: "S' \<noteq> S \<Longrightarrow> view S' (fold (upd S) ls b) = view S' b"
  by (induction ls arbitrary: b) (auto simp: view_other)

lemma view_hd_best:
  assumes "inv b" and "view S b = x # ls" and "l \<in> set (view S b)"
  shows "l = x \<or> better S (priceTick x) (priceTick l)"
  using assms view_sorted [OF assms(1), of S] by auto

end

interpretation ob: level_book update_level clear_book validate book_inv side_vec
proof
  show "side_vec S (clear_book b) = []" for S b by (cases S) (auto simp: clear_book_def)
  show "sorted_wrt (better S) (map priceTick (side_vec S b))" if "book_inv b" for S b
    using that by (simp add: book_inv_side side_ok_def)
  show "\<not> isEmpty l" if "book_inv b" "l \<in> set (side_vec S b)" for S b l
    using that by (auto simp: book_inv_side side_ok_def)
  show "side_vec S' (update_level S l b) = side_vec S' b" if "S' \<noteq> S" for S S' l b
    using that by (simp add: step_defs)
qed (auto simp: validate_iff)

section \<open>Properties\<close>

text \<open>C9: The self-check \<^verbatim>\<open>validate\<close> holds of every book that the public operations can produce: from
  a freshly constructed book, after any sequence of updates, removals and clears, \<^verbatim>\<open>validate\<close>
  returns true (depth bound, strictly sorted unique ticks on both sides, no empty level).\<close>

theorem reachable_books_validate:
  assumes "new_OrderBook depth = Inr b"
  shows "validate (fold book_step ops b)"
proof -
  have "book_inv (book_step op c)" if "book_inv c" for op c
    using that by (cases op) auto
  then have "book_inv c \<Longrightarrow> book_inv (fold book_step ops c)" for c
    by (induction ops arbitrary: c) auto
  then show ?thesis using book_inv_new [OF assms] by (simp add: validate_iff)
qed

theorem reachable_books_validate_witness:
  "validate (fold book_step
     [Update BID (Level 100 5 ''1.00'' ''0.005''),
      Update BID (Level 101 6 ''1.01'' ''0.006''),
      Remove BID 100, Clear]
     \<lparr>ob_depth = 1, ob_bids = [], ob_asks = []\<rparr>)"
  by (rule reachable_books_validate [of 1]) (simp add: new_OrderBook_def)

text \<open>C1: Refinement of \<^verbatim>\<open>OrderBook::update\<close>. Seen as a finite map from ticks to quantities, the
  updated side is the old map with the tick set (or deleted, for quantity zero), cut to the best
  \<open>depth\<close> ticks: the binary search, the in-place branch, the insertion and the eviction implement
  exactly top-N level-set semantics. The other side is unchanged.\<close>

theorem update_level_refines:
  assumes "book_inv b"
  shows "levels_map (side_vec S (update_level S l b))
      = abs_update (ob_depth b) S (priceTick l) (quantityLot l) (levels_map (side_vec S b))
    \<and> (S' = S \<or> side_vec S' (update_level S l b) = side_vec S' b)"
proof -
  have ok: "side_ok (ob_depth b) S (side_vec S b)" using assms by (simp add: book_inv_side)
  show ?thesis
    using update_vec_refines [OF ok] remove_vec_refines [OF ok] ob.view_other [of S' S]
    by (auto simp: abs_update_def update_level_def remove_level_def isEmpty_def)
qed

theorem update_level_refines_witness:
  "levels_map (side_vec BID (update_level BID
      (Level 103 7 ''1.03'' ''0.007'')
      \<lparr>ob_depth = 2, ob_bids = [Level 104 2 ''1.04'' ''0.002'', Level 101 3 ''1.01'' ''0.003''], ob_asks = []\<rparr>))
    = abs_update 2 BID 103 7 [104 \<mapsto> 2, 101 \<mapsto> 3]"
proof -
  let ?b = "\<lparr>ob_depth = 2, ob_bids = [Level 104 2 ''1.04'' ''0.002'', Level 101 3 ''1.01'' ''0.003''], ob_asks = []\<rparr>"
  have "book_inv ?b" by (simp add: inv_defs isEmpty_def)
  moreover have "levels_map (side_vec BID ?b) = [104 \<mapsto> 2, 101 \<mapsto> 3]"
    by (auto simp: levels_map_def)
  ultimately show ?thesis using update_level_refines [of ?b BID
      "Level 103 7 ''1.03'' ''0.007''"] by simp
qed

end
