(* ===== verification/OrderBookUtils.thy ===== *)
theory OrderBookUtils
  imports Zida_Prelude
begin

text \<open>
  Decimal strings to integer ticks, \<^verbatim>\<open>common/include/orderbook/OrderBookUtils.hpp\<close>. The C++
  \<^verbatim>\<open>std::from_chars\<close> is modelled with what the source relies on: an optional minus sign, the
  longest run of digits, an error when there is no digit or the value leaves \<^verbatim>\<open>int64_t\<close>, and no
  complaint about characters after the digits. Signed overflow of \<open>int_val * scale + frac_val\<close>,
  undefined in C++, is the error \<open>SignedOverflow\<close> of the model.
\<close>

datatype parse_error = EmptyString | BadIntegerPart | BadFractionalDigit | SignedOverflow

definition is_digit :: "char \<Rightarrow> bool" where
  "is_digit c \<longleftrightarrow> \<not> (of_char c < (48 :: nat) \<or> of_char c > (57 :: nat))"

definition is_space :: "char \<Rightarrow> bool" where
  "is_space c \<longleftrightarrow> (of_char c = (32 :: nat) \<or> 9 \<le> (of_char c :: nat) \<and> (of_char c :: nat) \<le> 13)"

definition digit_val :: "char \<Rightarrow> int" where
  "digit_val c = of_char c - 48"

definition decval :: "string \<Rightarrow> int" where
  "decval cs = foldl (\<lambda>n c. n * 10 + digit_val c) 0 cs"

definition from_chars_i64 :: "string \<Rightarrow> parse_error + i64" where
  "from_chars_i64 s =
     (let (neg, body) = (case s of c # cs \<Rightarrow> if c = CHR ''-'' then (True, cs) else (False, s)
                         | [] \<Rightarrow> (False, []));
          ds = takeWhile is_digit body;
          v = (if neg then - decval ds else decval ds)
      in if ds = [] then Inl BadIntegerPart
         else if i64_ok v then Inr v else Inl BadIntegerPart)"

fun frac_loop :: "i64 \<Rightarrow> i64 \<Rightarrow> i64 \<Rightarrow> string \<Rightarrow> parse_error + i64 \<times> i64" where
  "frac_loop scale frac_val frac_divisor [] = Inr (frac_val, frac_divisor)"
| "frac_loop scale frac_val frac_divisor (c # cs) =
     (if frac_divisor \<ge> scale then Inr (frac_val, frac_divisor)
      else if \<not> is_digit c then Inl BadFractionalDigit
      else frac_loop scale (frac_val * 10 + digit_val c) (frac_divisor * 10) cs)"

text \<open>
  The padding loop. Its divisor starts at 1 and is only multiplied (\<open>frac_loop_divisor\<close> below), so
  the test \<open>0 < frac_divisor\<close>, which makes the recursion well-founded, never fails.
\<close>

function pad_loop :: "i64 \<Rightarrow> i64 \<Rightarrow> i64 \<Rightarrow> i64" where
  "pad_loop scale frac_val frac_divisor =
     (if frac_divisor < scale \<and> 0 < frac_divisor
      then pad_loop scale (frac_val * 10) (frac_divisor * 10) else frac_val)"
  by pat_completeness auto
termination
  by (relation "measure (\<lambda>(s, v, d). nat (s - d))") auto

declare pad_loop.simps [simp del]

definition parseDecimalToScaled :: "string \<Rightarrow> i64 \<Rightarrow> parse_error + i64" where
  "parseDecimalToScaled s0 scale =
     (case s0 of [] \<Rightarrow> Inl EmptyString
      | c # cs \<Rightarrow>
        (let negative = (c = CHR ''-'');
             s = (if negative then cs else s0);
             int_part = takeWhile (\<lambda>x. x \<noteq> CHR ''.'') s;
             frac_part = tl (dropWhile (\<lambda>x. x \<noteq> CHR ''.'') s);
             int_res = (if int_part = [] then Inr 0 else from_chars_i64 int_part)
         in case int_res of Inl e \<Rightarrow> Inl e
            | Inr int_val \<Rightarrow>
              (case frac_loop scale 0 1 frac_part of Inl e \<Rightarrow> Inl e
               | Inr (fv, fd) \<Rightarrow>
                 (let frac_val = pad_loop scale fv fd; result = int_val * scale + frac_val
                  in if i64_ok (int_val * scale) \<and> i64_ok result \<and> (negative \<longrightarrow> i64_ok (- result))
                     then Inr (if negative then - result else result)
                     else Inl SignedOverflow))))"

definition parsePriceToTicks :: "string \<Rightarrow> parse_error + i64" where
  "parsePriceToTicks s = parseDecimalToScaled s 100"

definition parseQtyToLots :: "string \<Rightarrow> parse_error + i64" where
  "parseQtyToLots s = parseDecimalToScaled s 1000"

section \<open>Decimal values\<close>

lemma foldl_decimal:
  "foldl (\<lambda>n c. n * 10 + digit_val c) a cs = a * 10 ^ length cs + decval cs"
proof (induction cs arbitrary: a)
  case (Cons c cs)
  let ?f = "\<lambda>n c. n * 10 + digit_val c"
  have "foldl ?f a (c # cs) = (a * 10 + digit_val c) * 10 ^ length cs + decval cs"
    using Cons.IH by simp
  moreover have "decval (c # cs) = digit_val c * 10 ^ length cs + decval cs"
    using Cons.IH [of "digit_val c"] by (simp add: decval_def)
  ultimately show ?case by (simp add: distrib_right)
qed (simp add: decval_def)

lemma decval_Nil [simp]: "decval [] = 0"
  by (simp add: decval_def)

lemma decval_append: "decval (xs @ ys) = decval xs * 10 ^ length ys + decval ys"
  unfolding decval_def foldl_append
  by (simp add: foldl_decimal [of "foldl (\<lambda>n c. n * 10 + digit_val c) 0 xs"] decval_def)

lemma decval_Cons: "decval (c # cs) = digit_val c * 10 ^ length cs + decval cs"
  using decval_append [of "[c]" cs] by (simp add: decval_def)

lemma digit_val_bounds: "is_digit c \<Longrightarrow> 0 \<le> digit_val c \<and> digit_val c \<le> 9"
proof -
  have "of_char c = int (of_char c)" by (rule of_nat_of_char [symmetric])
  then show "is_digit c \<Longrightarrow> 0 \<le> digit_val c \<and> digit_val c \<le> 9"
    unfolding is_digit_def digit_val_def by linarith
qed

lemma decval_bounds: "list_all is_digit cs \<Longrightarrow> 0 \<le> decval cs \<and> decval cs < 10 ^ length cs"
proof (induction cs)
  case (Cons c cs)
  then have "0 \<le> digit_val c" "digit_val c \<le> 9" "0 \<le> decval cs" "decval cs < 10 ^ length cs"
    using digit_val_bounds by auto
  moreover from this have "digit_val c * 10 ^ length cs \<le> 9 * 10 ^ length cs"
    by (intro mult_right_mono) auto
  moreover have "0 \<le> digit_val c * 10 ^ length cs" using calculation by simp
  ultimately show ?case unfolding decval_Cons length_Cons power_Suc by linarith
qed simp

lemma pad_loop_pow: "pad_loop (10 ^ (j + k)) v (10 ^ j) = v * 10 ^ k"
proof (induction k arbitrary: j v)
  case (Suc k)
  have "(10::int) ^ j < 10 ^ (j + Suc k)" by (rule power_strict_increasing) auto
  then have "pad_loop (10 ^ (j + Suc k)) v (10 ^ j) = pad_loop (10 ^ (Suc j + k)) (v * 10) (10 ^ Suc j)"
    by (subst pad_loop.simps) (simp add: mult.commute)
  also have "\<dots> = v * 10 ^ Suc k" using Suc.IH [of "Suc j" "v * 10"] by simp
  finally show ?case .
qed (simp add: pad_loop.simps)

lemma frac_loop_divisor:
  "frac_loop s v d cs = Inr (v', d') \<Longrightarrow> 0 < d \<Longrightarrow> 0 < d'"
  by (induction s v d cs rule: frac_loop.induct) (auto split: if_splits)

lemma frac_loop_pow:
  assumes "list_all is_digit cs" and "j \<le> k"
  shows "frac_loop (10 ^ k) v (10 ^ j) cs =
    Inr (v * 10 ^ length (take (k - j) cs) + decval (take (k - j) cs),
         10 ^ (j + length (take (k - j) cs)))"
  using assms
proof (induction cs arbitrary: v j)
  case (Cons c cs)
  show ?case
  proof (cases "j = k")
    case False
    with Cons.prems have "j < k" by simp
    then have kj: "k - j = Suc (k - Suc j)" and lt: "\<not> (10::int) ^ j \<ge> 10 ^ k" by simp_all
    have "frac_loop (10 ^ k) v (10 ^ j) (c # cs) =
        frac_loop (10 ^ k) (v * 10 + digit_val c) (10 ^ Suc j) cs"
      using lt Cons.prems by (simp add: mult.commute)
    also have "\<dots> = Inr ((v * 10 + digit_val c) * 10 ^ length (take (k - Suc j) cs)
          + decval (take (k - Suc j) cs), 10 ^ (Suc j + length (take (k - Suc j) cs)))"
      using Cons.prems \<open>j < k\<close> by (intro Cons.IH) auto
    finally show ?thesis by (simp add: kj decval_Cons algebra_simps)
  qed simp
qed simp

text \<open>Truncation of a digit string to \<open>k\<close> places, padded with zeros.\<close>

lemma decval_truncate:
  assumes "list_all is_digit fs"
  shows "decval (take k fs) * 10 ^ (k - length fs) = decval fs * 10 ^ k div 10 ^ length fs"
proof (cases "length fs \<le> k")
  case True
  then have "(10::int) ^ k = 10 ^ (k - length fs) * 10 ^ length fs"
    by (simp add: power_add [symmetric])
  then have "decval fs * 10 ^ k div 10 ^ length fs
      = (decval fs * 10 ^ (k - length fs)) * 10 ^ length fs div 10 ^ length fs"
    by (simp only: mult.assoc)
  with True show ?thesis by simp
next
  case False
  let ?m = "length fs - k"
  have fs: "decval fs = decval (take k fs) * 10 ^ ?m + decval (drop k fs)"
    using decval_append [of "take k fs" "drop k fs"] by simp
  have "0 \<le> decval (drop k fs)" and "decval (drop k fs) < 10 ^ ?m"
    using decval_bounds [of "drop k fs"] assms by (auto simp: list_all_iff dest: in_set_dropD)
  then have "decval fs div 10 ^ ?m = decval (take k fs)"
    by (simp add: fs)
  moreover have "(10::int) ^ length fs = 10 ^ ?m * 10 ^ k"
    using False by (simp add: power_add [symmetric])
  then have "decval fs * 10 ^ k div 10 ^ length fs = decval fs div 10 ^ ?m"
    by simp
  ultimately show ?thesis using False by simp
qed


section \<open>Parsing well-formed decimals\<close>

lemma nat_str_digits:
  "list_all is_digit (nat_str n) \<and> decval (nat_str n) = int n \<and> nat_str n \<noteq> []"
proof (induction n rule: nat_str.induct)
  case (1 n)
  have digit: "is_digit (char_of (48 + k)) \<and> digit_val (char_of (48 + k)) = int k" if "k < 10" for k :: nat
    using that of_nat_of_char [of "char_of (48 + k)", where 'a = int, symmetric]
    by (simp add: is_digit_def digit_val_def of_char_of take_bit_eq_mod del: of_nat_of_char)
  have split10: "int (n div 10) * 10 + int (n mod 10) = int n"
    by (simp add: zdiv_int zmod_int)
  show ?case
    using 1 digit [of n] digit [of "n mod 10"] split10
    by (cases "n < 10") (simp_all add: nat_str.simps [of n] decval_append decval_Cons)
qed

lemma digit_not_space: "is_digit c \<Longrightarrow> \<not> is_space c \<and> c \<noteq> CHR ''-'' \<and> c \<noteq> CHR ''+''"
  by (auto simp: is_digit_def is_space_def)

lemma digit_not_sign: "is_digit c \<Longrightarrow> c \<noteq> CHR ''-'' \<and> c \<noteq> CHR ''.''"
  by (auto simp: is_digit_def)

lemma takeWhile_digits_dot:
  assumes "list_all is_digit ds"
  shows "takeWhile (\<lambda>x. x \<noteq> CHR ''.'') (ds @ CHR ''.'' # fs) = ds"
    and "dropWhile (\<lambda>x. x \<noteq> CHR ''.'') (ds @ CHR ''.'' # fs) = CHR ''.'' # fs"
  using assms digit_not_sign by (induction ds) auto

lemma from_chars_digits:
  assumes "list_all is_digit ds" and "ds \<noteq> []" and "decval ds < 2 ^ 63"
  shows "from_chars_i64 ds = Inr (decval ds)"
proof -
  obtain c cs where ds: "ds = c # cs" using assms(2) by (cases ds) auto
  have tw: "takeWhile is_digit ds = ds" using assms(1) by (simp add: list_all_iff)
  have "i64_ok (decval ds)" using assms(3) decval_bounds [OF assms(1)] by (simp add: i64_ok_def)
  moreover have "c \<noteq> CHR ''-''" using assms(1) digit_not_sign ds by auto
  ultimately show ?thesis using tw assms(2) by (simp add: from_chars_i64_def ds)
qed

lemma scaled_value:
  assumes "list_all is_digit fs"
  shows "decval (ds @ fs) * 10 ^ k div 10 ^ length fs
    = decval ds * 10 ^ k + decval (take k fs) * 10 ^ (k - length fs)"
proof -
  have "decval (ds @ fs) * 10 ^ k = decval fs * 10 ^ k + decval ds * 10 ^ k * 10 ^ length fs"
    by (simp add: decval_append algebra_simps)
  then show ?thesis using decval_truncate [OF assms, of k] by simp
qed

text \<open>The common tail of the parser once sign and integer part are known.\<close>

lemma frac_and_pad:
  assumes "list_all is_digit fs"
  shows "\<exists>fv fd. frac_loop (10 ^ k) 0 1 fs = Inr (fv, fd) \<and>
    pad_loop (10 ^ k) fv fd = decval (take k fs) * 10 ^ (k - length fs)"
proof -
  let ?n = "length (take k fs)"
  have "frac_loop (10 ^ k) 0 1 fs = Inr (decval (take k fs), 10 ^ ?n)"
    using frac_loop_pow [OF assms, of 0 k 0] by simp
  moreover have "?n + (k - length fs) = k" by auto
  then have "pad_loop (10 ^ k) (decval (take k fs)) (10 ^ ?n) = decval (take k fs) * 10 ^ (k - length fs)"
    using pad_loop_pow [of ?n "k - length fs"] by simp
  ultimately show ?thesis by auto
qed

text \<open>C13: Exactness of the decimal parser at every power-of-ten scale \<open>10^k\<close> (prices use 100,
  quantities 1000): a string of digits, a dot and digits denotes a rational; the parser returns
  that rational times the scale, truncated toward zero, for either sign, whenever the result fits
  \<^verbatim>\<open>int64_t\<close>. No precision is lost and no error is raised.\<close>

theorem parse_decimal_exact:
  assumes ds: "list_all is_digit ds" "ds \<noteq> []" and fs: "list_all is_digit fs"
    and fits: "decval (ds @ fs) * 10 ^ k div 10 ^ length fs < 2 ^ 63"
  shows "parseDecimalToScaled (ds @ ''.'' @ fs) (10 ^ k)
      = Inr (decval (ds @ fs) * 10 ^ k div 10 ^ length fs)
    \<and> parseDecimalToScaled (''-'' @ ds @ ''.'' @ fs) (10 ^ k)
      = Inr (- (decval (ds @ fs) * 10 ^ k div 10 ^ length fs))"
proof -
  obtain c cs where c: "ds = c # cs" using ds(2) by (cases ds) auto
  define F where "F = decval (take k fs) * 10 ^ (k - length fs)"
  define v where "v = decval ds * 10 ^ k + F"
  have v: "decval (ds @ fs) * 10 ^ k div 10 ^ length fs = v"
    by (simp add: scaled_value [OF fs] v_def F_def)
  obtain fv fd where fl: "frac_loop (10 ^ k) 0 1 fs = Inr (fv, fd)" "pad_loop (10 ^ k) fv fd = F"
    using frac_and_pad [OF fs, of k] by (auto simp: F_def)
  have "list_all is_digit (take k fs)" using fs by (auto simp: list_all_iff dest: in_set_takeD)
  then have F0: "0 \<le> F" using decval_bounds by (simp add: F_def)
  have d0: "0 \<le> decval ds" using decval_bounds [OF ds(1)] by simp
  have "decval ds * 1 \<le> decval ds * 10 ^ k" using d0 by (intro mult_left_mono) auto
  then have ok: "i64_ok (decval ds * 10 ^ k)" "i64_ok v" "i64_ok (- v)" and small: "decval ds < 2 ^ 63"
    using d0 F0 fits v by (auto simp: i64_ok_def v_def)
  have int: "from_chars_i64 ds = Inr (decval ds)" using ds small by (rule from_chars_digits)
  have "c \<noteq> CHR ''-''" using ds(1) digit_not_sign c by auto
  then show ?thesis
    using ok int fl takeWhile_digits_dot [OF ds(1), of fs]
    unfolding v unfolding v_def c by (simp add: parseDecimalToScaled_def Let_def)
qed

theorem parse_decimal_exact_witness:
  "parseDecimalToScaled ''64250.129'' 100 = Inr 6425012 \<and>
   parseDecimalToScaled ''-64250.129'' 100 = Inr (- 6425012)"
  using parse_decimal_exact [of "''64250''" "''129''" 2]
  by (simp add: is_digit_def decval_def digit_val_def)

text \<open>The parser accepts malformed input: characters after the integer digits, characters
  after the last fractional digit that is used, and a doubled sign are silently ignored, although
  its documentation promises \<^verbatim>\<open>std::invalid_argument\<close> on malformed input.\<close>

theorem parse_accepts_malformed:
  "parsePriceToTicks ''12abc'' = Inr 1200 \<and> parsePriceToTicks ''1.50xyz'' = Inr 150 \<and>
   parsePriceToTicks ''--5'' = Inr 500 \<and> parsePriceToTicks ''-'' = Inr 0 \<and>
   parsePriceToTicks ''abc'' = Inl BadIntegerPart"
  by (simp add: parsePriceToTicks_def parseDecimalToScaled_def from_chars_i64_def is_digit_def
      decval_def digit_val_def i64_ok_def pad_loop.simps Let_def)

end
