(* ===== verification/CheckSumUtils.thy ===== *)
theory CheckSumUtils
  imports OrderBook
begin

text \<open>
  The CRC-32 book checksum of \<^verbatim>\<open>common/include/utils/CheckSumUtils.hpp\<close>. The CRC itself is
  \<^verbatim>\<open>boost::crc_32_type\<close>, which is not part of the repository: it is the parameter \<open>crc\<close>.
\<close>

type_synonym checksum_fn = "order_book \<Rightarrow> i64 \<Rightarrow> nat \<Rightarrow> bool"

definition CRC32ToSigned :: "u32 \<Rightarrow> i64" where
  "CRC32ToSigned u = sint u"

text \<open>The \<^verbatim>\<open>append\<close> lambda: a colon before every token but the first.\<close>

definition append_tok :: "string \<Rightarrow> bool \<times> string \<Rightarrow> bool \<times> string" where
  "append_tok tok st = (let (first, s) = st in (False, (if first then s else s @ '':'') @ tok))"

definition append_level :: "level option \<Rightarrow> bool \<times> string \<Rightarrow> bool \<times> string" where
  "append_level lo st =
     (case lo of None \<Rightarrow> st | Some l \<Rightarrow> append_tok (quantity l) (append_tok (price l) st))"

definition checksum_string :: "order_book \<Rightarrow> nat \<Rightarrow> string" where
  "checksum_string book topN =
     snd (fold (\<lambda>i st. append_level (ask_ptr book i) (append_level (bid_ptr book i) st))
            [0..<topN] (True, ''''))"

definition checkBitgetCRC32 :: "(string \<Rightarrow> u32) \<Rightarrow> checksum_fn" where
  "checkBitgetCRC32 crc book expected topN \<longleftrightarrow>
     CRC32ToSigned (crc (checksum_string book topN)) = expected"

section \<open>What the checksum sees of an update\<close>

definition same_text :: "level option \<Rightarrow> level option \<Rightarrow> bool" where
  "same_text x y \<longleftrightarrow> map_option (\<lambda>l. (price l, quantity l)) x = map_option (\<lambda>l. (price l, quantity l)) y"

lemma append_level_same_text: "same_text x y \<Longrightarrow> append_level x st = append_level y st"
  by (cases x; cases y) (auto simp: same_text_def append_level_def)

lemma checksum_string_cong:
  assumes "\<And>i. same_text (bid_ptr b i) (bid_ptr c i)" and "\<And>i. same_text (ask_ptr b i) (ask_ptr c i)"
  shows "checksum_string b n = checksum_string c n"
  unfolding checksum_string_def
  by (simp add: append_level_same_text [OF assms(1)] append_level_same_text [OF assms(2)])

definition level_at :: "level list \<Rightarrow> nat \<Rightarrow> level option" where
  "level_at vec i = (if i \<ge> length vec then None else if isEmpty (vec ! i) then None else Some (vec ! i))"

lemma ptr_level_at: "bid_ptr b i = level_at (side_vec BID b) i" "ask_ptr b i = level_at (side_vec ASK b) i"
  by (simp_all add: bid_ptr_def ask_ptr_def level_at_def)

lemma level_at_set_quantity:
  assumes "\<And>x. x \<in> set vec \<Longrightarrow> \<not> isEmpty x" and "q \<noteq> 0"
  shows "same_text (level_at (map (\<lambda>x. if priceTick x = t then x\<lparr>quantityLot := q\<rparr> else x) vec) i)
    (level_at vec i)"
proof (cases "i < length vec")
  case True
  then have "\<not> isEmpty (vec ! i)" using assms(1) nth_mem by blast
  with True assms(2) show ?thesis by (simp add: level_at_def same_text_def isEmpty_def)
qed (simp add: level_at_def same_text_def)

lemma update_present_text:
  assumes "book_inv b" and "\<not> isEmpty l" and "priceTick l \<in> priceTick ` set (side_vec S b)"
  shows "same_text (level_at (side_vec S' (update_level S l b)) i) (level_at (side_vec S' b) i)"
proof (cases "S' = S")
  case True
  have sorted: "sorted_wrt (better S) (map priceTick (side_vec S b))"
    using assms(1) by (rule ob.view_sorted)
  have "side_vec S (update_level S l b) =
      map (\<lambda>x. if priceTick x = priceTick l then x\<lparr>quantityLot := quantityLot l\<rparr> else x) (side_vec S b)"
    unfolding update_level_def update_vec_present [OF sorted assms(3)] using assms(2) by simp
  then show ?thesis
    using True assms(2) ob.view_nonempty [OF assms(1), of _ S]
    by (simp add: level_at_set_quantity isEmpty_def)
qed (simp add: ob.view_other same_text_def)

text \<open>The checksum is blind to quantity changes. When an update changes the quantity of a level
  that is already in the book, \<^verbatim>\<open>OrderBook::update\<close> stores the new \<^verbatim>\<open>quantityLot\<close> but keeps the old
  \<^verbatim>\<open>quantity\<close> text, and the checksum is computed from that text: for every CRC function the check
  gives the same answer before and after the update.\<close>

theorem checksum_ignores_quantity_updates:
  assumes "book_inv b" and "\<not> isEmpty l" and "priceTick l \<in> priceTick ` set (side_vec S b)"
  shows "checkBitgetCRC32 crc (update_level S l b) expected topN = checkBitgetCRC32 crc b expected topN"
proof -
  have "checksum_string (update_level S l b) topN = checksum_string b topN"
    by (rule checksum_string_cong) (simp_all only: ptr_level_at update_present_text [OF assms])
  then show ?thesis by (simp add: checkBitgetCRC32_def)
qed

theorem checksum_ignores_quantity_updates_witness:
  "checkBitgetCRC32 (\<lambda>s. of_nat (length s))
     (update_level BID (Level 100 9000 ''1.00'' ''9.000'')
        \<lparr>ob_depth = 5, ob_bids = [Level 100 5 ''1.00'' ''0.005''], ob_asks = []\<rparr>) 10 25
   \<longleftrightarrow> checkBitgetCRC32 (\<lambda>s. of_nat (length s))
        \<lparr>ob_depth = 5, ob_bids = [Level 100 5 ''1.00'' ''0.005''], ob_asks = []\<rparr> 10 25"
  by (rule checksum_ignores_quantity_updates) (auto simp: inv_defs isEmpty_def)

end
