(* ===== verification/OrderBookController.thy ===== *)
theory OrderBookController
  imports CheckSumUtils
begin

text \<open>
  The synchronisation controller of one book, \<^verbatim>\<open>common/include/orderbook/OrderBookController.hpp\<close> and
  \<^verbatim>\<open>common/src/orderbook/OrderBookController.cpp\<close>: the normalized snapshot and incremental
  messages, the controller's fields, \<open>resetBook\<close>, \<open>onSnapshot\<close>, \<open>onIncrement\<close> with its bridging
  and steady phases, and the configuration setters. Log calls are left out; \<^verbatim>\<open>set_state_\<close> is the
  assignment of the state. A checksum function is an optional parameter, as the C++ function
  pointer is. \<^verbatim>\<open>std::sort\<close> on a snapshot side is \<open>sort_key\<close>; the order it leaves among levels of
  equal price is unspecified in C++, and unique when the ticks of the side are distinct.
\<close>

section \<open>Messages\<close>

record GenericIncrementalFormat =
  first_seq :: u64
  last_seq :: u64
  prev_last :: u64
  inc_ts_recv_ns :: i64
  inc_checksum :: i64
  inc_bids :: "level list"
  inc_asks :: "level list"

definition incremental_reset :: GenericIncrementalFormat where
  "incremental_reset = \<lparr>first_seq = 0, last_seq = 0, prev_last = 0, inc_ts_recv_ns = 0,
     inc_checksum = 0, inc_bids = [], inc_asks = []\<rparr>"

record GenericSnapshotFormat =
  lastUpdateId :: u64
  snap_ts_recv_ns :: i64
  snap_checksum :: i64
  snap_bids :: "level list"
  snap_asks :: "level list"

definition snapshot_reset :: GenericSnapshotFormat where
  "snapshot_reset = \<lparr>lastUpdateId = 0, snap_ts_recv_ns = 0, snap_checksum = 0,
     snap_bids = [], snap_asks = []\<rparr>"

section \<open>State\<close>

datatype BaselineKind = RestAnchoredBaseline | WsAuthoritativeBaseline

datatype action = NoAction | NeedResync

datatype BookSyncState = WaitingSnapshot | WaitingBridge | Synced

record controller =
  c_book :: order_book
  c_state :: BookSyncState
  c_last_seq :: u64
  c_expected_seq :: u64
  c_checksum_fn :: "checksum_fn option"
  c_checksum_topN :: nat
  c_allow_seq_gap :: bool
  c_validate_period :: nat
  c_validate_counter :: nat
  c_has_checksum :: bool
  c_require_checksum :: bool

definition new_OrderBookController :: "nat \<Rightarrow> book_error + controller" where
  "new_OrderBookController depth =
     (case new_OrderBook depth of Inl e \<Rightarrow> Inl e
      | Inr b \<Rightarrow> Inr \<lparr>c_book = b, c_state = WaitingSnapshot, c_last_seq = 0, c_expected_seq = 0,
          c_checksum_fn = None, c_checksum_topN = 25, c_allow_seq_gap = False,
          c_validate_period = 0, c_validate_counter = 0, c_has_checksum = False,
          c_require_checksum = False\<rparr>)"

definition configureChecksum :: "checksum_fn option \<Rightarrow> nat \<Rightarrow> controller \<Rightarrow> controller" where
  "configureChecksum fn topN c = c\<lparr>c_checksum_fn := fn, c_checksum_topN := topN\<rparr>"

definition setAllowSequenceGap :: "bool \<Rightarrow> controller \<Rightarrow> controller" where
  "setAllowSequenceGap allow c = c\<lparr>c_allow_seq_gap := allow\<rparr>"

definition setValidatePeriod :: "nat \<Rightarrow> controller \<Rightarrow> controller" where
  "setValidatePeriod n c = c\<lparr>c_validate_period := n\<rparr>"

definition setHasChecksum :: "bool \<Rightarrow> controller \<Rightarrow> controller" where
  "setHasChecksum has c = c\<lparr>c_has_checksum := has\<rparr>"

definition setRequireChecksum :: "bool \<Rightarrow> controller \<Rightarrow> controller" where
  "setRequireChecksum require c = c\<lparr>c_require_checksum := require\<rparr>"

section \<open>Operations\<close>

definition resetBook :: "controller \<Rightarrow> controller" where
  "resetBook c = c\<lparr>c_book := clear_book (c_book c), c_state := WaitingSnapshot,
                   c_last_seq := 0, c_expected_seq := 0\<rparr>"

definition isSynced :: "controller \<Rightarrow> bool" where
  "isSynced c \<longleftrightarrow> c_state c = Synced"

definition need_resync :: "controller \<Rightarrow> action \<times> controller" where
  "need_resync c = (NeedResync, resetBook c)"

definition validateChecksum :: "controller \<Rightarrow> i64 \<Rightarrow> bool" where
  "validateChecksum c expected =
     (case c_checksum_fn c of None \<Rightarrow> True | Some f \<Rightarrow> f (c_book c) expected (c_checksum_topN c))"

definition sort_bids :: "level list \<Rightarrow> level list" where
  "sort_bids = sort_key (\<lambda>l. - priceTick l)"

definition sort_asks :: "level list \<Rightarrow> level list" where
  "sort_asks = sort_key priceTick"

definition load_snapshot :: "GenericSnapshotFormat \<Rightarrow> order_book \<Rightarrow> order_book" where
  "load_snapshot msg b =
     (let bids = filter (\<lambda>l. \<not> quantityLot l = 0) (snap_bids msg);
          asks = filter (\<lambda>l. \<not> quantityLot l = 0) (snap_asks msg)
      in fold (update_level ASK) (sort_asks asks) (fold (update_level BID) (sort_bids bids) b))"

definition onSnapshot :: "GenericSnapshotFormat \<Rightarrow> BaselineKind \<Rightarrow> controller \<Rightarrow> action \<times> controller" where
  "onSnapshot msg kind c0 =
     (let c1 = resetBook c0;
          c = c1\<lparr>c_book := load_snapshot msg (c_book c1),
                 c_last_seq := lastUpdateId msg, c_expected_seq := lastUpdateId msg + 1\<rparr>;
          accept = (NoAction, c\<lparr>c_state := (if kind = WsAuthoritativeBaseline then Synced else WaitingBridge)\<rparr>)
      in if c_checksum_fn c \<noteq> None then
           (if snap_checksum msg = 0 then accept
            else if \<not> validateChecksum c (snap_checksum msg) then need_resync c
            else accept)
         else accept)"

definition applyIncrementUpdate :: "GenericIncrementalFormat \<Rightarrow> controller \<Rightarrow> controller" where
  "applyIncrementUpdate upd c =
     c\<lparr>c_book := fold (update_level ASK) (inc_asks upd)
                   (fold (update_level BID) (inc_bids upd) (c_book c))\<rparr>"

text \<open>Guard C1: both sides quoted and the best bid at or above the best ask.\<close>

definition crossed :: "order_book \<Rightarrow> bool" where
  "crossed b \<longleftrightarrow> (let bid = priceTick (best_bid b); ask = priceTick (best_ask b)
                   in bid > 0 \<and> ask > 0 \<and> bid \<ge> ask)"

definition checksum_guard :: "GenericIncrementalFormat \<Rightarrow> controller \<Rightarrow> (action \<times> controller) \<Rightarrow> action \<times> controller" where
  "checksum_guard msg c continue =
     (if c_checksum_fn c \<noteq> None then
        (if inc_checksum msg = 0 then need_resync c
         else if \<not> validateChecksum c (inc_checksum msg) then need_resync c
         else continue)
      else continue)"

text \<open>Lines 112--178: the bridging phase.\<close>

definition bridge_phase :: "GenericIncrementalFormat \<Rightarrow> controller \<Rightarrow> action \<times> controller" where
  "bridge_phase msg c =
     (let after = (\<lambda>c'. if crossed (c_book c') then need_resync c'
                        else checksum_guard msg c' (NoAction, c'))
      in if last_seq msg \<noteq> 0 then
           (if last_seq msg < c_expected_seq c then (NoAction, c)
            else if first_seq msg > c_expected_seq c \<and> \<not> c_allow_seq_gap c then need_resync c
            else after ((applyIncrementUpdate msg c)\<lparr>c_last_seq := last_seq msg,
                          c_expected_seq := last_seq msg + 1, c_state := Synced\<rparr>))
         else after ((applyIncrementUpdate msg c)\<lparr>c_state := Synced\<rparr>))"

text \<open>Lines 214--240: the periodic validation, the checksum guard and the strict checksum mode.\<close>

definition steady_checksums :: "GenericIncrementalFormat \<Rightarrow> controller \<Rightarrow> action \<times> controller" where
  "steady_checksums msg c =
     checksum_guard msg c
       (if c_require_checksum c \<and> c_has_checksum c \<and> c_checksum_fn c = None \<and> inc_checksum msg = 0
        then need_resync c else (NoAction, c))"

definition steady_guards :: "GenericIncrementalFormat \<Rightarrow> controller \<Rightarrow> action \<times> controller" where
  "steady_guards msg c =
     (if crossed (c_book c) then need_resync c
      else if c_validate_period c > 0 then
        (if Suc (c_validate_counter c) \<ge> c_validate_period c then
           (let c' = c\<lparr>c_validate_counter := 0\<rparr>
            in if \<not> validate (c_book c') then need_resync c' else steady_checksums msg c')
         else steady_checksums msg (c\<lparr>c_validate_counter := Suc (c_validate_counter c)\<rparr>))
      else steady_checksums msg c)"

definition steady_phase :: "GenericIncrementalFormat \<Rightarrow> controller \<Rightarrow> action \<times> controller" where
  "steady_phase msg c =
     (if last_seq msg \<noteq> 0 then
        (if last_seq msg < c_expected_seq c then (NoAction, c)
         else if first_seq msg > c_expected_seq c \<and> \<not> c_allow_seq_gap c then need_resync c
         else steady_guards msg ((applyIncrementUpdate msg c)\<lparr>c_last_seq := last_seq msg,
                c_expected_seq := last_seq msg + 1\<rparr>))
      else steady_guards msg (applyIncrementUpdate msg c))"

definition onIncrement :: "GenericIncrementalFormat \<Rightarrow> controller \<Rightarrow> action \<times> controller" where
  "onIncrement msg c =
     (if c_state c = WaitingSnapshot then (NoAction, c)
      else if last_seq msg = 0 \<and> c_checksum_fn c = None then need_resync c
      else if c_state c = WaitingBridge then bridge_phase msg c
      else steady_phase msg c)"

lemmas [step_defs] = resetBook_def need_resync_def applyIncrementUpdate_def checksum_guard_def
  bridge_phase_def steady_checksums_def steady_guards_def steady_phase_def onIncrement_def
  onSnapshot_def


section \<open>Outcomes of an incremental\<close>

text \<open>An accepted incremental: its levels applied, its sequence numbers recorded.\<close>

definition accept_step :: "GenericIncrementalFormat \<Rightarrow> controller \<Rightarrow> controller" where
  "accept_step m c =
     (let c1 = applyIncrementUpdate m c in
      (if last_seq m \<noteq> 0
       then c1\<lparr>c_last_seq := last_seq m, c_expected_seq := last_seq m + 1\<rparr> else c1)\<lparr>c_state := Synced\<rparr>)"

definition outdated :: "GenericIncrementalFormat \<Rightarrow> controller \<Rightarrow> bool" where
  "outdated m c \<longleftrightarrow> last_seq m \<noteq> 0 \<and> last_seq m < c_expected_seq c"

definition gap :: "GenericIncrementalFormat \<Rightarrow> controller \<Rightarrow> bool" where
  "gap m c \<longleftrightarrow> last_seq m \<noteq> 0 \<and> \<not> last_seq m < c_expected_seq c \<and> first_seq m > c_expected_seq c"

lemma clear_book_update [simp]: "clear_book (update_level S l b) = clear_book b"
  by (cases S) (auto simp: step_defs)

lemma clear_book_fold [simp]: "clear_book (fold (update_level S) ls b) = clear_book b"
  by (induction ls arbitrary: b) auto

lemma depth_fold [simp]: "ob_depth (fold (update_level S) ls b) = ob_depth b"
  by (induction ls arbitrary: b) auto

lemma clear_book_apply [simp]:
  "clear_book (c_book (applyIncrementUpdate m c)) = clear_book (c_book c)"
  by (simp add: applyIncrementUpdate_def)

lemma validateChecksum_counter [simp]:
  "validateChecksum (c\<lparr>c_validate_counter := k\<rparr>) x = validateChecksum c x"
  by (simp add: validateChecksum_def split: option.split)

lemma accept_step_synced:
  "c_state c = Synced \<Longrightarrow> accept_step m c =
    (if last_seq m \<noteq> 0 then (applyIncrementUpdate m c)\<lparr>c_last_seq := last_seq m,
       c_expected_seq := last_seq m + 1\<rparr> else applyIncrementUpdate m c)"
  by (cases c) (simp add: accept_step_def applyIncrementUpdate_def)

lemma resetBook_counter [simp]:
  "resetBook (c\<lparr>c_validate_counter := k\<rparr>) = (resetBook c)\<lparr>c_validate_counter := k\<rparr>"
  by (simp add: resetBook_def)

lemma steady_checksums_cases:
  "steady_checksums m c = (NeedResync, resetBook c) \<or>
   steady_checksums m c = (NoAction, c) \<and>
     (c_checksum_fn c = None \<or> validateChecksum c (inc_checksum m) \<and> inc_checksum m \<noteq> 0)"
  by (auto simp: steady_checksums_def checksum_guard_def need_resync_def)

lemma steady_guards_cases:
  "\<exists>k. steady_guards m c = (NeedResync, (resetBook c)\<lparr>c_validate_counter := k\<rparr>) \<or>
   steady_guards m c = (NoAction, c\<lparr>c_validate_counter := k\<rparr>) \<and> \<not> crossed (c_book c) \<and>
     (c_checksum_fn c = None \<or> validateChecksum c (inc_checksum m) \<and> inc_checksum m \<noteq> 0)"
proof (cases "crossed (c_book c)")
  case True
  then have "steady_guards m c = (NeedResync, (resetBook c)\<lparr>c_validate_counter := c_validate_counter c\<rparr>)"
    by (simp add: steady_guards_def need_resync_def resetBook_def)
  then show ?thesis by blast
next
  case False
  define k where "k = (if c_validate_period c > 0 then
      if Suc (c_validate_counter c) \<ge> c_validate_period c then 0 else Suc (c_validate_counter c)
      else c_validate_counter c)"
  have "steady_guards m c = steady_checksums m (c\<lparr>c_validate_counter := k\<rparr>) \<or>
      steady_guards m c = (NeedResync, (resetBook c)\<lparr>c_validate_counter := k\<rparr>)"
    using False by (auto simp: steady_guards_def k_def need_resync_def Let_def)
  then show ?thesis
    using False steady_checksums_cases [of m "c\<lparr>c_validate_counter := k\<rparr>"] by auto
qed

text \<open>
  Every incremental is ignored, forces a resync from a cleared controller, or is accepted; only the
  validation counter is left open.
\<close>

text \<open>What becomes of an incremental that is not too old: a reset, or an accepted step that passed every guard.\<close>

definition settles :: "GenericIncrementalFormat \<Rightarrow> controller \<Rightarrow> action \<times> controller \<Rightarrow> bool" where
  "settles m c r \<longleftrightarrow> (\<exists>k. r = (NeedResync, (resetBook c)\<lparr>c_validate_counter := k\<rparr>) \<or>
     r = (NoAction, (accept_step m c)\<lparr>c_validate_counter := k\<rparr>) \<and>
     (gap m c \<longrightarrow> c_allow_seq_gap c) \<and> \<not> crossed (c_book (accept_step m c)) \<and>
     (c_checksum_fn c = None \<or> validateChecksum (accept_step m c) (inc_checksum m) \<and> inc_checksum m \<noteq> 0))"

lemma bridge_settles:
  "c_state c = WaitingBridge \<Longrightarrow> \<not> outdated m c \<Longrightarrow> settles m c (onIncrement m c)"
  unfolding settles_def
  by (intro exI [of _ "c_validate_counter c"])
    (auto simp: onIncrement_def bridge_phase_def checksum_guard_def need_resync_def
      resetBook_def accept_step_def applyIncrementUpdate_def outdated_def gap_def Let_def)

lemma steady_settles:
  assumes "c_state c = Synced" and "\<not> outdated m c"
  shows "settles m c (onIncrement m c)"
proof (cases "last_seq m = 0 \<and> c_checksum_fn c = None \<or> gap m c \<and> \<not> c_allow_seq_gap c")
  case True
  with assms have "onIncrement m c = (NeedResync, resetBook c)"
    by (auto simp: onIncrement_def steady_phase_def need_resync_def outdated_def gap_def)
  then show ?thesis unfolding settles_def by (intro exI [of _ "c_validate_counter c"]) (simp add: resetBook_def)
next
  case False
  with assms have "onIncrement m c = steady_guards m (accept_step m c)"
    by (auto simp: onIncrement_def steady_phase_def accept_step_synced outdated_def gap_def)
  moreover have "resetBook (accept_step m c) = resetBook c" "c_checksum_fn (accept_step m c) = c_checksum_fn c"
    by (auto simp: accept_step_def resetBook_def applyIncrementUpdate_def Let_def)
  ultimately show ?thesis using steady_guards_cases [of m "accept_step m c"] False unfolding settles_def by auto
qed

lemma onIncrement_outcome:
  obtains (ignored) "onIncrement m c = (NoAction, c)" "c_state c = WaitingSnapshot \<or> outdated m c"
  | (resync) k where "onIncrement m c = (NeedResync, (resetBook c)\<lparr>c_validate_counter := k\<rparr>)"
      "c_state c \<noteq> WaitingSnapshot" "\<not> outdated m c"
  | (accepted) k where "onIncrement m c = (NoAction, (accept_step m c)\<lparr>c_validate_counter := k\<rparr>)"
      "c_state c \<noteq> WaitingSnapshot" "\<not> outdated m c" "gap m c \<longrightarrow> c_allow_seq_gap c"
      "\<not> crossed (c_book (accept_step m c))"
      "c_checksum_fn c = None \<or> validateChecksum (accept_step m c) (inc_checksum m) \<and> inc_checksum m \<noteq> 0"
proof -
  consider "c_state c = WaitingSnapshot \<or> outdated m c" | "c_state c \<noteq> WaitingSnapshot" "\<not> outdated m c" by blast
  then show thesis
  proof cases
    case 1
    then have "onIncrement m c = (NoAction, c)"
      by (cases "c_state c") (auto simp: onIncrement_def bridge_phase_def steady_phase_def outdated_def)
    then show thesis using 1 by (rule ignored)
  next
    case 2
    then have "settles m c (onIncrement m c)" using bridge_settles steady_settles by (cases "c_state c") auto
    then show thesis unfolding settles_def using resync accepted 2 by blast
  qed
qed


section \<open>Invariant and reachable controllers\<close>

definition ctl_inv :: "controller \<Rightarrow> bool" where
  "ctl_inv c \<longleftrightarrow> book_inv (c_book c) \<and> 0 < ob_depth (c_book c) \<and>
     (if c_state c = WaitingSnapshot
      then ob_bids (c_book c) = [] \<and> ob_asks (c_book c) = [] \<and> c_last_seq c = 0 \<and> c_expected_seq c = 0
      else c_expected_seq c = c_last_seq c + 1)"

inductive ctl_reachable :: "controller \<Rightarrow> bool" where
  new: "new_OrderBookController depth = Inr c \<Longrightarrow> ctl_reachable c"
| checksum: "ctl_reachable c \<Longrightarrow> ctl_reachable (configureChecksum fn n c)"
| gap_mode: "ctl_reachable c \<Longrightarrow> ctl_reachable (setAllowSequenceGap a c)"
| period: "ctl_reachable c \<Longrightarrow> ctl_reachable (setValidatePeriod n c)"
| has: "ctl_reachable c \<Longrightarrow> ctl_reachable (setHasChecksum h c)"
| require: "ctl_reachable c \<Longrightarrow> ctl_reachable (setRequireChecksum r c)"
| reset: "ctl_reachable c \<Longrightarrow> ctl_reachable (resetBook c)"
| snapshot: "ctl_reachable c \<Longrightarrow> ctl_reachable (snd (onSnapshot m kind c))"
| increment: "ctl_reachable c \<Longrightarrow> ctl_reachable (snd (onIncrement i c))"

lemmas config_defs = configureChecksum_def setAllowSequenceGap_def setValidatePeriod_def
  setHasChecksum_def setRequireChecksum_def

lemma book_inv_apply: "book_inv (c_book c) \<Longrightarrow> book_inv (c_book (applyIncrementUpdate m c))"
  by (simp add: applyIncrementUpdate_def ob.inv_fold)

lemma book_inv_load: "book_inv b \<Longrightarrow> book_inv (load_snapshot m b)"
  by (simp add: load_snapshot_def ob.inv_fold)

lemma accept_step_fields [simp]:
  "c_state (accept_step m c) = Synced"
  "c_book (accept_step m c) = c_book (applyIncrementUpdate m c)"
  "c_allow_seq_gap (accept_step m c) = c_allow_seq_gap c"
  "c_checksum_fn (accept_step m c) = c_checksum_fn c"
  "c_last_seq (accept_step m c) = (if last_seq m \<noteq> 0 then last_seq m else c_last_seq c)"
  "c_expected_seq (accept_step m c) = (if last_seq m \<noteq> 0 then last_seq m + 1 else c_expected_seq c)"
  by (auto simp: accept_step_def applyIncrementUpdate_def Let_def)

lemma depth_apply [simp]: "ob_depth (c_book (applyIncrementUpdate m c)) = ob_depth (c_book c)"
  by (simp add: applyIncrementUpdate_def)

lemma depth_load [simp]: "ob_depth (load_snapshot m b) = ob_depth b"
  by (simp add: load_snapshot_def)

lemma ctl_inv_counter [simp]: "ctl_inv (c\<lparr>c_validate_counter := k\<rparr>) = ctl_inv c"
  by (simp add: ctl_inv_def)

lemma ctl_inv_reset: "0 < ob_depth (c_book c) \<Longrightarrow> ctl_inv (resetBook c)"
  by (simp add: ctl_inv_def resetBook_def clear_book_def book_inv_def side_ok_def)

lemma ctl_inv_accept: "ctl_inv c \<Longrightarrow> c_state c \<noteq> WaitingSnapshot \<Longrightarrow> ctl_inv (accept_step m c)"
  by (simp add: ctl_inv_def book_inv_apply)

lemma ctl_inv_increment: "ctl_inv c \<Longrightarrow> ctl_inv (snd (onIncrement m c))"
  by (rule onIncrement_outcome [of m c])
    (simp_all add: ctl_inv_accept ctl_inv_reset ctl_inv_def [of c])

lemma onSnapshot_outcome:
  obtains (accepted) "onSnapshot m kind c = (NoAction,
      c\<lparr>c_book := load_snapshot m (clear_book (c_book c)),
        c_state := (if kind = WsAuthoritativeBaseline then Synced else WaitingBridge),
        c_last_seq := lastUpdateId m, c_expected_seq := lastUpdateId m + 1\<rparr>)"
  | (rejected) "onSnapshot m kind c = (NeedResync, resetBook c)" "c_checksum_fn c \<noteq> None"
      "snap_checksum m \<noteq> 0"
proof -
  let ?A = "c\<lparr>c_book := load_snapshot m (clear_book (c_book c)),
        c_state := (if kind = WsAuthoritativeBaseline then Synced else WaitingBridge),
        c_last_seq := lastUpdateId m, c_expected_seq := lastUpdateId m + 1\<rparr>"
  have "clear_book (load_snapshot m (clear_book b)) = clear_book b" for b
    by (simp add: load_snapshot_def) (simp add: clear_book_def)
  then have "onSnapshot m kind c = (NoAction, ?A) \<or>
      onSnapshot m kind c = (NeedResync, resetBook c) \<and> c_checksum_fn c \<noteq> None \<and> snap_checksum m \<noteq> 0"
    by (cases c) (auto simp: onSnapshot_def need_resync_def resetBook_def Let_def)
  then show thesis using accepted rejected by blast
qed

lemma ctl_inv_depth: "ctl_inv c \<Longrightarrow> 0 < ob_depth (c_book c)"
  by (simp add: ctl_inv_def)

lemma ctl_inv_load:
  "0 < ob_depth (c_book c) \<Longrightarrow> s \<noteq> WaitingSnapshot \<Longrightarrow>
    ctl_inv (c\<lparr>c_book := load_snapshot m (clear_book (c_book c)), c_state := s,
      c_last_seq := n, c_expected_seq := n + 1\<rparr>)"
  by (simp add: ctl_inv_def book_inv_load)

lemma ctl_inv_snapshot: "ctl_inv c \<Longrightarrow> ctl_inv (snd (onSnapshot m kind c))"
  by (rule onSnapshot_outcome [of m kind c])
    (simp_all add: ctl_inv_reset ctl_inv_depth ctl_inv_load)

lemma ctl_inv_config:
  "ctl_inv (configureChecksum fn n c) = ctl_inv c" "ctl_inv (setAllowSequenceGap a c) = ctl_inv c"
  "ctl_inv (setValidatePeriod n c) = ctl_inv c" "ctl_inv (setHasChecksum h c) = ctl_inv c"
  "ctl_inv (setRequireChecksum h c) = ctl_inv c"
  by (simp_all add: ctl_inv_def config_defs)

lemma ctl_inv_new: "new_OrderBookController d = Inr c \<Longrightarrow> ctl_inv c"
  by (auto simp: new_OrderBookController_def ctl_inv_def new_OrderBook_def book_inv_def side_ok_def
      split: sum.splits if_splits)

lemma reachable_ctl_inv: "ctl_reachable c \<Longrightarrow> ctl_inv c"
proof (induction rule: ctl_reachable.induct)
  case (new depth c)
  then show ?case by (rule ctl_inv_new)
next
  case (reset c)
  then show ?case by (intro ctl_inv_reset ctl_inv_depth)
qed (simp_all add: ctl_inv_config ctl_inv_snapshot ctl_inv_increment)

text \<open>C10: Invariant of every reachable controller, by induction over the operations: the book is
  valid, a controller that waits for a snapshot holds an empty book and no sequence number, and
  otherwise the expected sequence number is the successor of the last applied one.\<close>

theorem controller_invariant:
  assumes "ctl_reachable c"
  shows "ctl_inv c"
  using assms by (rule reachable_ctl_inv)

theorem controller_invariant_witness:
  "ctl_inv (snd (onSnapshot
     \<lparr>lastUpdateId = 7, snap_ts_recv_ns = 0, snap_checksum = 0,
      snap_bids = [Level 100 5 ''1.00'' ''0.005''], snap_asks = []\<rparr> WsAuthoritativeBaseline
     \<lparr>c_book = \<lparr>ob_depth = 5, ob_bids = [], ob_asks = []\<rparr>, c_state = WaitingSnapshot,
      c_last_seq = 0, c_expected_seq = 0, c_checksum_fn = None, c_checksum_topN = 25,
      c_allow_seq_gap = False, c_validate_period = 0, c_validate_counter = 0,
      c_has_checksum = False, c_require_checksum = False\<rparr>))"
  by (rule controller_invariant, rule ctl_reachable.snapshot, rule ctl_reachable.new [of 5])
    (simp add: new_OrderBookController_def new_OrderBook_def)


section \<open>Continuity of the applied stream\<close>

text \<open>A run of incrementals that ends, with \<open>None\<close>, at the first resync request.\<close>

fun inc_run :: "GenericIncrementalFormat list \<Rightarrow> controller \<Rightarrow> controller option" where
  "inc_run [] c = Some c"
| "inc_run (m # ms) c =
     (case onIncrement m c of (NoAction, c') \<Rightarrow> inc_run ms c' | (NeedResync, _) \<Rightarrow> None)"

definition covers :: "GenericIncrementalFormat \<Rightarrow> u64 \<Rightarrow> bool" where
  "covers m n \<longleftrightarrow> first_seq m \<le> n \<and> n \<le> last_seq m"

lemma accepted_covers:
  assumes "\<not> outdated m c" and "\<not> gap m c" and "last_seq m \<noteq> 0"
    and "c_expected_seq c = c_last_seq c + 1" and "c_last_seq c < n" and "n \<le> last_seq m"
  shows "covers m n"
proof -
  have "first_seq m \<le> c_last_seq c + 1" using assms(1-4) by (auto simp: outdated_def gap_def)
  also have "\<dots> \<le> n" using assms(5) by (rule inc_le)
  finally show ?thesis using assms(6) by (simp add: covers_def)
qed

lemma inc_run_covers:
  assumes "inc_run ms c = Some c'" and "ctl_inv c" and "c_state c \<noteq> WaitingSnapshot"
    and "\<not> c_allow_seq_gap c" and "\<forall>m \<in> set ms. last_seq m \<noteq> 0"
    and "c_last_seq c < n" and "n \<le> c_last_seq c'"
  shows "\<exists>m \<in> set ms. covers m n"
  using assms
proof (induction ms arbitrary: c)
  case (Cons m ms)
  show ?case
  proof (cases rule: onIncrement_outcome [of m c])
    case ignored
    with Cons show ?thesis by auto
  next
    case (resync k)
    with Cons.prems(1) show ?thesis by simp
  next
    case (accepted k)
    let ?c = "(accept_step m c)\<lparr>c_validate_counter := k\<rparr>"
    have run: "inc_run ms ?c = Some c'" using accepted(1) Cons.prems(1) by simp
    have inv: "ctl_inv ?c" using Cons.prems accepted(2) by (simp add: ctl_inv_accept)
    show ?thesis
    proof (cases "n \<le> last_seq m")
      case True
      have "covers m n"
        using accepted Cons.prems True
        by (intro accepted_covers [of m c]) (auto simp: ctl_inv_def)
      then show ?thesis by simp
    next
      case False
      have "\<exists>m \<in> set ms. covers m n"
        using run inv Cons.prems False by (intro Cons.IH [of ?c]) auto
      then show ?thesis by simp
    qed
  qed
qed auto

text \<open>C2: No update is lost in strict mode. When sequence gaps are not tolerated, a run of
  sequenced incrementals that raises no resync has, for every sequence number after the starting
  point up to the last applied one, a message whose range \<open>[first_seq, last_seq]\<close> covers it.\<close>

theorem strict_stream_has_no_gap:
  assumes "ctl_reachable c" and "c_state c \<noteq> WaitingSnapshot" and "\<not> c_allow_seq_gap c"
    and "\<forall>m \<in> set ms. last_seq m \<noteq> 0" and "inc_run ms c = Some c'"
    and "c_last_seq c < n" and "n \<le> c_last_seq c'"
  shows "\<exists>m \<in> set ms. covers m n"
  using assms reachable_ctl_inv by (intro inc_run_covers [of ms c c']) auto

text \<open>A controller that has loaded an empty REST snapshot with sequence number 10.\<close>

definition bridge_at_10 :: controller where
  "bridge_at_10 =
     \<lparr>c_book = \<lparr>ob_depth = 5, ob_bids = [], ob_asks = []\<rparr>, c_state = WaitingBridge,
      c_last_seq = 10, c_expected_seq = 11, c_checksum_fn = None, c_checksum_topN = 25,
      c_allow_seq_gap = False, c_validate_period = 0, c_validate_counter = 0,
      c_has_checksum = False, c_require_checksum = False\<rparr>"

definition inc_msg :: "u64 \<Rightarrow> u64 \<Rightarrow> level list \<Rightarrow> level list \<Rightarrow> GenericIncrementalFormat" where
  "inc_msg f l b a = incremental_reset\<lparr>first_seq := f, last_seq := l, inc_bids := b, inc_asks := a\<rparr>"

lemma bridge_at_10_reachable: "ctl_reachable bridge_at_10"
proof -
  let ?c = "\<lparr>c_book = \<lparr>ob_depth = 5, ob_bids = [], ob_asks = []\<rparr>, c_state = WaitingSnapshot,
      c_last_seq = 0, c_expected_seq = 0, c_checksum_fn = None, c_checksum_topN = 25,
      c_allow_seq_gap = False, c_validate_period = 0, c_validate_counter = 0,
      c_has_checksum = False, c_require_checksum = False\<rparr>"
  have "ctl_reachable ?c"
    by (rule ctl_reachable.new [of 5]) (simp add: new_OrderBookController_def new_OrderBook_def)
  then have "ctl_reachable (snd (onSnapshot (snapshot_reset\<lparr>lastUpdateId := 10\<rparr>) RestAnchoredBaseline ?c))"
    by (rule ctl_reachable.snapshot)
  moreover have "snd (onSnapshot (snapshot_reset\<lparr>lastUpdateId := 10\<rparr>) RestAnchoredBaseline ?c) = bridge_at_10"
    by (simp add: onSnapshot_def snapshot_reset_def resetBook_def load_snapshot_def clear_book_def
        sort_bids_def sort_asks_def bridge_at_10_def Let_def)
  ultimately show ?thesis by simp
qed

lemmas inc_eval = onIncrement_def bridge_phase_def steady_phase_def steady_guards_def
  steady_checksums_def checksum_guard_def applyIncrementUpdate_def inc_msg_def incremental_reset_def
  bridge_at_10_def crossed_def best_bid_def best_ask_def empty_level_def need_resync_def resetBook_def

theorem strict_stream_has_no_gap_witness:
  "\<exists>m \<in> set [inc_msg 9 12 [] [], inc_msg 13 15 [] []]. covers m 14"
proof (rule strict_stream_has_no_gap [OF bridge_at_10_reachable])
  show "inc_run [inc_msg 9 12 [] [], inc_msg 13 15 [] []] bridge_at_10
      = Some (bridge_at_10\<lparr>c_state := Synced, c_last_seq := 15, c_expected_seq := 16\<rparr>)"
    by (simp add: inc_eval)
qed (simp_all add: bridge_at_10_def inc_msg_def incremental_reset_def)


section \<open>Loading a snapshot\<close>

lemma update_vec_worst:
  assumes "sorted_wrt (better S) (map priceTick (vec @ [l]))" and "length vec \<le> d"
  shows "update_vec d S l vec = take d (vec @ [l])"
proof -
  have ahead: "\<forall>x \<in> set vec. better S (priceTick x) (priceTick l)"
    using assms(1) by (simp add: sorted_wrt_append)
  then have "priceTick l \<notin> priceTick ` set vec" using tick.irrefl by fastforce
  then have eq: "update_vec d S l vec = take d (ahead S (priceTick l) vec @ l # behind S (priceTick l) vec)"
    using assms by (intro update_vec_absent) (auto simp: sorted_wrt_append)
  have "ahead S (priceTick l) vec = vec" "behind S (priceTick l) vec = []"
    using ahead by auto
  then show ?thesis unfolding eq by metis
qed

lemma fold_update_sorted:
  assumes "sorted_wrt (better S) (map priceTick ls)" and "\<forall>l \<in> set ls. \<not> isEmpty l"
    and "side_vec S b = []"
  shows "side_vec S (fold (update_level S) ls b) = take (ob_depth b) ls"
  using assms
proof (induction ls rule: rev_induct)
  case (snoc l ls)
  let ?d = "ob_depth b"
  have IH: "side_vec S (fold (update_level S) ls b) = take ?d ls"
    using snoc by (simp add: sorted_wrt_append)
  have "sorted_wrt (better S) (map priceTick (take ?d ls @ [l]))"
    using snoc.prems(1) sorted_wrt_take [of "better S" "map priceTick ls" ?d] set_take_subset [of ?d ls]
    by (auto simp: sorted_wrt_append take_map)
  then have "update_vec ?d S l (take ?d ls) = take ?d (take ?d ls @ [l])"
    by (intro update_vec_worst) simp_all
  also have "\<dots> = take ?d (ls @ [l])" by (cases "length ls < ?d") auto
  finally show ?case using snoc.prems(2) IH by (simp add: update_level_def [of S l])
qed simp

lemma sort_bids_best_first:
  assumes "distinct (map priceTick ls)"
  shows "sorted_wrt (better BID) (map priceTick (sort_bids ls))"
proof -
  have "sorted (map (\<lambda>l. - priceTick l) (sort_bids ls))"
    unfolding sort_bids_def by (rule sorted_sort_key)
  moreover have "distinct (map (\<lambda>l. - priceTick l) (sort_bids ls))"
    using assms by (simp add: sort_bids_def distinct_map inj_on_def)
  ultimately have "sorted_wrt (<) (map (\<lambda>l. - priceTick l) (sort_bids ls))"
    by (simp add: strict_sorted_iff)
  then show ?thesis by (simp add: sorted_wrt_map)
qed

lemma sort_asks_best_first:
  assumes "distinct (map priceTick ls)"
  shows "sorted_wrt (better ASK) (map priceTick (sort_asks ls))"
proof -
  have "sorted (map priceTick (sort_asks ls))"
    unfolding sort_asks_def by (rule sorted_sort_key)
  moreover have "distinct (map priceTick (sort_asks ls))"
    using assms by (simp add: sort_asks_def distinct_map)
  ultimately have "sorted_wrt (<) (map priceTick (sort_asks ls))"
    by (simp add: strict_sorted_iff)
  then show ?thesis by (simp add: sorted_wrt_map)
qed

abbreviation live_levels :: "level list \<Rightarrow> level list" where
  "live_levels ls \<equiv> filter (\<lambda>l. \<not> quantityLot l = 0) ls"

lemma load_snapshot_views:
  assumes "distinct (map priceTick (snap_bids m))" and "distinct (map priceTick (snap_asks m))"
  shows "ob_bids (load_snapshot m (clear_book b)) = take (ob_depth b) (sort_bids (live_levels (snap_bids m)))"
    and "ob_asks (load_snapshot m (clear_book b)) = take (ob_depth b) (sort_asks (live_levels (snap_asks m)))"
proof -
  let ?bids = "sort_bids (live_levels (snap_bids m))" and ?asks = "sort_asks (live_levels (snap_asks m))"
  let ?b = "fold (update_level BID) ?bids (clear_book b)"
  have d: "ob_depth (clear_book b) = ob_depth b" by (simp add: clear_book_def)
  have live: "\<forall>l \<in> set ?bids. \<not> isEmpty l" "\<forall>l \<in> set ?asks. \<not> isEmpty l"
    by (auto simp: sort_bids_def sort_asks_def isEmpty_def)
  have "side_vec BID ?b = take (ob_depth b) ?bids"
    using fold_update_sorted [of BID ?bids "clear_book b"] live d assms ob.view_clr
    by (simp add: sort_bids_best_first distinct_map_filter)
  moreover have "side_vec BID (fold (update_level ASK) ?asks ?b) = side_vec BID ?b"
    by (rule ob.view_fold_other) simp
  ultimately show "ob_bids (load_snapshot m (clear_book b)) = take (ob_depth b) ?bids"
    by (simp add: load_snapshot_def)
  have "side_vec ASK ?b = []"
    using ob.view_fold_other [of ASK BID ?bids "clear_book b"] ob.view_clr by simp
  then have "side_vec ASK (fold (update_level ASK) ?asks ?b) = take (ob_depth b) ?asks"
    using fold_update_sorted [of ASK ?asks ?b] live d assms
    by (simp add: sort_asks_best_first distinct_map_filter)
  then show "ob_asks (load_snapshot m (clear_book b)) = take (ob_depth b) ?asks"
    by (simp add: load_snapshot_def)
qed

text \<open>C12: A snapshot is loaded exactly. When the ticks of each side are distinct and no checksum
  function is configured, the snapshot is accepted whatever the controller held before, the book
  holds the best \<open>depth\<close> non-empty levels of each side, bids in descending and asks in
  ascending price order, and the sequence number of the snapshot becomes the last applied one.\<close>

theorem snapshot_loads_best_levels:
  assumes "distinct (map priceTick (snap_bids m))" and "distinct (map priceTick (snap_asks m))"
    and "c_checksum_fn c = None"
  shows "\<exists>c'. onSnapshot m kind c = (NoAction, c') \<and>
    ob_bids (c_book c') = take (ob_depth (c_book c)) (sort_bids (live_levels (snap_bids m))) \<and>
    ob_asks (c_book c') = take (ob_depth (c_book c)) (sort_asks (live_levels (snap_asks m))) \<and>
    c_last_seq c' = lastUpdateId m \<and> isSynced c' = (kind = WsAuthoritativeBaseline)"
  using assms(3) load_snapshot_views [OF assms(1,2), of "c_book c"]
  by (cases rule: onSnapshot_outcome [of m kind c]) (auto simp: isSynced_def)

theorem snapshot_loads_best_levels_witness:
  "\<exists>c'. onSnapshot \<lparr>lastUpdateId = 7, snap_ts_recv_ns = 0, snap_checksum = 0,
      snap_bids = [Level 99 0 '''' '''', Level 98 2 '''' '''', Level 100 5 '''' ''''],
      snap_asks = [Level 103 1 '''' '''', Level 101 4 '''' '''']\<rparr> RestAnchoredBaseline bridge_at_10
      = (NoAction, c') \<and>
    ob_bids (c_book c') = [Level 100 5 '''' '''', Level 98 2 '''' ''''] \<and>
    ob_asks (c_book c') = [Level 101 4 '''' '''', Level 103 1 '''' ''''] \<and>
    c_last_seq c' = 7 \<and> isSynced c' = False"
  using snapshot_loads_best_levels [of "\<lparr>lastUpdateId = 7, snap_ts_recv_ns = 0, snap_checksum = 0,
      snap_bids = [Level 99 0 '''' '''', Level 98 2 '''' '''', Level 100 5 '''' ''''],
      snap_asks = [Level 103 1 '''' '''', Level 101 4 '''' '''']\<rparr>" bridge_at_10 RestAnchoredBaseline]
  by (simp add: bridge_at_10_def sort_bids_def sort_asks_def)

section \<open>The guards after an incremental\<close>

text \<open>C11: The result of an incremental that is not too old, on a controller that has a baseline. A
  resync leaves a controller that waits for a snapshot with an empty book and no sequence number;
  otherwise the controller is synced, exactly the incremental's levels have been applied, the book
  is not crossed, and a configured checksum function has accepted the resulting book.\<close>

theorem incremental_applied_or_reset:
  assumes "c_state c \<noteq> WaitingSnapshot" and "\<not> outdated m c"
  shows "case onIncrement m c of
      (NeedResync, c') \<Rightarrow> c_state c' = WaitingSnapshot \<and> c_book c' = clear_book (c_book c) \<and>
        c_last_seq c' = 0 \<and> c_expected_seq c' = 0
    | (NoAction, c') \<Rightarrow> isSynced c' \<and> c_book c' = c_book (applyIncrementUpdate m c) \<and>
        \<not> crossed (c_book c') \<and>
        (\<forall>f. c_checksum_fn c = Some f \<longrightarrow> f (c_book c') (inc_checksum m) (c_checksum_topN c))"
proof (cases rule: onIncrement_outcome [of m c])
  case ignored
  with assms show ?thesis by auto
next
  case (resync k)
  then show ?thesis by (simp add: resetBook_def)
next
  case (accepted k)
  moreover have "c_checksum_topN (accept_step m c) = c_checksum_topN c"
    by (simp add: accept_step_def applyIncrementUpdate_def Let_def)
  ultimately show ?thesis by (auto simp: isSynced_def validateChecksum_def)
qed

theorem incremental_applied_or_reset_witness:
  "c_state (snd (onIncrement (inc_msg 11 11 [Level 101 1 '''' ''''] [Level 100 1 '''' '''']) bridge_at_10))
     = WaitingSnapshot"
  using incremental_applied_or_reset
    [of bridge_at_10 "inc_msg 11 11 [Level 101 1 '''' ''''] [Level 100 1 '''' '''']"]
  by (simp add: inc_eval outdated_def update_level_def update_vec_def find_pos_def lower_bound_def
      lower_bound_loop.simps insert_at_def isEmpty_def Let_def clear_book_def)

abbreviation with_validation :: "nat \<Rightarrow> nat \<Rightarrow> controller \<Rightarrow> controller" where
  "with_validation n k c \<equiv> c\<lparr>c_validate_period := n, c_validate_counter := k\<rparr>"

lemma steady_checksums_validation:
  "steady_checksums m (with_validation n k c) = map_prod id (with_validation n k) (steady_checksums m c)"
  by (simp add: steady_checksums_def checksum_guard_def need_resync_def resetBook_def
      validateChecksum_def split: option.split)

lemma with_validation_self:
  "c\<lparr>c_validate_counter := k\<rparr> = with_validation (c_validate_period c) k (c\<lparr>c_validate_period := 0\<rparr>)"
  "c = with_validation (c_validate_period c) (c_validate_counter c) (c\<lparr>c_validate_period := 0\<rparr>)"
  by simp_all

lemma steady_guards_validation:
  assumes "book_inv (c_book c)"
  shows "\<exists>k. steady_guards m c
    = map_prod id (with_validation (c_validate_period c) k) (steady_guards m (c\<lparr>c_validate_period := 0\<rparr>))"
proof (cases "crossed (c_book c)")
  case True
  then show ?thesis
    by (intro exI [of _ "c_validate_counter c"]) (simp add: steady_guards_def need_resync_def resetBook_def)
next
  case False
  have "\<exists>k. steady_guards m c = steady_checksums m (c\<lparr>c_validate_counter := k\<rparr>)"
    using False assms
    by (auto simp: steady_guards_def validate_iff Let_def intro: exI [of _ "c_validate_counter c"])
  then obtain k where "steady_guards m c = steady_checksums m (c\<lparr>c_validate_counter := k\<rparr>)" ..
  also have "\<dots> = map_prod id (with_validation (c_validate_period c) k)
      (steady_checksums m (c\<lparr>c_validate_period := 0\<rparr>))"
    by (subst with_validation_self(1)) (rule steady_checksums_validation)
  also have "steady_checksums m (c\<lparr>c_validate_period := 0\<rparr>) = steady_guards m (c\<lparr>c_validate_period := 0\<rparr>)"
    using False by (simp add: steady_guards_def)
  finally show ?thesis by blast
qed

lemma applyIncrementUpdate_period:
  "applyIncrementUpdate m (c\<lparr>c_validate_period := n\<rparr>) = (applyIncrementUpdate m c)\<lparr>c_validate_period := n\<rparr>"
  "c_validate_period (applyIncrementUpdate m c) = c_validate_period c"
  by (simp_all add: applyIncrementUpdate_def)

lemma bridge_phase_validation:
  "bridge_phase m c
    = map_prod id (with_validation (c_validate_period c) (c_validate_counter c))
        (bridge_phase m (c\<lparr>c_validate_period := 0\<rparr>))"
  by (simp add: bridge_phase_def checksum_guard_def need_resync_def resetBook_def
      applyIncrementUpdate_def validateChecksum_def Let_def split: option.split)

lemma steady_phase_validation:
  assumes "book_inv (c_book c)"
  shows "\<exists>k. steady_phase m c
    = map_prod id (with_validation (c_validate_period c) k) (steady_phase m (c\<lparr>c_validate_period := 0\<rparr>))"
proof (cases "last_seq m \<noteq> 0 \<and> (last_seq m < c_expected_seq c \<or> first_seq m > c_expected_seq c \<and> \<not> c_allow_seq_gap c)")
  case True
  then show ?thesis
    by (intro exI [of _ "c_validate_counter c"]) (auto simp: steady_phase_def need_resync_def resetBook_def)
next
  case False
  let ?c = "if last_seq m \<noteq> 0 then (applyIncrementUpdate m c)\<lparr>c_last_seq := last_seq m,
    c_expected_seq := last_seq m + 1\<rparr> else applyIncrementUpdate m c"
  have "steady_phase m c = steady_guards m ?c"
    and "steady_phase m (c\<lparr>c_validate_period := 0\<rparr>) = steady_guards m (?c\<lparr>c_validate_period := 0\<rparr>)"
    using False by (cases c; auto simp: steady_phase_def applyIncrementUpdate_def)+
  moreover have "c_validate_period ?c = c_validate_period c" "book_inv (c_book ?c)"
    using assms by (simp_all add: applyIncrementUpdate_period book_inv_apply)
  ultimately show ?thesis using steady_guards_validation [of ?c m] by simp
qed

text \<open>The periodic self-check never fires. On a reachable controller an incremental has the
  same action, and leaves the same book, state and sequence numbers, as it does with the periodic
  validation disabled: only the two validation counters can differ.\<close>

theorem periodic_validation_never_fires:
  assumes "ctl_reachable c"
  shows "\<exists>k. onIncrement m c
    = map_prod id (\<lambda>c'. c'\<lparr>c_validate_period := c_validate_period c, c_validate_counter := k\<rparr>)
        (onIncrement m (setValidatePeriod 0 c))"
proof -
  have inv: "book_inv (c_book c)" using reachable_ctl_inv [OF assms] by (simp add: ctl_inv_def)
  show ?thesis
  proof (cases "c_state c = Synced \<and> \<not> (last_seq m = 0 \<and> c_checksum_fn c = None)")
    case True
    then show ?thesis
      using steady_phase_validation [OF inv, of m] by (auto simp: onIncrement_def setValidatePeriod_def)
  next
    case False
    then show ?thesis
      using bridge_phase_validation [of m c]
      by (intro exI [of _ "c_validate_counter c"], cases "c_state c")
        (auto simp: onIncrement_def setValidatePeriod_def need_resync_def resetBook_def)
  qed
qed

theorem periodic_validation_never_fires_witness:
  "\<exists>k. onIncrement (inc_msg 11 12 [] []) (setValidatePeriod 1 bridge_at_10)
    = map_prod id (\<lambda>c'. c'\<lparr>c_validate_period := 1, c_validate_counter := k\<rparr>)
        (onIncrement (inc_msg 11 12 [] []) (setValidatePeriod 0 bridge_at_10))"
  using periodic_validation_never_fires
    [OF ctl_reachable.period [OF bridge_at_10_reachable], of "inc_msg 11 12 [] []" 1]
  by (simp add: setValidatePeriod_def)


section \<open>The controller as an interface\<close>

text \<open>What the brain and the feed handlers ask of a controller, and what they may rely on.\<close>

datatype ctl_cmd = CSnapshot GenericSnapshotFormat BaselineKind | CIncrement GenericIncrementalFormat | CReset

fun ctl_exec :: "ctl_cmd \<Rightarrow> controller \<Rightarrow> controller" where
  "ctl_exec (CSnapshot m kind) c = snd (onSnapshot m kind c)"
| "ctl_exec (CIncrement m) c = snd (onIncrement m c)"
| "ctl_exec CReset c = resetBook c"

locale book_controller =
  fixes inv :: "'c \<Rightarrow> bool"
    and exec :: "ctl_cmd \<Rightarrow> 'c \<Rightarrow> 'c"
    and book :: "'c \<Rightarrow> order_book"
    and ready :: "'c \<Rightarrow> bool"
  assumes inv_exec: "inv c \<Longrightarrow> inv (exec cmd c)"
    and inv_book: "inv c \<Longrightarrow> book_inv (book c)"
    and depth_exec: "ob_depth (book (exec cmd c)) = ob_depth (book c)"
    and reset_empty: "side_vec S (book (exec CReset c)) = []"
    and reset_not_ready: "\<not> ready (exec CReset c)"
begin

lemma inv_run: "inv c \<Longrightarrow> inv (fold exec cmds c)"
  by (induction cmds arbitrary: c) (auto intro: inv_exec)

lemma run_validates: "inv c \<Longrightarrow> validate (book (fold exec cmds c))"
  by (simp add: validate_iff inv_book inv_run)

lemma depth_run: "ob_depth (book (fold exec cmds c)) = ob_depth (book c)"
  by (induction cmds arbitrary: c) (auto simp: depth_exec)

end

lemma depth_reset [simp]: "ob_depth (c_book (resetBook c)) = ob_depth (c_book c)"
  by (simp add: resetBook_def clear_book_def)

lemma depth_onIncrement [simp]: "ob_depth (c_book (snd (onIncrement m c))) = ob_depth (c_book c)"
  by (rule onIncrement_outcome [of m c]) simp_all

lemma depth_onSnapshot [simp]: "ob_depth (c_book (snd (onSnapshot m k c))) = ob_depth (c_book c)"
  by (rule onSnapshot_outcome [of m k c]) (simp_all add: clear_book_def)

lemma ctl_reachable_exec: "ctl_reachable c \<Longrightarrow> ctl_reachable (ctl_exec cmd c)"
  by (cases cmd) (auto intro: ctl_reachable.intros)

interpretation ctl: book_controller ctl_reachable ctl_exec c_book isSynced
proof
  show "book_inv (c_book c)" if "ctl_reachable c" for c
    using reachable_ctl_inv [OF that] by (simp add: ctl_inv_def)
  show "ob_depth (c_book (ctl_exec cmd c)) = ob_depth (c_book c)" for cmd c
    by (cases cmd) auto
  show "side_vec S (c_book (ctl_exec CReset c)) = []" for S c
    by (cases S) (simp_all add: resetBook_def clear_book_def)
  show "\<not> isSynced (ctl_exec CReset c)" for c
    by (simp add: isSynced_def resetBook_def)
qed (rule ctl_reachable_exec)

text \<open>The configuration of a controller is not changed by the commands.\<close>

lemma exec_config:
  "c_allow_seq_gap (ctl_exec cmd c) = c_allow_seq_gap c \<and> c_checksum_fn (ctl_exec cmd c) = c_checksum_fn c"
proof (cases cmd)
  case (CSnapshot m k)
  then show ?thesis by (cases rule: onSnapshot_outcome [of m k c]) (simp_all add: resetBook_def)
next
  case (CIncrement m)
  then show ?thesis by (cases rule: onIncrement_outcome [of m c]) (simp_all add: resetBook_def)
qed (simp add: resetBook_def)

end
