(* ===== verification/Double.thy ===== *)
theory Double
  imports Complex_Main Zida_Prelude
begin

text \<open>
  The C++ type \<^verbatim>\<open>double\<close> as the brain and the execution engine use it: IEEE 754 binary64 with
  rounding to nearest, ties to even. A finite double is the rational it denotes; every arithmetic
  result is computed exactly and rounded by \<open>rnd\<close>, with gradual underflow and with overflow to
  the infinities. The two zeros are identified, which no comparison or cast of the program can
  observe. The main lemma is that rounding is monotone.
\<close>

section \<open>Rounding\<close>

function blen :: "int \<Rightarrow> int" where
  "blen n = (if n \<le> 0 then 0 else 1 + blen (n div 2))"
  by pat_completeness auto

termination blen
  by (relation "measure nat") auto

declare blen.simps [simp del]

definition pow2 :: "int \<Rightarrow> rat" where
  "pow2 e = (if e \<ge> 0 then 2 ^ nat e else 1 / 2 ^ nat (- e))"

definition flog2 :: "rat \<Rightarrow> int" where
  "flog2 x = (let (p, d) = quotient_of x; e = blen p - blen d
              in if pow2 e \<le> x then e else e - 1)"

definition rne :: "rat \<Rightarrow> int" where
  "rne x = (let f = \<lfloor>x\<rfloor>; r = x - of_int f
            in if r < 1 / 2 then f else if r > 1 / 2 then f + 1 else if even f then f else f + 1)"

definition ulp_exp :: "rat \<Rightarrow> int" where
  "ulp_exp x = max (- 1074) (flog2 x - 52)"

definition rnd_pos :: "rat \<Rightarrow> rat" where
  "rnd_pos x = (let u = pow2 (ulp_exp x) in of_int (rne (x / u)) * u)"

section \<open>The type and its operations\<close>

datatype double = Fin rat | PInf | NInf | NaN

definition of_rounded :: "rat \<Rightarrow> double" where
  "of_rounded m = (if m \<ge> 2 ^ 1024 then PInf else if m \<le> - (2 ^ 1024) then NInf else Fin m)"

definition rnd :: "rat \<Rightarrow> double" where
  "rnd x = of_rounded (if x = 0 then 0 else if x > 0 then rnd_pos x else - rnd_pos (- x))"

definition inf_of :: "rat \<Rightarrow> double" where
  "inf_of s = (if s > 0 then PInf else if s < 0 then NInf else NaN)"

fun dneg :: "double \<Rightarrow> double" where
  "dneg (Fin a) = Fin (- a)"
| "dneg PInf = NInf"
| "dneg NInf = PInf"
| "dneg NaN = NaN"

fun dadd :: "double \<Rightarrow> double \<Rightarrow> double" where
  "dadd (Fin a) (Fin b) = rnd (a + b)"
| "dadd NaN _ = NaN"
| "dadd _ NaN = NaN"
| "dadd PInf NInf = NaN"
| "dadd NInf PInf = NaN"
| "dadd PInf _ = PInf"
| "dadd _ PInf = PInf"
| "dadd NInf _ = NInf"
| "dadd _ NInf = NInf"

fun dsgn :: "double \<Rightarrow> rat" where
  "dsgn (Fin a) = sgn a"
| "dsgn PInf = 1"
| "dsgn NInf = - 1"
| "dsgn NaN = 0"

fun dmul :: "double \<Rightarrow> double \<Rightarrow> double" where
  "dmul (Fin a) (Fin b) = rnd (a * b)"
| "dmul NaN _ = NaN"
| "dmul _ NaN = NaN"
| "dmul x y = inf_of (dsgn x * dsgn y)"

fun ddiv :: "double \<Rightarrow> double \<Rightarrow> double" where
  "ddiv (Fin a) (Fin b) = (if b = 0 then inf_of a else rnd (a / b))"
| "ddiv NaN _ = NaN"
| "ddiv _ NaN = NaN"
| "ddiv (Fin _) _ = Fin 0"
| "ddiv x (Fin b) = inf_of (dsgn x * (if b < 0 then - 1 else 1))"
| "ddiv _ _ = NaN"

fun dabs :: "double \<Rightarrow> double" where
  "dabs (Fin a) = Fin \<bar>a\<bar>"
| "dabs PInf = PInf"
| "dabs NInf = PInf"
| "dabs NaN = NaN"

fun dle :: "double \<Rightarrow> double \<Rightarrow> bool" where
  "dle (Fin a) (Fin b) = (a \<le> b)"
| "dle NaN _ = False"
| "dle _ NaN = False"
| "dle NInf _ = True"
| "dle _ PInf = True"
| "dle _ _ = False"

fun dlt :: "double \<Rightarrow> double \<Rightarrow> bool" where
  "dlt (Fin a) (Fin b) = (a < b)"
| "dlt NaN _ = False"
| "dlt _ NaN = False"
| "dlt PInf _ = False"
| "dlt _ NInf = False"
| "dlt _ _ = True"

instantiation double :: "{plus, minus, uminus, times, inverse, ord, zero, abs}"
begin

definition plus_double :: "double \<Rightarrow> double \<Rightarrow> double" where
  "plus_double = dadd"

definition uminus_double :: "double \<Rightarrow> double" where
  "uminus_double = dneg"

definition minus_double :: "double \<Rightarrow> double \<Rightarrow> double" where
  "minus_double x y = dadd x (dneg y)"

definition times_double :: "double \<Rightarrow> double \<Rightarrow> double" where
  "times_double = dmul"

definition divide_double :: "double \<Rightarrow> double \<Rightarrow> double" where
  "divide_double = ddiv"

definition inverse_double :: "double \<Rightarrow> double" where
  "inverse_double x = ddiv (Fin 1) x"

definition less_eq_double :: "double \<Rightarrow> double \<Rightarrow> bool" where
  "less_eq_double = dle"

definition less_double :: "double \<Rightarrow> double \<Rightarrow> bool" where
  "less_double = dlt"

definition zero_double :: double where
  "zero_double = Fin 0"

definition abs_double :: "double \<Rightarrow> double" where
  "abs_double = dabs"

instance ..

end

lemmas double_ops = plus_double_def uminus_double_def minus_double_def times_double_def
  divide_double_def less_eq_double_def less_double_def zero_double_def abs_double_def

text \<open>\<^verbatim>\<open>static_cast<double>\<close> of a 64-bit integer, and the truncating cast to \<^verbatim>\<open>size_t\<close> (whose result C++
  leaves undefined outside the range of the target).\<close>

definition of_i64 :: "int \<Rightarrow> double" where
  "of_i64 n = rnd (of_int n)"

fun to_size :: "double \<Rightarrow> nat" where
  "to_size (Fin a) = nat \<lfloor>a\<rfloor>"
| "to_size _ = 0"

fun is_nan :: "double \<Rightarrow> bool" where
  "is_nan NaN = True"
| "is_nan _ = False"

section \<open>Rounding is monotone\<close>

lemma pow2_powi: "pow2 e = 2 powi e"
  by (simp add: pow2_def power_int_def inverse_eq_divide power_one_over)

lemma pow2_pos [simp]: "0 < pow2 e" "pow2 e \<noteq> 0" "0 \<le> pow2 e"
  by (simp_all add: pow2_def)

lemma pow2_add: "pow2 (a + b) = pow2 a * pow2 b"
  by (simp add: pow2_powi power_int_add)

lemma pow2_mono: "a \<le> b \<Longrightarrow> pow2 a \<le> pow2 b"
  by (simp add: pow2_powi power_int_increasing)

lemma pow2_less_iff: "pow2 a < pow2 b \<longleftrightarrow> a < b"
proof
  show "a < b" if "pow2 a < pow2 b" using that pow2_mono [of b a] by linarith
  show "pow2 a < pow2 b" if "a < b"
    unfolding pow2_powi using that by (intro power_int_strict_increasing) auto
qed

lemma pow2_nat: "0 \<le> e \<Longrightarrow> pow2 e = 2 ^ nat e"
  by (simp add: pow2_def)

lemma blen_bounds:
  "0 < n \<Longrightarrow> 0 < blen n \<and> pow2 (blen n - 1) \<le> of_int n \<and> of_int n < pow2 (blen n)"
proof (induction n rule: blen.induct)
  case (1 n)
  show ?case
  proof (cases "n div 2 = 0")
    case True
    with 1(2) have "n = 1" by linarith
    then show ?thesis by (simp add: blen.simps pow2_def)
  next
    case False
    with 1 have IH: "0 < blen (n div 2)" "pow2 (blen (n div 2) - 1) \<le> of_int (n div 2)"
        "of_int (n div 2) < pow2 (blen (n div 2))" by (auto simp: pos_imp_zdiv_pos_iff)
    have b: "blen n = 1 + blen (n div 2)" using 1(2) by (simp add: blen.simps [of n])
    have lo: "pow2 (blen n - 1) = 2 * pow2 (blen (n div 2) - 1)"
      and hi: "pow2 (blen n) = 2 * pow2 (blen (n div 2))"
      using pow2_add [of 1 "blen (n div 2) - 1"] pow2_add [of 1 "blen (n div 2)"]
      by (simp_all add: b pow2_def [of 1])
    have "n = 2 * (n div 2) + n mod 2" by simp
    then have n: "(of_int n :: rat) = 2 * of_int (n div 2) + of_int (n mod 2)"
      by (metis of_int_add of_int_mult of_int_numeral)
    obtain k where k: "pow2 (blen (n div 2)) = of_int k"
      using IH(1) pow2_nat [of "blen (n div 2)"] by (metis less_imp_le of_int_numeral of_int_power)
    with IH(3) have "n div 2 + 1 \<le> k" by simp
    then have "of_int (n div 2) + 1 \<le> (of_int k :: rat)" by (metis of_int_1 of_int_add of_int_le_iff)
    then have "2 * of_int (n div 2) + 1 < (2 * of_int k :: rat)" by linarith
    moreover have "(of_int (n mod 2) :: rat) \<le> 1" "0 \<le> (of_int (n mod 2) :: rat)" by simp_all
    ultimately show ?thesis using IH b lo hi n k by linarith
  qed
qed

lemma flog2_bounds:
  assumes "0 < x"
  shows "pow2 (flog2 x) \<le> x" and "x < pow2 (flog2 x + 1)"
proof -
  obtain p d where q: "quotient_of x = (p, d)" by (cases "quotient_of x")
  then have d: "0 < d" and x: "x = of_int p / of_int d"
    by (simp_all add: quotient_of_denom_pos quotient_of_div)
  with assms have p: "0 < p" by (simp add: zero_less_divide_iff)
  let ?e = "blen p - blen d"
  have bp: "pow2 (blen p - 1) \<le> of_int p" "of_int p < pow2 (blen p)"
    and bd: "pow2 (blen d - 1) \<le> of_int d" "of_int d < pow2 (blen d)"
    using blen_bounds p d by auto
  have "pow2 (?e - 1) * of_int d < pow2 (?e - 1) * pow2 (blen d)"
    using bd by simp
  also have "\<dots> = pow2 (blen p - 1)" by (simp add: pow2_add [symmetric])
  finally have lo: "pow2 (?e - 1) \<le> x" using bp(1) d by (simp add: x pos_le_divide_eq)
  have "pow2 (blen p) = pow2 (?e + 1) * pow2 (blen d - 1)" by (simp add: pow2_add [symmetric])
  also have "\<dots> \<le> pow2 (?e + 1) * of_int d" using bd by simp
  finally have hi: "x < pow2 (?e + 1)" using bp(2) d by (simp add: x pos_divide_less_eq)
  show "pow2 (flog2 x) \<le> x" "x < pow2 (flog2 x + 1)"
    using lo hi q by (auto simp: flog2_def Let_def)
qed

lemma flog2_mono:
  assumes "0 < x" and "x \<le> y"
  shows "flog2 x \<le> flog2 y"
proof -
  have "pow2 (flog2 x) < pow2 (flog2 y + 1)"
    using flog2_bounds(1) [of x] flog2_bounds(2) [of y] assms by linarith
  then show ?thesis by (simp add: pow2_less_iff)
qed

lemma rne_of_int [simp]: "rne (of_int n) = n"
  by (simp add: rne_def)

lemma rne_error: "\<bar>of_int (rne x) - x\<bar> \<le> 1 / 2"
proof -
  have "of_int \<lfloor>x\<rfloor> \<le> x" "x \<le> of_int \<lfloor>x\<rfloor> + 1" using floor_correct [of x] by auto
  then show ?thesis by (simp add: rne_def Let_def abs_le_iff)
qed

lemma rne_mono:
  assumes "x \<le> y"
  shows "rne x \<le> rne y"
proof (cases "\<lfloor>x\<rfloor> = \<lfloor>y\<rfloor>")
  case True
  with assms show ?thesis by (auto simp: rne_def Let_def)
next
  case False
  with assms have "\<lfloor>x\<rfloor> + 1 \<le> \<lfloor>y\<rfloor>" using floor_mono [of x y] by linarith
  moreover have "rne x \<le> \<lfloor>x\<rfloor> + 1" "\<lfloor>y\<rfloor> \<le> rne y" by (auto simp: rne_def Let_def)
  ultimately show ?thesis by linarith
qed

lemma scaled_below: "0 < x \<Longrightarrow> x / pow2 (ulp_exp x) \<le> 2 ^ 53"
proof -
  assume "0 < x"
  then have "x < pow2 (flog2 x + 1)" by (rule flog2_bounds)
  also have "\<dots> \<le> pow2 (53 + ulp_exp x)" by (intro pow2_mono) (simp add: ulp_exp_def)
  also have "\<dots> = 2 ^ 53 * pow2 (ulp_exp x)" unfolding pow2_add by (simp add: pow2_def [of 53])
  finally show ?thesis by (simp add: pos_divide_le_eq)
qed

lemma scaled_above: "0 < x \<Longrightarrow> - 1074 < ulp_exp x \<Longrightarrow> 2 ^ 52 \<le> x / pow2 (ulp_exp x)"
proof -
  assume "0 < x" and "- 1074 < ulp_exp x"
  then have "pow2 (52 + ulp_exp x) \<le> x"
    using flog2_bounds(1) [of x] by (auto simp: ulp_exp_def)
  then show ?thesis unfolding pow2_add by (simp add: pow2_def [of 52] pos_le_divide_eq)
qed

lemma rnd_pos_mono:
  assumes "0 < x" and "x \<le> y"
  shows "rnd_pos x \<le> rnd_pos y"
proof (cases "ulp_exp x = ulp_exp y")
  case True
  with assms show ?thesis
    by (simp add: rnd_pos_def Let_def mult_right_mono rne_mono divide_right_mono)
next
  case False
  with assms have less: "ulp_exp x + 1 \<le> ulp_exp y" and norm: "- 1074 < ulp_exp y"
    using flog2_mono [OF assms] by (auto simp: ulp_exp_def)
  have "rne (x / pow2 (ulp_exp x)) \<le> rne (of_int (2 ^ 53))"
    using scaled_below [OF assms(1)] by (intro rne_mono) simp
  then have "(of_int (rne (x / pow2 (ulp_exp x))) :: rat) \<le> of_int (2 ^ 53)"
    by (simp only: rne_of_int of_int_le_iff)
  then have "rnd_pos x \<le> 2 ^ 53 * pow2 (ulp_exp x)"
    unfolding rnd_pos_def Let_def by (intro mult_right_mono) simp_all
  also have "\<dots> = 2 ^ 52 * pow2 (ulp_exp x + 1)" by (simp add: pow2_add pow2_def [of 1])
  also have "\<dots> \<le> 2 ^ 52 * pow2 (ulp_exp y)" using pow2_mono [OF less] by simp
  also have "\<dots> \<le> rnd_pos y"
  proof -
    have "rne (of_int (2 ^ 52)) \<le> rne (y / pow2 (ulp_exp y))"
      using scaled_above [of y] norm assms by (intro rne_mono) simp
    then have "(of_int (2 ^ 52) :: rat) \<le> of_int (rne (y / pow2 (ulp_exp y)))"
      by (simp only: rne_of_int of_int_le_iff)
    then show ?thesis unfolding rnd_pos_def Let_def by (intro mult_right_mono) simp_all
  qed
  finally show ?thesis .
qed

lemma rnd_pos_nonneg: "0 < x \<Longrightarrow> 0 \<le> rnd_pos x"
  using rne_mono [of 0 "x / pow2 (ulp_exp x)"] rne_of_int [of 0]
  by (simp add: rnd_pos_def Let_def)

lemma of_rounded_mono: "a \<le> b \<Longrightarrow> of_rounded a \<le> of_rounded b"
  by (auto simp: of_rounded_def double_ops)

lemma rnd_mono: "x \<le> y \<Longrightarrow> rnd x \<le> rnd y"
  unfolding rnd_def
  using rnd_pos_mono [of x y] rnd_pos_mono [of "- y" "- x"] rnd_pos_nonneg [of y] rnd_pos_nonneg [of "- x"]
  by (intro of_rounded_mono) auto

lemma rnd_not_nan [simp]: "rnd x \<noteq> NaN"
  by (simp add: rnd_def of_rounded_def)


section \<open>Exact and almost exact results\<close>

lemma rnd_pos_exact:
  assumes "0 < m" and "m < 2 ^ 53" and "- 1074 \<le> e"
  shows "rnd_pos (of_int m * pow2 e) = of_int m * pow2 e"
proof -
  let ?x = "of_int m * pow2 e"
  have pos: "0 < ?x" using assms(1) by simp
  have "(of_int m :: rat) < of_int (2 ^ 53)" using assms(2) by (simp only: of_int_less_iff)
  then have "(of_int m :: rat) < pow2 53" by (simp add: pow2_def)
  then have "?x < pow2 (53 + e)" unfolding pow2_add by simp
  then have "pow2 (flog2 ?x) < pow2 (53 + e)" using flog2_bounds(1) [OF pos] by linarith
  then have le: "ulp_exp ?x \<le> e" using assms(3) by (simp add: pow2_less_iff ulp_exp_def)
  let ?u = "ulp_exp ?x"
  have "?x = of_int m * (pow2 (e - ?u) * pow2 ?u)" by (simp add: pow2_add [symmetric])
  then have "?x / pow2 ?u = of_int (m * 2 ^ nat (e - ?u))"
    using le by (simp add: pow2_nat field_simps)
  then have "rne (?x / pow2 ?u) = m * 2 ^ nat (e - ?u)" by (simp only: rne_of_int)
  then show ?thesis using le by (simp add: rnd_pos_def Let_def pow2_nat [symmetric] mult.assoc pow2_add [symmetric])
qed

lemma of_i64_exact:
  assumes "\<bar>n\<bar> < 2 ^ 53"
  shows "of_i64 n = Fin (of_int n)"
proof -
  have r: "rnd_pos (of_int k) = of_int k" if "0 < k" "k < 2 ^ 53" for k
    using rnd_pos_exact [OF that, of 0] by (simp add: pow2_def)
  have "(2 :: int) ^ 53 < 2 ^ 1024" by simp
  with assms have "\<bar>n\<bar> < 2 ^ 1024" by linarith
  then have "(of_int \<bar>n\<bar> :: rat) < of_int (2 ^ 1024)" by (simp only: of_int_less_iff)
  then have "\<bar>of_int n :: rat\<bar> < 2 ^ 1024" by (simp only: of_int_abs of_int_power of_int_numeral)
  then have "of_rounded (of_int n) = Fin (of_int n)"
    unfolding of_rounded_def abs_less_iff by (metis linorder_not_le minus_less_iff)
  moreover have "rnd (of_int n) = of_rounded (of_int n)"
    using r [of n] r [of "- n"] assms by (auto simp: rnd_def)
  ultimately show ?thesis by (simp add: of_i64_def)
qed

text \<open>The relative error of one rounding in the normal range.\<close>

lemma rnd_pos_error:
  assumes "pow2 (- 1022) \<le> x"
  shows "\<bar>rnd_pos x - x\<bar> \<le> x * pow2 (- 53)"
proof -
  let ?u = "pow2 (ulp_exp x)"
  have pos: "0 < x" using assms pow2_pos(1) [of "- 1022"] by linarith
  have "pow2 (- 1022) < pow2 (flog2 x + 1)" using flog2_bounds(2) [OF pos] assms by linarith
  then have "ulp_exp x = flog2 x - 52" by (simp add: pow2_less_iff ulp_exp_def)
  then have "?u / 2 = pow2 (flog2 x) * pow2 (- 53)"
    by (simp add: pow2_add [symmetric] pow2_powi power_int_diff)
  also have "\<dots> \<le> x * pow2 (- 53)" using flog2_bounds(1) [OF pos] by simp
  finally have u: "?u / 2 \<le> x * pow2 (- 53)" .
  have "rnd_pos x - x = (of_int (rne (x / ?u)) - x / ?u) * ?u"
    by (simp add: rnd_pos_def Let_def left_diff_distrib)
  then have "\<bar>rnd_pos x - x\<bar> = \<bar>of_int (rne (x / ?u)) - x / ?u\<bar> * ?u"
    by (simp add: abs_mult)
  also have "\<dots> \<le> 1 / 2 * ?u" using rne_error by (intro mult_right_mono) simp_all
  finally show ?thesis using u by simp
qed

lemma of_i64_mono: "a \<le> b \<Longrightarrow> of_i64 a \<le> of_i64 b"
  by (simp add: of_i64_def rnd_mono)

lemma of_i64_not_nan [simp]: "of_i64 n \<noteq> NaN"
  by (simp add: of_i64_def)


lemma rnd_simps:
  "numeral k < (2 :: int) ^ 53 \<Longrightarrow> rnd (numeral k) = Fin (numeral k)"
  "numeral k < (2 :: int) ^ 53 \<Longrightarrow> of_i64 (numeral k) = Fin (numeral k)"
  "rnd 0 = Fin 0" "rnd 1 = Fin 1" "of_i64 0 = Fin 0" "of_i64 1 = Fin 1" "rnd (1 / 2) = Fin (1 / 2)"
proof -
  show "numeral k < (2 :: int) ^ 53 \<Longrightarrow> of_i64 (numeral k) = Fin (numeral k)"
    using of_i64_exact [of "numeral k"] by simp
  then show "numeral k < (2 :: int) ^ 53 \<Longrightarrow> rnd (numeral k) = Fin (numeral k)"
    by (simp add: of_i64_def)
  show "of_i64 0 = Fin 0" "of_i64 1 = Fin 1" using of_i64_exact [of 0] of_i64_exact [of 1] by simp_all
  then show "rnd 0 = Fin 0" "rnd 1 = Fin 1" by (simp_all add: of_i64_def)
  show "rnd (1 / 2) = Fin (1 / 2)" by code_simp
qed


section \<open>Rounded results stay put and grow\<close>

lemma rnd_pos_form:
  assumes "0 < x"
  obtains m e where "rnd_pos x = of_int m * pow2 e" and "0 \<le> m" and "m < 2 ^ 53" and "- 1074 \<le> e"
proof -
  let ?u = "ulp_exp x" and ?m = "rne (x / pow2 (ulp_exp x))"
  have u: "- 1074 \<le> ?u" by (simp add: ulp_exp_def)
  have "rne (x / pow2 ?u) \<le> rne (of_int (2 ^ 53))" using scaled_below [OF assms] by (intro rne_mono) simp
  then have le: "?m \<le> 2 ^ 53" by (simp only: rne_of_int)
  have ge: "0 \<le> ?m" using rne_mono [of 0 "x / pow2 ?u"] rne_of_int [of 0] assms by simp
  have eq: "rnd_pos x = of_int ?m * pow2 ?u" by (simp add: rnd_pos_def Let_def)
  show thesis
  proof (cases "?m = 2 ^ 53")
    case True
    have "(of_int (2 ^ 53) :: rat) * pow2 ?u = of_int (2 ^ 52) * pow2 (?u + 1)"
      by (simp add: pow2_add pow2_def [of 1])
    then show thesis using eq True u by (intro that [of "2 ^ 52" "?u + 1"]) simp_all
  next
    case False
    then show thesis using eq le ge u by (intro that [of ?m ?u]) simp_all
  qed
qed

lemma rnd_pos_idem: "0 < x \<Longrightarrow> rnd_pos x = 0 \<or> rnd_pos (rnd_pos x) = rnd_pos x"
proof -
  assume "0 < x"
  then obtain m e where f: "rnd_pos x = of_int m * pow2 e" "0 \<le> m" "m < 2 ^ 53" "- 1074 \<le> e"
    by (rule rnd_pos_form)
  show ?thesis
  proof (cases "m = 0")
    case False
    then show ?thesis using rnd_pos_exact [of m e] f by simp
  qed (simp add: f(1))
qed

text \<open>The finite doubles: rationals that rounding leaves alone.\<close>

definition is_double :: "rat \<Rightarrow> bool" where
  "is_double x \<longleftrightarrow> rnd x = Fin x"

lemma rnd_is_double: "rnd x = Fin y \<Longrightarrow> is_double y"
proof -
  assume r: "rnd x = Fin y"
  then have y: "y = (if x = 0 then 0 else if x > 0 then rnd_pos x else - rnd_pos (- x))"
      "y < 2 ^ 1024" "- (2 ^ 1024) < y"
    by (auto simp: rnd_def of_rounded_def split: if_splits)
  have "(if y = 0 then 0 else if y > 0 then rnd_pos y else - rnd_pos (- y)) = y"
    using y(1) rnd_pos_idem [of x] rnd_pos_idem [of "- x"] rnd_pos_nonneg [of x] rnd_pos_nonneg [of "- x"]
    by (auto split: if_splits)
  then show ?thesis using y(2,3) unfolding is_double_def rnd_def of_rounded_def by simp
qed

text \<open>Adding a non-negative double to a finite one does not decrease it.\<close>

lemma dadd_increases:
  assumes "is_double a" and "Fin 0 \<le> b"
  shows "Fin a \<le> Fin a + b"
  using assms rnd_mono [of a "a + _"] by (cases b) (auto simp: double_ops is_double_def)

lemma dle_trans: "(x :: double) \<le> y \<Longrightarrow> y \<le> z \<Longrightarrow> x \<le> z"
  by (cases x; cases y; cases z) (auto simp: double_ops)

lemma dlt_le_trans: "(x :: double) < y \<Longrightarrow> y \<le> z \<Longrightarrow> x < z"
  by (cases x; cases y; cases z) (auto simp: double_ops)

lemma dle_iff_not_lt: "\<not> is_nan x \<Longrightarrow> \<not> is_nan y \<Longrightarrow> (x :: double) \<le> y \<longleftrightarrow> \<not> y < x"
  by (cases x; cases y) (auto simp: double_ops)

lemma dmul_nonneg: "Fin 0 \<le> Fin a \<Longrightarrow> Fin 0 \<le> Fin b \<Longrightarrow> Fin 0 \<le> Fin a * Fin b"
  using rnd_mono [of 0 "a * b"] by (simp add: double_ops rnd_simps)

lemma dmul_mono:
  assumes "Fin 0 \<le> Fin q" and "Fin a \<le> Fin b"
  shows "Fin q * Fin a \<le> Fin q * Fin b"
  using assms rnd_mono [of "q * a" "q * b"] by (simp add: double_ops mult_left_mono)


lemma dle_extremes: "x \<noteq> NaN \<Longrightarrow> dle x PInf" "x \<noteq> NaN \<Longrightarrow> dle NInf x"
  by (cases x; simp)+

text \<open>Rounding stays between two representable bounds.\<close>

lemma rnd_squeeze:
  assumes "a \<le> x" and "x \<le> b" and "rnd a = Fin a" and "rnd b = Fin b"
  obtains y where "rnd x = Fin y" and "a \<le> y" and "y \<le> b"
proof -
  have "Fin a \<le> rnd x" and "rnd x \<le> Fin b"
    using rnd_mono [OF assms(1)] rnd_mono [OF assms(2)] assms(3,4) by simp_all
  then show thesis using that by (cases "rnd x") (auto simp: double_ops)
qed


lemma rnd_quarter:
  assumes "0 < m" and "m < 2 ^ 53"
  shows "rnd (of_int m / 4) = Fin (of_int m / 4)"
proof -
  have p: "of_int m * pow2 (- 2) = (of_int m / 4 :: rat)" by (simp add: pow2_def)
  have "rnd_pos (of_int m * pow2 (- 2)) = of_int m * pow2 (- 2)" by (rule rnd_pos_exact [OF assms]) simp
  then have "rnd_pos (of_int m / 4) = of_int m / 4" unfolding p .
  moreover have "(of_int m :: rat) < of_int (2 ^ 53)" using assms(2) by (simp only: of_int_less_iff)
  ultimately show ?thesis using assms(1) by (simp add: rnd_def of_rounded_def)
qed

end
