(* ===== verification/Json.thy ===== *)
theory Json
  imports Double "HOL-Library.Countable"
begin

text \<open>
  The interface to \<^verbatim>\<open>nlohmann::json\<close>, a third-party library that is not part of the repository. The
  model is parametric in the type \<open>'j\<close> of JSON values and in a record of the library functions the
  code calls: an accessor that can throw returns an option, and \<open>None\<close> stands for the exception.
  What a round trip needs of the library is the predicate \<open>json_denotes\<close>: values denote trees, and
  the encoders keep the tree. \<open>tree_api\<close> is a concrete library that satisfies it, used by the
  witnesses. The numeric string conversions of the
  C++ standard library that the parsers call are defined here as well.
\<close>

section \<open>Library functions\<close>

text \<open>
  \<^item> \<open>j_parse\<close>, \<open>j_dump\<close>: \<^verbatim>\<open>json::parse\<close> (\<open>None\<close>: discarded, or the parse error), \<^verbatim>\<open>dump\<close>;
    \<open>j_to_msgpack\<close>, \<open>j_from_msgpack\<close>: the binary format;
  \<^item> \<open>j_find\<close>: the member of an object (\<open>None\<close> for a missing key or a value that is no object);
  \<^item> \<open>j_elems\<close>: the values a range-based \<^verbatim>\<open>for\<close> visits; \<open>j_size\<close>: \<^verbatim>\<open>size()\<close>;
  \<^item> \<open>j_u64\<close>, \<open>j_i64\<close>, \<open>j_int\<close>, \<open>j_str\<close>, \<open>j_dbl\<close>: \<^verbatim>\<open>get<T>()\<close> and \<^verbatim>\<open>get_ref\<close>;
  \<^item> \<open>mk_obj\<close>, \<open>mk_arr\<close>, \<open>mk_str\<close>, \<open>mk_u64\<close>, \<open>mk_i64\<close>, \<open>mk_dbl\<close>, \<open>mk_bool\<close>, \<open>mk_null\<close>: construction.
\<close>

record 'j json_api =
  j_parse :: "string \<Rightarrow> 'j option"
  j_dump :: "'j \<Rightarrow> string"
  j_from_msgpack :: "string \<Rightarrow> 'j option"
  j_to_msgpack :: "'j \<Rightarrow> string"
  j_is_object :: "'j \<Rightarrow> bool"
  j_is_array :: "'j \<Rightarrow> bool"
  j_is_string :: "'j \<Rightarrow> bool"
  j_is_integer :: "'j \<Rightarrow> bool"
  j_is_unsigned :: "'j \<Rightarrow> bool"
  j_is_null :: "'j \<Rightarrow> bool"
  j_find :: "'j \<Rightarrow> string \<Rightarrow> 'j option"
  j_elems :: "'j \<Rightarrow> 'j list"
  j_size :: "'j \<Rightarrow> nat"
  j_u64 :: "'j \<Rightarrow> u64 option"
  j_i64 :: "'j \<Rightarrow> i64 option"
  j_int :: "'j \<Rightarrow> int option"
  j_str :: "'j \<Rightarrow> string option"
  j_dbl :: "'j \<Rightarrow> double option"
  mk_obj :: "(string \<times> 'j) list \<Rightarrow> 'j"
  mk_arr :: "'j list \<Rightarrow> 'j"
  mk_str :: "string \<Rightarrow> 'j"
  mk_u64 :: "u64 \<Rightarrow> 'j"
  mk_i64 :: "i64 \<Rightarrow> 'j"
  mk_dbl :: "double \<Rightarrow> 'j"
  mk_bool :: "bool \<Rightarrow> 'j"
  mk_null :: "'j"

text \<open>\<^verbatim>\<open>j.contains(key)\<close>; \<^verbatim>\<open>j.value(key, default)\<close>, which throws on a value that is no object and on a
  member of the wrong type; \<^verbatim>\<open>j.at(key)\<close>, which throws on a missing member; \<^verbatim>\<open>v[i]\<close> on an array.\<close>

definition j_contains :: "'j json_api \<Rightarrow> 'j \<Rightarrow> string \<Rightarrow> bool" where
  "j_contains J j k \<longleftrightarrow> j_find J j k \<noteq> None"

definition j_value :: "'j json_api \<Rightarrow> ('j \<Rightarrow> 'a option) \<Rightarrow> 'j \<Rightarrow> string \<Rightarrow> 'a \<Rightarrow> 'a option" where
  "j_value J get j k d =
     (if \<not> j_is_object J j then None
      else case j_find J j k of None \<Rightarrow> Some d | Some v \<Rightarrow> get v)"

definition j_at :: "'j json_api \<Rightarrow> 'j \<Rightarrow> string \<Rightarrow> 'j option" where
  "j_at J j k = (if j_is_object J j then j_find J j k else None)"

definition j_idx :: "'j json_api \<Rightarrow> 'j \<Rightarrow> nat \<Rightarrow> 'j option" where
  "j_idx J j i = (if j_is_array J j \<and> i < length (j_elems J j) then Some (j_elems J j ! i) else None)"

section \<open>Documented behaviour\<close>

text \<open>A JSON value denotes a tree: whether an integer is stored signed or unsigned, and the order
  of the members of an object, are not part of it.\<close>

datatype jtree = TNull | TBool bool | TNum int | TFlt double | TStr string
  | TArr "jtree list" | TObj "(string \<times> jtree) list"

fun t_find :: "jtree \<Rightarrow> string \<Rightarrow> jtree option" where
  "t_find (TObj kvs) k = map_of kvs k"
| "t_find _ _ = None"

fun is_tobj :: "jtree \<Rightarrow> bool" where
  "is_tobj (TObj _) = True"
| "is_tobj _ = False"

text \<open>Values that survive the text format: finite floating point numbers and ASCII strings.\<close>

fun clean_string :: "string \<Rightarrow> bool" where
  "clean_string s = list_all (\<lambda>c. of_char c < (128 :: nat)) s"

fun clean :: "jtree \<Rightarrow> bool" where
  "clean (TFlt (Fin _)) = True"
| "clean (TFlt _) = False"
| "clean (TStr s) = clean_string s"
| "clean (TArr ts) = list_all clean ts"
| "clean (TObj kvs) = list_all (\<lambda>(k, t). clean_string k \<and> clean t) kvs"
| "clean _ = True"

definition json_denotes :: "'j json_api \<Rightarrow> ('j \<Rightarrow> jtree) \<Rightarrow> bool" where
  "json_denotes J den \<longleftrightarrow>
     (\<forall>j. j_is_object J j = is_tobj (den j)) \<and>
     (\<forall>j k. map_option den (j_find J j k) = t_find (den j) k) \<and>
     (\<forall>j ts. den j = TArr ts \<longrightarrow> j_is_array J j \<and> map den (j_elems J j) = ts) \<and>
     (\<forall>j s. den j = TStr s \<longrightarrow> j_str J j = Some s) \<and>
     (\<forall>j w. den j = TNum (uint w) \<longrightarrow> j_u64 J j = Some w) \<and>
     (\<forall>j n. den j = TNum n \<and> i64_ok n \<longrightarrow> j_i64 J j = Some n) \<and>
     (\<forall>j n. den j = TNum n \<and> - (2 ^ 31) \<le> n \<and> n < 2 ^ 31 \<longrightarrow> j_int J j = Some n) \<and>
     (\<forall>j x. den j = TFlt x \<longrightarrow> j_dbl J j = Some x) \<and>
     (\<forall>kvs. distinct (map fst kvs) \<longrightarrow> is_tobj (den (mk_obj J kvs)) \<and>
        (clean (den (mk_obj J kvs)) \<longleftrightarrow> clean (TObj (map (\<lambda>(k, v). (k, den v)) kvs))) \<and>
        (\<forall>k. t_find (den (mk_obj J kvs)) k = map_option den (map_of kvs k))) \<and>
     (\<forall>js. den (mk_arr J js) = TArr (map den js)) \<and>
     (\<forall>s. den (mk_str J s) = TStr s) \<and>
     (\<forall>n. den (mk_u64 J n) = TNum (uint n)) \<and>
     (\<forall>n. den (mk_i64 J n) = TNum n) \<and>
     (\<forall>x. den (mk_dbl J x) = TFlt x) \<and>
     (\<forall>b. den (mk_bool J b) = TBool b) \<and>
     den (mk_null J) = TNull \<and>
     (\<forall>j. \<exists>j'. j_from_msgpack J (j_to_msgpack J j) = Some j' \<and> den j' = den j) \<and>
     (\<forall>j. clean (den j) \<longrightarrow> (\<exists>j'. j_parse J (j_dump J j) = Some j' \<and> den j' = den j))"

section \<open>A concrete library\<close>

instance double :: countable
  by countable_datatype

instance jtree :: countable
  by countable_datatype

text \<open>Trees with an injective encoding as text, by the enumeration of the countable type.\<close>

definition tree_encode :: "jtree \<Rightarrow> string" where
  "tree_encode t = replicate (Suc (to_nat t)) (CHR ''#'')"

definition tree_decode :: "string \<Rightarrow> jtree option" where
  "tree_decode s = Some (from_nat (length s - 1))"

definition tree_api :: "jtree json_api" where
  "tree_api = \<lparr>
     j_parse = tree_decode, j_dump = tree_encode,
     j_from_msgpack = tree_decode, j_to_msgpack = tree_encode,
     j_is_object = is_tobj,
     j_is_array = (\<lambda>t. case t of TArr _ \<Rightarrow> True | _ \<Rightarrow> False),
     j_is_string = (\<lambda>t. case t of TStr _ \<Rightarrow> True | _ \<Rightarrow> False),
     j_is_integer = (\<lambda>t. case t of TNum _ \<Rightarrow> True | _ \<Rightarrow> False),
     j_is_unsigned = (\<lambda>t. case t of TNum n \<Rightarrow> 0 \<le> n | _ \<Rightarrow> False),
     j_is_null = (\<lambda>t. t = TNull),
     j_find = t_find,
     j_elems = (\<lambda>t. case t of TArr ts \<Rightarrow> ts | TObj kvs \<Rightarrow> map snd kvs | TNull \<Rightarrow> [] | _ \<Rightarrow> [t]),
     j_size = (\<lambda>t. case t of TArr ts \<Rightarrow> length ts | TObj kvs \<Rightarrow> length kvs | TNull \<Rightarrow> 0 | _ \<Rightarrow> 1),
     j_u64 = (\<lambda>t. case t of TNum n \<Rightarrow> Some (of_int n) | _ \<Rightarrow> None),
     j_i64 = (\<lambda>t. case t of TNum n \<Rightarrow> Some n | _ \<Rightarrow> None),
     j_int = (\<lambda>t. case t of TNum n \<Rightarrow> Some n | _ \<Rightarrow> None),
     j_str = (\<lambda>t. case t of TStr s \<Rightarrow> Some s | _ \<Rightarrow> None),
     j_dbl = (\<lambda>t. case t of TFlt x \<Rightarrow> Some x | TNum n \<Rightarrow> Some (of_i64 n) | _ \<Rightarrow> None),
     mk_obj = TObj, mk_arr = TArr, mk_str = TStr, mk_u64 = (\<lambda>n. TNum (uint n)), mk_i64 = TNum,
     mk_dbl = TFlt, mk_bool = TBool, mk_null = TNull\<rparr>"

lemma tree_api_sel [simp]:
  "j_is_object tree_api = is_tobj" "j_find tree_api = t_find"
  "j_is_array tree_api t = (case t of TArr _ \<Rightarrow> True | _ \<Rightarrow> False)"
  "j_is_string tree_api t = (case t of TStr _ \<Rightarrow> True | _ \<Rightarrow> False)"
  "j_is_integer tree_api t = (case t of TNum _ \<Rightarrow> True | _ \<Rightarrow> False)"
  "j_is_unsigned tree_api t = (case t of TNum n \<Rightarrow> 0 \<le> n | _ \<Rightarrow> False)"
  "j_elems tree_api t = (case t of TArr ts \<Rightarrow> ts | TObj kvs \<Rightarrow> map snd kvs | TNull \<Rightarrow> [] | _ \<Rightarrow> [t])"
  "j_size tree_api t = (case t of TArr ts \<Rightarrow> length ts | TObj kvs \<Rightarrow> length kvs | TNull \<Rightarrow> 0 | _ \<Rightarrow> 1)"
  "j_u64 tree_api t = (case t of TNum n \<Rightarrow> Some (of_int n) | _ \<Rightarrow> None)"
  "j_i64 tree_api t = (case t of TNum n \<Rightarrow> Some n | _ \<Rightarrow> None)"
  "j_int tree_api t = (case t of TNum n \<Rightarrow> Some n | _ \<Rightarrow> None)"
  "j_str tree_api t = (case t of TStr s \<Rightarrow> Some s | _ \<Rightarrow> None)"
  "j_dbl tree_api t = (case t of TFlt x \<Rightarrow> Some x | TNum n \<Rightarrow> Some (of_i64 n) | _ \<Rightarrow> None)"
  "mk_obj tree_api = TObj" "mk_arr tree_api = TArr" "mk_str tree_api = TStr"
  "mk_u64 tree_api n = TNum (uint n)" "mk_i64 tree_api = TNum" "mk_dbl tree_api = TFlt" "mk_bool tree_api = TBool"
  "mk_null tree_api = TNull"
  "j_parse tree_api = tree_decode" "j_dump tree_api = tree_encode"
  "j_from_msgpack tree_api = tree_decode" "j_to_msgpack tree_api = tree_encode"
  by (simp_all add: tree_api_def)

lemma tree_decode_encode [simp]: "tree_decode (tree_encode t) = Some t"
  by (simp add: tree_decode_def tree_encode_def)

lemma tree_api_denotes: "json_denotes tree_api id"
  by (simp add: json_denotes_def tree_api_def option.map_id)

section \<open>Reading back what was built\<close>

lemma den_find:
  assumes "json_denotes J den"
  shows "map_option den (j_find J j k) = t_find (den j) k"
  using assms by (simp add: json_denotes_def)

lemma den_object:
  assumes "json_denotes J den"
  shows "j_is_object J j = is_tobj (den j)"
  using assms by (simp add: json_denotes_def)

lemma den_obj:
  assumes "json_denotes J den" and "distinct (map fst kvs)"
  shows "is_tobj (den (mk_obj J kvs))" and "t_find (den (mk_obj J kvs)) k = map_option den (map_of kvs k)"
  using assms by (simp_all add: json_denotes_def)

lemma den_leaf:
  assumes "json_denotes J den"
  shows "den (mk_str J s) = TStr s" and "den (mk_u64 J n) = TNum (uint n)"
    and "den (mk_i64 J i) = TNum i" and "den (mk_dbl J x) = TFlt x"
    and "den (mk_arr J js) = TArr (map den js)" and "den (mk_bool J b) = TBool b"
    and "den (mk_null J) = TNull"
  using assms by (simp_all add: json_denotes_def)

lemma den_get:
  assumes "json_denotes J den"
  shows "den j = TStr s \<Longrightarrow> j_str J j = Some s"
    and "den j = TNum (uint w) \<Longrightarrow> j_u64 J j = Some (w :: u64)"
    and "den j = TNum n \<Longrightarrow> i64_ok n \<Longrightarrow> j_i64 J j = Some n"
    and "den j = TNum n \<Longrightarrow> - (2 ^ 31) \<le> n \<Longrightarrow> n < 2 ^ 31 \<Longrightarrow> j_int J j = Some n"
    and "den j = TFlt x \<Longrightarrow> j_dbl J j = Some x"
    and "den j = TArr ts \<Longrightarrow> j_is_array J j \<and> map den (j_elems J j) = ts"
  using assms by (simp_all add: json_denotes_def)

lemma den_value:
  assumes "json_denotes J den" and "is_tobj (den j)"
  shows "t_find (den j) k = None \<Longrightarrow> j_value J get j k d = Some d"
    and "t_find (den j) k = Some t \<Longrightarrow> (\<And>v. den v = t \<Longrightarrow> get v = Some x) \<Longrightarrow> j_value J get j k d = Some x"
    and "t_find (den j) k = Some t \<Longrightarrow> \<exists>v. j_at J j k = Some v \<and> den v = t"
  using den_find [OF assms(1), of j k] assms(2)
  by (auto simp: j_value_def j_at_def den_object [OF assms(1)] split: option.splits)

lemma den_msgpack:
  assumes "json_denotes J den"
  obtains j' where "j_from_msgpack J (j_to_msgpack J j) = Some j'" and "den j' = den j"
  using assms unfolding json_denotes_def by meson

lemma den_text:
  assumes "json_denotes J den" and "clean (den j)"
  obtains j' where "j_parse J (j_dump J j) = Some j'" and "den j' = den j"
  using assms unfolding json_denotes_def by meson

text \<open>A built object survives the text format when its members do.\<close>

lemma clean_built:
  assumes "json_denotes J den" and "distinct (map fst kvs)"
  shows "clean (den (mk_obj J kvs)) = list_all (\<lambda>(k, v). clean_string k \<and> clean (den v)) kvs"
  using assms by (auto simp: json_denotes_def list_all_iff simp del: clean_string.simps)

end
