(* ===== verification/UnifiedBook.thy ===== *)
theory UnifiedBook
  imports OrderBookController Json "HOL-Library.Monad_Syntax"
begin

text \<open>
  The brain's consolidated view: \<^verbatim>\<open>brain/include/brain/JsonParsers.hpp\<close>, which turns a published
  event into the normalized messages, and \<^verbatim>\<open>brain/include/brain/UnifiedBook.hpp\<close> with
  \<^verbatim>\<open>brain/src/brain/UnifiedBook.cpp\<close>, which keeps one controlled book per venue and symbol and
  routes every event to it. The JSON library is the parameter \<open>J\<close>; an exception is \<open>None\<close>; the
  system clock is the argument \<open>now\<close>. Log calls are left out.
\<close>

section \<open>Parsing events\<close>

record EventHeader =
  schema_version :: int
  event_type :: string
  venue :: string
  eh_symbol :: string

definition parse_header :: "'j json_api \<Rightarrow> 'j \<Rightarrow> EventHeader option" where
  "parse_header J j = do {
     sv \<leftarrow> j_value J (j_int J) j ''schema_version'' 0;
     if sv \<noteq> 1 then None else do {
       et \<leftarrow> j_value J (j_str J) j ''event_type'' '''';
       v \<leftarrow> j_value J (j_str J) j ''venue'' '''';
       s \<leftarrow> j_value J (j_str J) j ''symbol'' '''';
       Some \<lparr>schema_version = sv, event_type = et, venue = v, eh_symbol = s\<rparr>
     }
   }"

definition parse_level :: "'j json_api \<Rightarrow> 'j \<Rightarrow> level option" where
  "parse_level J lvl = do {
     t \<leftarrow> j_value J (j_i64 J) lvl ''priceTick'' 0;
     q \<leftarrow> j_value J (j_i64 J) lvl ''quantityLot'' 0;
     px \<leftarrow> j_value J (j_str J) lvl ''price'' '''';
     qt \<leftarrow> j_value J (j_str J) lvl ''quantity'' '''';
     if q < 0 then None
     else if q > 0 \<and> t \<le> 0 then None
     else Some (Level t q px qt)
   }"

definition parse_levels :: "'j json_api \<Rightarrow> 'j \<Rightarrow> level list option" where
  "parse_levels J arr =
     (if \<not> j_is_array J arr then Some [] else those (map (parse_level J) (j_elems J arr)))"

definition parse_snapshot :: "'j json_api \<Rightarrow> 'j \<Rightarrow> GenericSnapshotFormat option" where
  "parse_snapshot J j = do {
     n \<leftarrow> j_value J (j_u64 J) j ''seq_last'' 0;
     ts \<leftarrow> j_value J (j_i64 J) j ''ts_recv_ns'' 0;
     ck \<leftarrow> j_value J (j_i64 J) j ''checksum'' 0;
     jb \<leftarrow> j_at J j ''bids'';
     bids \<leftarrow> parse_levels J jb;
     ja \<leftarrow> j_at J j ''asks'';
     asks \<leftarrow> parse_levels J ja;
     Some \<lparr>lastUpdateId = n, snap_ts_recv_ns = ts, snap_checksum = ck, snap_bids = bids, snap_asks = asks\<rparr>
   }"

definition parse_incremental :: "'j json_api \<Rightarrow> 'j \<Rightarrow> GenericIncrementalFormat option" where
  "parse_incremental J j = do {
     f \<leftarrow> j_value J (j_u64 J) j ''seq_first'' 0;
     l \<leftarrow> j_value J (j_u64 J) j ''seq_last'' 0;
     p \<leftarrow> j_value J (j_u64 J) j ''prev_last'' 0;
     ts \<leftarrow> j_value J (j_i64 J) j ''ts_recv_ns'' 0;
     ck \<leftarrow> j_value J (j_i64 J) j ''checksum'' 0;
     jb \<leftarrow> j_at J j ''bids'';
     bids \<leftarrow> parse_levels J jb;
     ja \<leftarrow> j_at J j ''asks'';
     asks \<leftarrow> parse_levels J ja;
     Some \<lparr>first_seq = f, last_seq = l, prev_last = p, inc_ts_recv_ns = ts, inc_checksum = ck,
           inc_bids = bids, inc_asks = asks\<rparr>
   }"

definition parse_book_state_as_snapshot :: "'j json_api \<Rightarrow> 'j \<Rightarrow> GenericSnapshotFormat option" where
  "parse_book_state_as_snapshot J j = do {
     n \<leftarrow> j_value J (j_u64 J) j ''applied_seq'' 0;
     ts \<leftarrow> j_value J (j_i64 J) j ''ts_book_ns'' 0;
     jb \<leftarrow> j_at J j ''bids'';
     bids \<leftarrow> parse_levels J jb;
     ja \<leftarrow> j_at J j ''asks'';
     asks \<leftarrow> parse_levels J ja;
     Some \<lparr>lastUpdateId = n, snap_ts_recv_ns = ts, snap_checksum = 0, snap_bids = bids, snap_asks = asks\<rparr>
   }"

definition extract_ts_book_ns :: "'j json_api \<Rightarrow> 'j \<Rightarrow> i64 option" where
  "extract_ts_book_ns J j = j_value J (j_i64 J) j ''ts_book_ns'' 0"

section \<open>Venue books\<close>

record venue_book =
  venue_name :: string
  vb_symbol :: string
  vb_controller :: controller
  ts_book_ns :: i64
  feed_healthy :: bool

record unified_book =
  ub_depth :: nat
  ub_books :: "venue_book list"

definition kMaxFutureNs :: i64 where
  "kMaxFutureNs = 60 * 1000000000"

definition sanitize_ts :: "i64 \<Rightarrow> i64 \<Rightarrow> i64" where
  "sanitize_ts ts ts_now = (if ts > ts_now + kMaxFutureNs then ts_now else ts)"

definition new_VenueBook :: "string \<Rightarrow> string \<Rightarrow> nat \<Rightarrow> book_error + venue_book" where
  "new_VenueBook name symb depth =
     (case new_OrderBookController depth of Inl e \<Rightarrow> Inl e
      | Inr c \<Rightarrow> Inr \<lparr>venue_name = name, vb_symbol = symb, vb_controller = setAllowSequenceGap True c,
                      ts_book_ns = 0, feed_healthy = False\<rparr>)"

definition synced :: "venue_book \<Rightarrow> bool" where
  "synced vb \<longleftrightarrow> feed_healthy vb \<and> isSynced (vb_controller vb)"

definition vb_book :: "venue_book \<Rightarrow> order_book" where
  "vb_book vb = c_book (vb_controller vb)"

definition new_UnifiedBook :: "nat \<Rightarrow> unified_book" where
  "new_UnifiedBook depth = \<lparr>ub_depth = depth, ub_books = []\<rparr>"

text \<open>\<^verbatim>\<open>find_or_create_\<close>: the linear search gives the position of the entry, a new one is appended.\<close>

fun find_book :: "string \<Rightarrow> string \<Rightarrow> venue_book list \<Rightarrow> nat option" where
  "find_book v s [] = None"
| "find_book v s (vb # vbs) =
     (if venue_name vb = v \<and> vb_symbol vb = s then Some 0 else map_option Suc (find_book v s vbs))"

definition find_or_create :: "string \<Rightarrow> string \<Rightarrow> unified_book \<Rightarrow> book_error + (unified_book \<times> nat)" where
  "find_or_create v s ub =
     (case find_book v s (ub_books ub) of
        Some i \<Rightarrow> Inr (ub, i)
      | None \<Rightarrow>
          (case new_VenueBook v s (ub_depth ub) of Inl e \<Rightarrow> Inl e
           | Inr vb \<Rightarrow> Inr (ub\<lparr>ub_books := ub_books ub @ [vb]\<rparr>, length (ub_books ub))))"

definition synced_count :: "unified_book \<Rightarrow> nat" where
  "synced_count ub = length (filter synced (ub_books ub))"

section \<open>Event handling\<close>

text \<open>What the \<^verbatim>\<open>try\<close> block of \<open>on_event\<close> does to the venue's entry: it falls through, it returns
  the empty string on an unknown type, or it throws, which leaves the changes made so far.\<close>

datatype event_outcome = Handled | UnknownType | Threw

definition on_snapshot_event :: "'j json_api \<Rightarrow> i64 \<Rightarrow> 'j \<Rightarrow> venue_book \<Rightarrow> venue_book \<times> event_outcome" where
  "on_snapshot_event J now j vb =
     (case parse_snapshot J j of None \<Rightarrow> (vb, Threw)
      | Some snap \<Rightarrow>
          (let vb1 = vb\<lparr>ts_book_ns := sanitize_ts (snap_ts_recv_ns snap) now, feed_healthy := True\<rparr>;
               (act, c) = onSnapshot snap WsAuthoritativeBaseline (vb_controller vb1);
               vb2 = vb1\<lparr>vb_controller := c\<rparr>
           in (if act = NeedResync then vb2\<lparr>feed_healthy := False\<rparr> else vb2, Handled)))"

definition on_incremental_event :: "'j json_api \<Rightarrow> i64 \<Rightarrow> 'j \<Rightarrow> venue_book \<Rightarrow> venue_book \<times> event_outcome" where
  "on_incremental_event J now j vb =
     (case parse_incremental J j of None \<Rightarrow> (vb, Threw)
      | Some inc \<Rightarrow>
          (let vb1 = vb\<lparr>ts_book_ns := sanitize_ts (inc_ts_recv_ns inc) now, feed_healthy := True\<rparr>
           in (vb1\<lparr>vb_controller := snd (onIncrement inc (vb_controller vb1))\<rparr>, Handled)))"

definition on_book_state_event :: "'j json_api \<Rightarrow> i64 \<Rightarrow> 'j \<Rightarrow> venue_book \<Rightarrow> venue_book \<times> event_outcome" where
  "on_book_state_event J now j vb =
     (case extract_ts_book_ns J j of None \<Rightarrow> (vb, Threw)
      | Some ts \<Rightarrow>
          (let vb1 = vb\<lparr>ts_book_ns := sanitize_ts ts now, feed_healthy := True\<rparr>
           in case parse_book_state_as_snapshot J j of None \<Rightarrow> (vb1, Threw)
              | Some snap \<Rightarrow>
                  (vb1\<lparr>vb_controller := snd (onSnapshot snap WsAuthoritativeBaseline (vb_controller vb1))\<rparr>,
                   Handled)))"

definition on_status_event :: "'j json_api \<Rightarrow> 'j \<Rightarrow> venue_book \<Rightarrow> venue_book \<times> event_outcome" where
  "on_status_event J j vb =
     (case do { st \<leftarrow> j_value J (j_str J) j ''feed_state'' ''''; r \<leftarrow> j_value J (j_str J) j ''reason'' ''''; Some st } of
        None \<Rightarrow> (vb, Threw)
      | Some st \<Rightarrow>
          (if st = ''disconnected''
           then (vb\<lparr>feed_healthy := False, vb_controller := resetBook (vb_controller vb), ts_book_ns := 0\<rparr>, Handled)
           else (vb\<lparr>feed_healthy := False\<rparr>, Handled)))"

definition handle_event :: "'j json_api \<Rightarrow> i64 \<Rightarrow> string \<Rightarrow> 'j \<Rightarrow> venue_book \<Rightarrow> venue_book \<times> event_outcome" where
  "handle_event J now et j vb =
     (if et = ''snapshot'' then on_snapshot_event J now j vb
      else if et = ''incremental'' then on_incremental_event J now j vb
      else if et = ''book_state'' then on_book_state_event J now j vb
      else if et = ''status'' then on_status_event J j vb
      else (vb, UnknownType))"

definition on_event :: "'j json_api \<Rightarrow> i64 \<Rightarrow> 'j \<Rightarrow> unified_book \<Rightarrow> book_error + (string \<times> unified_book)" where
  "on_event J now j ub =
     (case parse_header J j of None \<Rightarrow> Inr ('''', ub)
      | Some hdr \<Rightarrow>
          (if venue hdr = '''' \<or> event_type hdr = '''' then Inr ('''', ub)
           else case find_or_create (venue hdr) (eh_symbol hdr) ub of Inl e \<Rightarrow> Inl e
             | Inr (ub1, i) \<Rightarrow>
                 (let (vb, outcome) = handle_event J now (event_type hdr) j (ub_books ub1 ! i);
                      ub2 = ub1\<lparr>ub_books := (ub_books ub1)[i := vb]\<rparr>
                  in Inr (if outcome = Handled then venue hdr else '''', ub2))))"

lemmas event_defs = on_snapshot_event_def on_incremental_event_def on_book_state_event_def
  on_status_event_def handle_event_def Let_def

section \<open>Runs and the invariant\<close>

fun run_events :: "'j json_api \<Rightarrow> (i64 \<times> 'j) list \<Rightarrow> unified_book \<Rightarrow> book_error + unified_book" where
  "run_events J [] ub = Inr ub"
| "run_events J ((now, j) # evs) ub =
     (case on_event J now j ub of Inl e \<Rightarrow> Inl e | Inr (_, ub') \<Rightarrow> run_events J evs ub')"

abbreviation vb_key :: "venue_book \<Rightarrow> string \<times> string" where
  "vb_key vb \<equiv> (venue_name vb, vb_symbol vb)"

definition lookup_book :: "string \<Rightarrow> string \<Rightarrow> unified_book \<Rightarrow> venue_book option" where
  "lookup_book v s ub = map_of (map (\<lambda>vb. (vb_key vb, vb)) (ub_books ub)) (v, s)"

definition vb_ok :: "nat \<Rightarrow> venue_book \<Rightarrow> bool" where
  "vb_ok d vb \<longleftrightarrow> ctl_reachable (vb_controller vb) \<and> c_allow_seq_gap (vb_controller vb) \<and>
     c_checksum_fn (vb_controller vb) = None \<and> ob_depth (vb_book vb) = d"

definition ub_inv :: "unified_book \<Rightarrow> bool" where
  "ub_inv ub \<longleftrightarrow> 0 < ub_depth ub \<and> distinct (map vb_key (ub_books ub)) \<and>
     (\<forall>vb \<in> set (ub_books ub). vb_ok (ub_depth ub) vb)"

lemma find_book_None: "find_book v s vbs = None \<longleftrightarrow> (v, s) \<notin> vb_key ` set vbs"
  by (induction vbs) auto

lemma find_book_Some: "find_book v s vbs = Some i \<Longrightarrow> i < length vbs \<and> vb_key (vbs ! i) = (v, s)"
  by (induction vbs arbitrary: i) (auto split: if_splits)

lemma new_VenueBook_ok:
  assumes "0 < d"
  obtains vb where "new_VenueBook v s d = Inr vb" and "vb_ok d vb" and "vb_key vb = (v, s)"
    and "\<not> feed_healthy vb" and "ts_book_ns vb = 0"
proof -
  obtain c where c: "new_OrderBookController d = Inr c" and d: "ob_depth (c_book c) = d"
      and f: "c_checksum_fn c = None"
    using assms by (simp add: new_OrderBookController_def new_OrderBook_def)
  have "ctl_reachable (setAllowSequenceGap True c)"
    using ctl_reachable.new [OF c] by (rule ctl_reachable.gap_mode)
  then show thesis
    using c d f
    by (intro that [of "\<lparr>venue_name = v, vb_symbol = s, vb_controller = setAllowSequenceGap True c,
          ts_book_ns = 0, feed_healthy = False\<rparr>"])
      (simp_all add: new_VenueBook_def vb_ok_def vb_book_def setAllowSequenceGap_def)
qed

lemma new_VenueBook_fields:
  "new_VenueBook v s d = Inr vb \<Longrightarrow> vb_key vb = (v, s) \<and> ts_book_ns vb = 0 \<and> \<not> feed_healthy vb"
  by (auto simp: new_VenueBook_def split: sum.splits)

text \<open>An event acts on the controller of its entry by at most one command and keeps the key.\<close>

lemma handle_event_rule:
  assumes "R (vb_controller vb)" and "\<And>cmd. R (ctl_exec cmd (vb_controller vb))"
  shows "R (vb_controller (fst (handle_event J now et j vb)))"
  using assms(1) assms(2) [of "CSnapshot _ _"] assms(2) [of "CIncrement _"] assms(2) [of CReset]
  by (simp add: event_defs case_prod_beta split: option.split)

lemma handle_event_ctl:
  obtains cmds where "vb_controller (fst (handle_event J now et j vb)) = fold ctl_exec cmds (vb_controller vb)"
proof -
  have "\<exists>cmds. vb_controller (fst (handle_event J now et j vb)) = fold ctl_exec cmds (vb_controller vb)"
  proof (rule handle_event_rule)
    show "\<exists>cmds. vb_controller vb = fold ctl_exec cmds (vb_controller vb)"
      by (rule exI [of _ "[]"]) simp
    show "\<exists>cmds. ctl_exec cmd (vb_controller vb) = fold ctl_exec cmds (vb_controller vb)" for cmd
      by (rule exI [of _ "[cmd]"]) simp
  qed
  then show thesis using that by auto
qed

lemma handle_event_key: "vb_key (fst (handle_event J now et j vb)) = vb_key vb"
  by (auto simp: event_defs split: option.split prod.split)

lemma vb_ok_handle:
  assumes "vb_ok d vb"
  shows "vb_ok d (fst (handle_event J now et j vb))"
proof -
  have config: "c_allow_seq_gap (fold ctl_exec cmds c) = c_allow_seq_gap c"
      "c_checksum_fn (fold ctl_exec cmds c) = c_checksum_fn c" for cmds c
    by (induction cmds arbitrary: c) (simp_all add: exec_config)
  obtain cmds where "vb_controller (fst (handle_event J now et j vb)) = fold ctl_exec cmds (vb_controller vb)"
    by (rule handle_event_ctl)
  with assms show ?thesis
    by (simp add: vb_ok_def vb_book_def config ctl.inv_run ctl.depth_run)
qed

lemma sanitize_ts_bound: "sanitize_ts ts now \<le> now + kMaxFutureNs"
  by (simp add: sanitize_ts_def kMaxFutureNs_def)

lemma handle_event_ts:
  "0 \<le> now \<Longrightarrow> ts_book_ns (fst (handle_event J now et j vb)) \<le> now + kMaxFutureNs \<or>
    ts_book_ns (fst (handle_event J now et j vb)) = ts_book_ns vb"
  using sanitize_ts_bound [of _ now]
  by (auto simp: event_defs kMaxFutureNs_def split: option.split prod.split)

text \<open>Every event either leaves the books alone or updates one entry, old or new.\<close>

lemma on_event_cases:
  assumes "ub_inv ub"
  obtains (dropped) "on_event J now j ub = Inr ('''', ub)"
  | (routed) hdr books i r where "parse_header J j = Some hdr"
      "i < length books" "vb_key (books ! i) = (venue hdr, eh_symbol hdr)" "distinct (map vb_key books)"
      "books = ub_books ub \<or> (\<exists>vb. new_VenueBook (venue hdr) (eh_symbol hdr) (ub_depth ub) = Inr vb \<and>
         (venue hdr, eh_symbol hdr) \<notin> vb_key ` set (ub_books ub) \<and> books = ub_books ub @ [vb])"
      "on_event J now j ub = Inr (r, ub\<lparr>ub_books := books[i := fst (handle_event J now (event_type hdr) j (books ! i))]\<rparr>)"
proof (cases "parse_header J j")
  case None
  then show thesis using dropped by (simp add: on_event_def)
next
  case (Some hdr)
  let ?v = "venue hdr" and ?s = "eh_symbol hdr"
  show thesis
  proof (cases "?v = '''' \<or> event_type hdr = ''''")
    case True
    with Some show thesis using dropped by (auto simp: on_event_def)
  next
    case False
    show thesis
    proof (cases "find_book ?v ?s (ub_books ub)")
      case None
      obtain vb where vb: "new_VenueBook ?v ?s (ub_depth ub) = Inr vb" "vb_key vb = (?v, ?s)"
        using new_VenueBook_ok [of "ub_depth ub"] assms unfolding ub_inv_def by metis
      have fresh: "(?v, ?s) \<notin> vb_key ` set (ub_books ub)" using None by (simp add: find_book_None)
      show thesis
        using False None Some vb assms fresh
        by (intro routed [of hdr "length (ub_books ub)" "ub_books ub @ [vb]"
              "if snd (handle_event J now (event_type hdr) j vb) = Handled then ?v else ''''"])
          (auto simp: on_event_def find_or_create_def ub_inv_def split: prod.splits)
    next
      case (Some i)
      then show thesis
        using False \<open>parse_header J j = Some hdr\<close> find_book_Some [OF Some] assms
        by (intro routed [of hdr i "ub_books ub"
              "if snd (handle_event J now (event_type hdr) j (ub_books ub ! i)) = Handled then ?v else ''''"])
          (auto simp: on_event_def find_or_create_def ub_inv_def split: prod.splits)
    qed
  qed
qed

lemma map_key_update:
  "i < length books \<Longrightarrow> vb_key vb = vb_key (books ! i) \<Longrightarrow> map vb_key (books[i := vb]) = map vb_key books"
  by (simp add: map_update list_update_same_conv)

lemma ub_inv_on_event:
  assumes "ub_inv ub"
  obtains r ub' where "on_event J now j ub = Inr (r, ub')" and "ub_inv ub'" and "ub_depth ub' = ub_depth ub"
proof (cases rule: on_event_cases [OF assms, of J now j])
  case 1
  then show thesis using assms that by blast
next
  case (2 hdr books i r)
  define vb where "vb = fst (handle_event J now (event_type hdr) j (books ! i))"
  have d: "0 < ub_depth ub" using assms by (simp add: ub_inv_def)
  obtain vb0 where "new_VenueBook (venue hdr) (eh_symbol hdr) (ub_depth ub) = Inr vb0" "vb_ok (ub_depth ub) vb0"
    using new_VenueBook_ok [OF d] by metis
  then have ok: "\<forall>b \<in> set books. vb_ok (ub_depth ub) b"
    using 2(5) assms unfolding ub_inv_def by auto
  then have "vb_ok (ub_depth ub) vb" using 2(2) by (simp add: vb_def vb_ok_handle)
  with ok have all: "\<forall>b \<in> set (books[i := vb]). vb_ok (ub_depth ub) b"
    using set_update_subset_insert [of books i vb] by blast
  have "map vb_key (books[i := vb]) = map vb_key books"
    using 2(2) handle_event_key unfolding vb_def by (intro map_key_update)
  then have "ub_inv (ub\<lparr>ub_books := books[i := vb]\<rparr>)" using all 2(4) d by (simp add: ub_inv_def)
  with 2(6) show thesis
    by (intro that [of r "ub\<lparr>ub_books := books[i := vb]\<rparr>"]) (simp_all add: vb_def)
qed

lemma run_events_inv:
  "ub_inv ub \<Longrightarrow> \<exists>ub'. run_events J evs ub = Inr ub' \<and> ub_inv ub' \<and> ub_depth ub' = ub_depth ub"
proof (induction evs arbitrary: ub)
  case (Cons ev evs)
  obtain now j where ev: "ev = (now, j)" by (cases ev)
  obtain r ub' where "on_event J now j ub = Inr (r, ub')" "ub_inv ub'" "ub_depth ub' = ub_depth ub"
    by (rule ub_inv_on_event [OF Cons.prems])
  with Cons.IH [of ub'] show ?case by (simp add: ev)
qed simp

lemma ub_inv_new: "0 < d \<Longrightarrow> ub_inv (new_UnifiedBook d)"
  by (simp add: ub_inv_def new_UnifiedBook_def)


section \<open>Properties\<close>

text \<open>Invariant of the consolidated book. For a positive depth, no stream of events, well-formed
  or not, raises an error, and afterwards there is one entry per venue and symbol, each holding a
  reachable controller in gap-tolerant mode whose book passes \<^verbatim>\<open>validate\<close>.\<close>

theorem unified_book_invariant:
  assumes "0 < depth"
  shows "\<exists>ub. run_events J evs (new_UnifiedBook depth) = Inr ub \<and>
    distinct (map (\<lambda>vb. (venue_name vb, vb_symbol vb)) (ub_books ub)) \<and>
    (\<forall>vb \<in> set (ub_books ub). ctl_reachable (vb_controller vb) \<and> c_allow_seq_gap (vb_controller vb) \<and>
       ob_depth (vb_book vb) = depth \<and> validate (vb_book vb))"
proof -
  obtain ub where run: "run_events J evs (new_UnifiedBook depth) = Inr ub"
      and inv: "ub_inv ub" and d: "ub_depth ub = depth"
    using run_events_inv [OF ub_inv_new [OF assms], of J evs] by (auto simp: new_UnifiedBook_def)
  have "validate (vb_book vb)" if "ctl_reachable (vb_controller vb)" for vb
    using ctl.run_validates [OF that, of "[]"] by (simp add: vb_book_def)
  with run inv d show ?thesis by (auto simp: ub_inv_def vb_ok_def)
qed

text \<open>A wire event as a tree, for the witnesses.\<close>

definition ev_obj :: "string \<Rightarrow> (string \<times> jtree) list \<Rightarrow> jtree" where
  "ev_obj et kvs = TObj ([(''schema_version'', TNum 1), (''event_type'', TStr et),
     (''venue'', TStr ''okx''), (''symbol'', TStr ''BTCUSDT'')] @ kvs)"

lemmas event_eval = event_defs on_event_def parse_header_def find_or_create_def new_VenueBook_def
  new_OrderBookController_def new_OrderBook_def setAllowSequenceGap_def ev_obj_def
  j_value_def j_at_def parse_snapshot_def parse_levels_def parse_level_def parse_book_state_as_snapshot_def
  extract_ts_book_ns_def sanitize_ts_def kMaxFutureNs_def new_UnifiedBook_def

theorem unified_book_invariant_witness:
  "\<exists>ub. run_events tree_api [(0, ev_obj ''status'' []), (1, TNum 3), (2, ev_obj ''snapshot'' [])] (new_UnifiedBook 5)
      = Inr ub \<and> distinct (map (\<lambda>vb. (venue_name vb, vb_symbol vb)) (ub_books ub)) \<and>
    (\<forall>vb \<in> set (ub_books ub). ctl_reachable (vb_controller vb) \<and> c_allow_seq_gap (vb_controller vb) \<and>
       ob_depth (vb_book vb) = 5 \<and> validate (vb_book vb))"
  by (rule unified_book_invariant) simp

lemma lookup_book_update:
  assumes "i < length books" and "vb_key vb = vb_key (books ! i)" and "vb_key vb \<noteq> k"
  shows "map_of (map (\<lambda>b. (vb_key b, b)) (books[i := vb])) k = map_of (map (\<lambda>b. (vb_key b, b)) books) k"
  using assms
proof (induction books arbitrary: i)
  case (Cons b books)
  then show ?case by (cases i) auto
qed simp

text \<open>Routing. An event changes at most the entry of the venue and symbol in its header: the
  entry of every other key is the same before and after, and when the header does not parse no
  entry changes.\<close>

theorem event_routed_to_its_book:
  assumes "ub_inv ub" and "on_event J now j ub = Inr (r, ub')"
    and "\<forall>hdr. parse_header J j = Some hdr \<longrightarrow> (venue hdr, eh_symbol hdr) \<noteq> (v, s)"
  shows "lookup_book v s ub' = lookup_book v s ub"
proof (cases rule: on_event_cases [OF assms(1), of J now j])
  case 1
  then show ?thesis using assms(2) by simp
next
  case (2 hdr books i r')
  define vb where "vb = fst (handle_event J now (event_type hdr) j (books ! i))"
  have key: "vb_key vb = vb_key (books ! i)" unfolding vb_def by (rule handle_event_key)
  have other: "(venue hdr, eh_symbol hdr) \<noteq> (v, s)" using assms(3) 2(1) by blast
  have "map_of (map (\<lambda>b. (vb_key b, b)) (books[i := vb])) (v, s) = map_of (map (\<lambda>b. (vb_key b, b)) books) (v, s)"
    using 2(2,3) key other by (intro lookup_book_update) auto
  also have "\<dots> = map_of (map (\<lambda>b. (vb_key b, b)) (ub_books ub)) (v, s)"
    using 2(5) other
    by (auto simp: map_add_def dest!: new_VenueBook_fields split: option.split)
  moreover have "ub' = ub\<lparr>ub_books := books[i := vb]\<rparr>" using 2(6) assms(2) by (simp add: vb_def)
  ultimately show ?thesis by (simp add: lookup_book_def)
qed

theorem event_routed_to_its_book_witness:
  "lookup_book ''kraken'' ''BTCUSDT'' (projr (map_sum id snd (on_event tree_api 0 (ev_obj ''status'' []) (new_UnifiedBook 5))))
    = lookup_book ''kraken'' ''BTCUSDT'' (new_UnifiedBook 5)"
proof -
  obtain r ub' where e: "on_event tree_api 0 (ev_obj ''status'' []) (new_UnifiedBook 5) = Inr (r, ub')"
    by (rule ub_inv_on_event [OF ub_inv_new [of 5]]) simp
  have "lookup_book ''kraken'' ''BTCUSDT'' ub' = lookup_book ''kraken'' ''BTCUSDT'' (new_UnifiedBook 5)"
    by (rule event_routed_to_its_book [OF ub_inv_new e]) (simp_all add: parse_header_def ev_obj_def j_value_def)
  then show ?thesis by (simp add: e)
qed

lemma run_events_ts:
  assumes "ub_inv ub" and "\<forall>vb \<in> set (ub_books ub). ts_book_ns vb \<le> T + kMaxFutureNs"
    and "\<forall>(now, j) \<in> set evs. 0 \<le> now \<and> now \<le> T" and "0 \<le> T" and "run_events J evs ub = Inr ub'"
  shows "\<forall>vb \<in> set (ub_books ub'). ts_book_ns vb \<le> T + kMaxFutureNs"
  using assms
proof (induction evs arbitrary: ub)
  case (Cons ev evs)
  obtain now j where ev: "ev = (now, j)" and now: "0 \<le> now" "now \<le> T" using Cons.prems(3) by (cases ev) auto
  obtain r ub1 where step: "on_event J now j ub = Inr (r, ub1)" and inv: "ub_inv ub1"
    by (rule ub_inv_on_event [OF Cons.prems(1)])
  have "\<forall>vb \<in> set (ub_books ub1). ts_book_ns vb \<le> T + kMaxFutureNs"
  proof (cases rule: on_event_cases [OF Cons.prems(1), of J now j])
    case 1
    with step Cons.prems(2) show ?thesis by simp
  next
    case (2 hdr books i r')
    define vb where "vb = fst (handle_event J now (event_type hdr) j (books ! i))"
    have books: "\<forall>b \<in> set books. ts_book_ns b \<le> T + kMaxFutureNs"
      using 2(5) Cons.prems(2,4) by (auto simp: kMaxFutureNs_def dest!: new_VenueBook_fields)
    then have "ts_book_ns (books ! i) \<le> T + kMaxFutureNs" using 2(2) by simp
    then have "ts_book_ns vb \<le> T + kMaxFutureNs"
      using handle_event_ts [OF now(1), of J "event_type hdr" j "books ! i"] now(2) unfolding vb_def by linarith
    with books have "\<forall>b \<in> set (books[i := vb]). ts_book_ns b \<le> T + kMaxFutureNs"
      using set_update_subset_insert [of books i vb] by blast
    moreover have "ub_books ub1 = books[i := vb]" using 2(6) step by (simp add: vb_def)
    ultimately show ?thesis by simp
  qed
  then show ?case using Cons.IH [OF inv] Cons.prems(3-5) step by (simp add: ev)
qed simp

text \<open>Published timestamps cannot defeat the staleness guard. When the clock reads at most \<open>T\<close>
  during a stream of events, every book timestamp is at most \<open>T\<close> plus 60 seconds, whatever
  timestamps the events carry.\<close>

theorem timestamps_bounded_by_clock:
  assumes "0 < depth" and "0 \<le> T" and "\<forall>(now, j) \<in> set evs. 0 \<le> now \<and> now \<le> T"
    and "run_events J evs (new_UnifiedBook depth) = Inr ub" and "vb \<in> set (ub_books ub)"
  shows "ts_book_ns vb \<le> T + 60000000000"
  using run_events_ts [OF ub_inv_new [OF assms(1)] _ assms(3,2,4)] assms(5)
  by (simp add: new_UnifiedBook_def kMaxFutureNs_def)


theorem timestamps_bounded_by_clock_witness:
  "ts_book_ns \<lparr>venue_name = ''okx'', vb_symbol = ''BTCUSDT'',
     vb_controller = \<lparr>c_book = \<lparr>ob_depth = 5, ob_bids = [], ob_asks = []\<rparr>, c_state = Synced,
        c_last_seq = 0, c_expected_seq = 1, c_checksum_fn = None, c_checksum_topN = 25,
        c_allow_seq_gap = True, c_validate_period = 0, c_validate_counter = 0,
        c_has_checksum = False, c_require_checksum = False\<rparr>,
     ts_book_ns = 10, feed_healthy = True\<rparr> \<le> 10 + 60000000000"
proof (rule timestamps_bounded_by_clock
    [where depth = 5 and J = tree_api and evs = "[(10, ev_obj ''book_state'' [(''ts_book_ns'', TNum 99999999999), (''bids'', TArr []), (''asks'', TArr [])])]"])
  show "run_events tree_api [(10, ev_obj ''book_state'' [(''ts_book_ns'', TNum 99999999999), (''bids'', TArr []), (''asks'', TArr [])])]
      (new_UnifiedBook 5) = Inr \<lparr>ub_depth = 5, ub_books = [\<lparr>venue_name = ''okx'', vb_symbol = ''BTCUSDT'',
     vb_controller = \<lparr>c_book = \<lparr>ob_depth = 5, ob_bids = [], ob_asks = []\<rparr>, c_state = Synced,
        c_last_seq = 0, c_expected_seq = 1, c_checksum_fn = None, c_checksum_topN = 25,
        c_allow_seq_gap = True, c_validate_period = 0, c_validate_counter = 0,
        c_has_checksum = False, c_require_checksum = False\<rparr>,
     ts_book_ns = 10, feed_healthy = True\<rparr>]\<rparr>"
    by (simp add: event_eval onSnapshot_def resetBook_def load_snapshot_def clear_book_def
        sort_bids_def sort_asks_def)
qed simp_all

lemma lookup_book_hit:
  assumes "i < length books" and "distinct (map vb_key books)"
  shows "map_of (map (\<lambda>b. (vb_key b, b)) books) (vb_key (books ! i)) = Some (books ! i)"
  using assms by (intro map_of_is_SomeI) (auto simp: comp_def)

text \<open>What a routed event leaves in its entry.\<close>

lemma lookup_handled:
  assumes "i < length books" and "vb_key (books ! i) = k" and "distinct (map vb_key books)"
  shows "map_of (map (\<lambda>b. (vb_key b, b)) (books[i := fst (handle_event J now ty j (books ! i))])) k =
    Some (fst (handle_event J now ty j (books ! i)))"
proof -
  define vb where "vb = fst (handle_event J now ty j (books ! i))"
  have key: "vb_key vb = vb_key (books ! i)" unfolding vb_def by (rule handle_event_key)
  have "map vb_key (books[i := vb]) = map vb_key books" using assms(1) key by (rule map_key_update)
  then have "map_of (map (\<lambda>b. (vb_key b, b)) (books[i := vb])) (vb_key (books[i := vb] ! i)) = Some (books[i := vb] ! i)"
    using assms by (intro lookup_book_hit) simp_all
  then show ?thesis using assms key unfolding vb_def [symmetric] by simp
qed

lemma on_event_entry:
  assumes "ub_inv ub" and "parse_header J j = Some hdr" and "venue hdr \<noteq> ''''" and "event_type hdr \<noteq> ''''"
  obtains vb0 ub' where
    "lookup_book (venue hdr) (eh_symbol hdr) ub = Some vb0 \<or>
       lookup_book (venue hdr) (eh_symbol hdr) ub = None \<and>
       new_VenueBook (venue hdr) (eh_symbol hdr) (ub_depth ub) = Inr vb0"
    "on_event J now j ub =
       Inr (if snd (handle_event J now (event_type hdr) j vb0) = Handled then venue hdr else '''', ub')"
    "lookup_book (venue hdr) (eh_symbol hdr) ub' = Some (fst (handle_event J now (event_type hdr) j vb0))"
proof -
  let ?v = "venue hdr" and ?s = "eh_symbol hdr"
  let ?h = "\<lambda>vb. handle_event J now (event_type hdr) j vb"
  have inv: "distinct (map vb_key (ub_books ub))" "0 < ub_depth ub" using assms(1) by (simp_all add: ub_inv_def)
  show thesis
  proof (cases "find_book ?v ?s (ub_books ub)")
    case None
    obtain vb where vb: "new_VenueBook ?v ?s (ub_depth ub) = Inr vb" "vb_key vb = (?v, ?s)"
      using new_VenueBook_ok [OF inv(2)] by metis
    have fresh: "(?v, ?s) \<notin> vb_key ` set (ub_books ub)" using None by (simp add: find_book_None)
    then have "lookup_book ?v ?s ub = None" by (auto simp: lookup_book_def map_of_eq_None_iff comp_def)
    moreover have "map_of (map (\<lambda>b. (vb_key b, b)) (ub_books ub @ [fst (?h vb)])) (?v, ?s) = Some (fst (?h vb))"
      using lookup_handled [of "length (ub_books ub)" "ub_books ub @ [vb]" "(?v, ?s)" J now "event_type hdr" j] vb(2) fresh inv by auto
    ultimately show thesis
      using assms(2-4) None vb
      by (intro that [of vb "ub\<lparr>ub_books := ub_books ub @ [fst (?h vb)]\<rparr>"])
        (auto simp: on_event_def find_or_create_def lookup_book_def split: prod.splits)
  next
    case (Some i)
    note i = find_book_Some [OF Some]
    have "lookup_book ?v ?s ub = Some (ub_books ub ! i)"
      using lookup_book_hit [of i "ub_books ub"] i inv(1) by (auto simp: lookup_book_def)
    moreover have "map_of (map (\<lambda>b. (vb_key b, b)) ((ub_books ub)[i := fst (?h (ub_books ub ! i))])) (?v, ?s)
        = Some (fst (?h (ub_books ub ! i)))"
      by (rule lookup_handled) (use i inv(1) in simp_all)
    ultimately show thesis
      using assms(2-4) Some
      by (intro that [of "ub_books ub ! i" "ub\<lparr>ub_books := (ub_books ub)[i := fst (?h (ub_books ub ! i))]\<rparr>"])
        (auto simp: on_event_def find_or_create_def lookup_book_def split: prod.splits)
  qed
qed


text \<open>A status event takes its venue out of arbitrage scanning. Whatever state a well-formed
  status event reports, the venue's book is not \<open>synced\<close> afterwards; when the state is
  \<^verbatim>\<open>disconnected\<close>, the book is also emptied and its timestamp cleared.\<close>

theorem status_event_excludes_venue:
  assumes "ub_inv ub" and "parse_header J j = Some hdr" and "venue hdr \<noteq> ''''" and "event_type hdr = ''status''"
    and "j_value J (j_str J) j ''feed_state'' '''' = Some st" and "j_value J (j_str J) j ''reason'' '''' = Some why"
  shows "\<exists>ub' vb. on_event J now j ub = Inr (venue hdr, ub') \<and>
    lookup_book (venue hdr) (eh_symbol hdr) ub' = Some vb \<and> \<not> synced vb \<and>
    (st = ''disconnected'' \<longrightarrow> ob_bids (vb_book vb) = [] \<and> ob_asks (vb_book vb) = [] \<and> ts_book_ns vb = 0)"
proof -
  have et: "event_type hdr \<noteq> ''''" using assms(4) by simp
  have h: "handle_event J now (event_type hdr) j vb =
      (if st = ''disconnected''
       then vb\<lparr>feed_healthy := False, vb_controller := resetBook (vb_controller vb), ts_book_ns := 0\<rparr>
       else vb\<lparr>feed_healthy := False\<rparr>, Handled)" for vb
    using assms(4-6) by (simp add: handle_event_def on_status_event_def)
  show ?thesis
    by (rule on_event_entry [OF assms(1-3) et, of now])
      (auto simp: h synced_def vb_book_def resetBook_def clear_book_def)
qed

theorem status_event_excludes_venue_witness:
  "\<exists>ub' vb. on_event tree_api 7 (ev_obj ''status'' [(''feed_state'', TStr ''disconnected'')]) (new_UnifiedBook 5)
      = Inr (''okx'', ub') \<and>
    lookup_book ''okx'' ''BTCUSDT'' ub' = Some vb \<and> \<not> synced vb \<and>
    ob_bids (vb_book vb) = [] \<and> ob_asks (vb_book vb) = [] \<and> ts_book_ns vb = 0"
  using status_event_excludes_venue [of "new_UnifiedBook 5" tree_api "ev_obj ''status'' [(''feed_state'', TStr ''disconnected'')]"
      "\<lparr>schema_version = 1, event_type = ''status'', venue = ''okx'', eh_symbol = ''BTCUSDT''\<rparr>" "''disconnected''" "''''" 7]
  by (simp add: ub_inv_new parse_header_def ev_obj_def j_value_def)

text \<open>A book-state event whose levels do not parse revives a stale book. The event is reported as
  discarded, and the controller keeps its old book, but the entry has already been marked healthy
  and given the event's timestamp: a book that a status event had excluded is \<open>synced\<close> again
  whenever its controller still is.\<close>

theorem malformed_book_state_revives_stale_book:
  assumes "ub_inv ub" and "parse_header J j = Some hdr" and "venue hdr \<noteq> ''''" and "event_type hdr = ''book_state''"
    and "lookup_book (venue hdr) (eh_symbol hdr) ub = Some vb"
    and "extract_ts_book_ns J j = Some ts" and "parse_book_state_as_snapshot J j = None"
  shows "\<exists>ub' vb'. on_event J now j ub = Inr ('''', ub') \<and>
    lookup_book (venue hdr) (eh_symbol hdr) ub' = Some vb' \<and>
    vb_book vb' = vb_book vb \<and> ts_book_ns vb' = sanitize_ts ts now \<and>
    synced vb' = isSynced (vb_controller vb)"
proof -
  have et: "event_type hdr \<noteq> ''''" using assms(4) by simp
  have h: "handle_event J now (event_type hdr) j vb =
      (vb\<lparr>ts_book_ns := sanitize_ts ts now, feed_healthy := True\<rparr>, Threw)"
    using assms(4,6,7) by (simp add: handle_event_def on_book_state_event_def)
  show ?thesis
    by (rule on_event_entry [OF assms(1-3) et, of now])
      (use assms(5) h in \<open>auto simp: synced_def vb_book_def\<close>)
qed

theorem malformed_book_state_revives_stale_book_witness:
  "\<exists>ub' vb'. on_event tree_api 7 (ev_obj ''book_state'' [(''ts_book_ns'', TNum 7)])
      \<lparr>ub_depth = 5, ub_books = [\<lparr>venue_name = ''okx'', vb_symbol = ''BTCUSDT'',
         vb_controller = setAllowSequenceGap True bridge_at_10, ts_book_ns = 1, feed_healthy = False\<rparr>]\<rparr> = Inr ('''', ub') \<and>
    lookup_book ''okx'' ''BTCUSDT'' ub' = Some vb' \<and> ts_book_ns vb' = 7"
proof -
  let ?vb = "\<lparr>venue_name = ''okx'', vb_symbol = ''BTCUSDT'',
         vb_controller = setAllowSequenceGap True bridge_at_10, ts_book_ns = 1, feed_healthy = False\<rparr>"
  have "ctl_reachable (setAllowSequenceGap True bridge_at_10)"
    using bridge_at_10_reachable by (rule ctl_reachable.gap_mode)
  then have "ub_inv \<lparr>ub_depth = 5, ub_books = [?vb]\<rparr>"
    by (simp add: ub_inv_def vb_ok_def vb_book_def) (simp add: setAllowSequenceGap_def bridge_at_10_def)
  from malformed_book_state_revives_stale_book [OF this, of tree_api "ev_obj ''book_state'' [(''ts_book_ns'', TNum 7)]"
      "\<lparr>schema_version = 1, event_type = ''book_state'', venue = ''okx'', eh_symbol = ''BTCUSDT''\<rparr>" ?vb 7 7]
  show ?thesis
    by (simp add: parse_header_def ev_obj_def j_value_def j_at_def lookup_book_def
        extract_ts_book_ns_def parse_book_state_as_snapshot_def sanitize_ts_def kMaxFutureNs_def)
      blast
qed

end
