(* ===== verification/LatencyHistogram.thy ===== *)
theory LatencyHistogram
  imports Double "HOL-Library.Multiset" "HOL-Library.Signed_Division"
begin

text \<open>
  The detection-latency histogram of \<^verbatim>\<open>brain/include/brain/LatencyHistogram.hpp\<close>: a ring buffer of
  the last 10000 samples and the percentiles computed from its sorted contents. The array is a
  list of that length; the percentile index is computed in floating point, as the code does.
\<close>

definition kCap :: nat where
  "kCap = 10000"

record histogram =
  h_buf :: "i64 list"
  h_pos :: nat
  h_count :: nat

definition new_histogram :: histogram where
  "new_histogram = \<lparr>h_buf = replicate kCap 0, h_pos = 0, h_count = 0\<rparr>"

definition record_sample :: "i64 \<Rightarrow> histogram \<Rightarrow> histogram" where
  "record_sample ns h = h\<lparr>h_buf := (h_buf h)[h_pos h := ns], h_pos := (h_pos h + 1) mod kCap,
     h_count := (if h_count h < kCap then h_count h + 1 else h_count h)\<rparr>"

record Percentiles =
  p50_us :: i64
  p95_us :: i64
  p99_us :: i64
  p_n :: nat

definition pct_index :: "double \<Rightarrow> nat \<Rightarrow> nat" where
  "pct_index p n = to_size (p / Fin 100 * of_i64 (int (n - 1)))"

definition pct :: "i64 list \<Rightarrow> double \<Rightarrow> i64" where
  "pct v p = v ! pct_index p (length v) sdiv 1000"

definition compute :: "histogram \<Rightarrow> Percentiles" where
  "compute h =
     (if h_count h = 0 then \<lparr>p50_us = 0, p95_us = 0, p99_us = 0, p_n = 0\<rparr>
      else let v = sort (take (h_count h) (h_buf h))
           in \<lparr>p50_us = pct v (Fin 50), p95_us = pct v (Fin 95), p99_us = pct v (Fin 99), p_n = h_count h\<rparr>)"

definition hist_empty :: "histogram \<Rightarrow> bool" where
  "hist_empty h \<longleftrightarrow> h_count h = 0"

section \<open>The ring buffer holds the last samples\<close>

definition ring_inv :: "i64 list \<Rightarrow> histogram \<Rightarrow> bool" where
  "ring_inv xs h \<longleftrightarrow> length (h_buf h) = kCap \<and> h_pos h = length xs mod kCap \<and>
     h_count h = min (length xs) kCap \<and>
     (\<forall>k < length xs. length xs \<le> k + kCap \<longrightarrow> h_buf h ! (k mod kCap) = xs ! k)"

lemma kCap_pos [simp]: "0 < kCap"
  by (simp add: kCap_def)

lemma ring_inv_new: "ring_inv [] new_histogram"
  by (simp add: ring_inv_def new_histogram_def)

lemma mod_window: "k < (n :: nat) \<Longrightarrow> n < k + m \<Longrightarrow> k mod m \<noteq> n mod m"
proof
  assume "k < n" "n < k + m" "k mod m = n mod m"
  then have "m dvd n - k" by (metis less_imp_le mod_eq_dvd_iff_nat)
  with \<open>k < n\<close> have "m \<le> n - k" by (simp add: dvd_imp_le)
  with \<open>k < n\<close> \<open>n < k + m\<close> show False by linarith
qed

lemma ring_inv_record:
  assumes "ring_inv xs h"
  shows "ring_inv (xs @ [x]) (record_sample x h)"
proof -
  have "(h_buf h)[h_pos h := x] ! (k mod kCap) = (xs @ [x]) ! k"
    if "k < Suc (length xs)" "Suc (length xs) \<le> k + kCap" for k
  proof (cases "k = length xs")
    case True
    with assms show ?thesis by (simp add: ring_inv_def)
  next
    case False
    with that assms mod_window [of k "length xs" kCap] show ?thesis
      by (simp add: ring_inv_def nth_append)
  qed
  with assms show ?thesis
    by (auto simp: ring_inv_def record_sample_def mod_Suc_eq min_def)
qed

lemma ring_inv_fold: "ring_inv ys h \<Longrightarrow> ring_inv (ys @ xs) (fold record_sample xs h)"
proof (induction xs arbitrary: ys h)
  case (Cons x xs)
  then show ?case using Cons.IH [of "ys @ [x]" "record_sample x h"] by (simp add: ring_inv_record)
qed simp

lemma mset_rotated: "mset (rotate n xs) = mset xs"
  by (metis append_take_drop_id mset_append rotate_drop_take union_commute)

lemma ring_contents:
  assumes "ring_inv xs h"
  shows "mset (take (h_count h) (h_buf h)) = mset (drop (length xs - kCap) xs)"
proof (cases "length xs \<le> kCap")
  case True
  have "h_buf h ! i = xs ! i" if "i < length xs" for i
  proof -
    have "i mod kCap = i" using that True by simp
    then show ?thesis using that True assms unfolding ring_inv_def by (metis le_add2 order_trans)
  qed
  with True assms have "take (h_count h) (h_buf h) = xs"
    by (intro nth_equalityI) (simp_all add: ring_inv_def)
  with True show ?thesis by simp
next
  case False
  let ?n = "length xs"
  have "rotate ?n (h_buf h) = drop (?n - kCap) xs"
  proof (intro nth_equalityI)
    show "length (rotate ?n (h_buf h)) = length (drop (?n - kCap) xs)"
      using False assms by (simp add: ring_inv_def)
    fix i assume i: "i < length (rotate ?n (h_buf h))"
    then have i': "i < kCap" using assms by (simp add: ring_inv_def)
    let ?k = "?n - kCap + i"
    have "(?n + i) mod kCap = (?k + kCap) mod kCap" using False by simp
    then have "(?n + i) mod kCap = ?k mod kCap" by simp
    then have "rotate ?n (h_buf h) ! i = h_buf h ! (?k mod kCap)"
      using i assms by (simp add: nth_rotate ring_inv_def)
    also have "\<dots> = xs ! ?k" using i' False assms unfolding ring_inv_def by simp
    finally show "rotate ?n (h_buf h) ! i = drop (?n - kCap) xs ! i" using False by simp
  qed
  then have "mset (h_buf h) = mset (drop (?n - kCap) xs)" by (metis mset_rotated)
  moreover have "take (h_count h) (h_buf h) = h_buf h" using False assms by (simp add: ring_inv_def)
  ultimately show ?thesis by simp
qed

section \<open>Percentile indices\<close>

text \<open>The index of a percentile, computed with two roundings, is in range and monotone.\<close>

lemma to_size_mono: "Fin a \<le> Fin b \<Longrightarrow> to_size (Fin a) \<le> to_size (Fin b)"
  by (simp add: double_ops nat_mono floor_mono)

lemma rnd_between:
  assumes "0 \<le> x" and "x \<le> of_int n" and "\<bar>n\<bar> < 2 ^ 53"
  obtains y where "rnd x = Fin y" and "0 \<le> y" and "y \<le> of_int n"
proof -
  have "rnd 0 \<le> rnd x" "rnd x \<le> of_i64 n" using assms by (simp_all add: rnd_mono of_i64_def)
  then have "Fin 0 \<le> rnd x" "rnd x \<le> Fin (of_int n)"
    using of_i64_exact [OF assms(3)] by (simp_all add: rnd_def of_rounded_def)
  then show thesis using that by (cases "rnd x") (auto simp: double_ops)
qed

lemma pct_index_eq:
  assumes "0 < n" and "n \<le> kCap"
  shows "pct_index (Fin p) n = to_size (dmul (rnd (p / 100)) (Fin (of_nat (n - 1))))"
proof -
  have "of_i64 (int (n - 1)) = Fin (of_int (int (n - 1)))"
    using assms by (intro of_i64_exact) (simp add: kCap_def)
  then show ?thesis by (simp add: pct_index_def double_ops)
qed

lemma pct_index_range:
  assumes "0 < n" and "n \<le> kCap" and "0 \<le> p" and "p \<le> 100"
  shows "pct_index (Fin p) n < n"
proof -
  have small: "\<bar>int (n - 1)\<bar> < 2 ^ 53" using assms(2) by (simp add: kCap_def)
  obtain y where y: "rnd (p / 100) = Fin y" "0 \<le> y" "y \<le> of_int 1"
    by (rule rnd_between [of "p / 100" 1]) (use assms in simp_all)
  have "y * of_nat (n - 1) \<le> (1 :: rat) * of_nat (n - 1)" using y by (intro mult_right_mono) auto
  then have m: "y * of_nat (n - 1) \<le> of_int (int (n - 1))" by simp
  obtain z where z: "rnd (y * of_nat (n - 1)) = Fin z" "0 \<le> z" "z \<le> of_int (int (n - 1))"
    by (rule rnd_between [OF _ m]) (use y small in simp_all)
  have "\<lfloor>z\<rfloor> \<le> int (n - 1)" using z(3) by (simp add: floor_le_iff)
  then have "nat \<lfloor>z\<rfloor> \<le> n - 1" by linarith
  then show ?thesis using assms(1) y z by (simp add: pct_index_eq [OF assms(1,2)])
qed

lemma pct_index_mono:
  assumes "0 < n" and "n \<le> kCap" and "0 \<le> p" and "p \<le> q" and "q \<le> 100"
  shows "pct_index (Fin p) n \<le> pct_index (Fin q) n"
proof -
  have small: "\<bar>int (n - 1)\<bar> < 2 ^ 53" using assms(2) by (simp add: kCap_def)
  obtain y where y: "rnd (p / 100) = Fin y" "0 \<le> y" "y \<le> of_int 1"
    by (rule rnd_between [of "p / 100" 1]) (use assms in simp_all)
  obtain w where w: "rnd (q / 100) = Fin w" "0 \<le> w" "w \<le> of_int 1"
    by (rule rnd_between [of "q / 100" 1]) (use assms in simp_all)
  have "rnd (p / 100) \<le> rnd (q / 100)" using assms(4) by (simp add: rnd_mono divide_right_mono)
  then have "y \<le> w" using y w by (simp add: double_ops)
  then have le: "y * of_nat (n - 1) \<le> w * of_nat (n - 1)" by (intro mult_right_mono) auto
  have "w * of_nat (n - 1) \<le> (1 :: rat) * of_nat (n - 1)" using w by (intro mult_right_mono) auto
  then have m: "w * of_nat (n - 1) \<le> of_int (int (n - 1))" by simp
  have m': "y * of_nat (n - 1) \<le> of_int (int (n - 1))" using le m by linarith
  obtain z where z: "rnd (w * of_nat (n - 1)) = Fin z"
    by (rule rnd_between [OF _ m]) (use w small in simp_all)
  obtain x where x: "rnd (y * of_nat (n - 1)) = Fin x"
    by (rule rnd_between [OF _ m']) (use y small in simp_all)
  have "Fin x \<le> Fin z" using rnd_mono [OF le] x z by simp
  then show ?thesis using y w x z to_size_mono by (simp add: pct_index_eq [OF assms(1,2)])
qed

lemma sdiv_mono: "(a :: int) \<le> b \<Longrightarrow> a sdiv 1000 \<le> b sdiv 1000"
proof -
  assume "a \<le> b"
  moreover have "x sdiv 1000 = (if 0 \<le> x then x div 1000 else - (- x div 1000))" for x :: int
    by (auto simp: signed_divide_int_def sgn_if)
  ultimately show ?thesis using zdiv_mono1 [of a b 1000] zdiv_mono1 [of "- b" "- a" 1000]
    by (auto simp: not_le pos_imp_zdiv_nonneg_iff) (smt (verit) pos_imp_zdiv_nonneg_iff)
qed

text \<open>Percentiles of the last 10000 samples. After any non-empty sequence of samples, every
  index the code computes is in range, the three percentiles are ordered, each is the
  microsecond value of one of the last 10000 samples, and \<^verbatim>\<open>n\<close> is the number of samples kept.\<close>

theorem percentiles_of_last_samples:
  assumes "xs \<noteq> []"
  shows "let p = compute (fold record_sample xs new_histogram); recent = set (drop (length xs - 10000) xs)
    in p50_us p \<le> p95_us p \<and> p95_us p \<le> p99_us p \<and> p_n p = min (length xs) 10000 \<and>
       p50_us p \<in> (\<lambda>s. s sdiv 1000) ` recent \<and> p95_us p \<in> (\<lambda>s. s sdiv 1000) ` recent \<and>
       p99_us p \<in> (\<lambda>s. s sdiv 1000) ` recent"
proof -
  let ?h = "fold record_sample xs new_histogram"
  let ?v = "sort (take (h_count ?h) (h_buf ?h))"
  have inv: "ring_inv xs ?h" using ring_inv_fold [OF ring_inv_new, of xs] by simp
  then have n: "h_count ?h = min (length xs) kCap" "length (h_buf ?h) = kCap" by (simp_all add: ring_inv_def)
  then have len: "0 < length ?v" "length ?v \<le> kCap" using assms by simp_all
  have idx: "pct_index (Fin p) (length ?v) < length ?v" if "0 \<le> p" "p \<le> 100" for p
    using pct_index_range [OF len that] .
  have "mset ?v = mset (drop (length xs - kCap) xs)" using ring_contents [OF inv] by simp
  then have "set ?v = set (drop (length xs - 10000) xs)" by (metis kCap_def set_mset_mset)
  then have mem: "pct ?v (Fin p) \<in> (\<lambda>s. s sdiv 1000) ` set (drop (length xs - 10000) xs)"
    if "0 \<le> p" "p \<le> 100" for p
    using idx [OF that] nth_mem unfolding pct_def by blast
  have mono: "pct ?v (Fin p) \<le> pct ?v (Fin q)" if "0 \<le> p" "p \<le> q" "q \<le> 100" for p q
    unfolding pct_def using pct_index_mono [OF len that] idx [of q] that
    by (intro sdiv_mono sorted_nth_mono) simp_all
  have "h_count ?h \<noteq> 0" using n assms by simp
  then have "compute ?h = \<lparr>p50_us = pct ?v (Fin 50), p95_us = pct ?v (Fin 95), p99_us = pct ?v (Fin 99),
      p_n = h_count ?h\<rparr>"
    by (simp add: compute_def Let_def)
  then show ?thesis
    using mem [of 50] mem [of 95] mem [of 99] mono [of 50 95] mono [of 95 99] n
    unfolding Let_def by (simp add: kCap_def)
qed


theorem percentiles_of_last_samples_witness:
  "p50_us (compute (fold record_sample [5000, 3000, 9000] new_histogram))
     \<in> (\<lambda>s. s sdiv 1000) ` {5000, 3000, 9000}"
  using percentiles_of_last_samples [of "[5000, 3000, 9000]"] by (simp add: Let_def)

end
