(* ===== verification/ArbDetector.thy ===== *)
theory ArbDetector
  imports UnifiedBook LatencyHistogram
begin

text \<open>
  The cross-venue arbitrage detector of \<^verbatim>\<open>brain/include/brain/ArbDetector.hpp\<close> and
  \<^verbatim>\<open>brain/src/brain/ArbDetector.cpp\<close>: the scan over all directed venue pairs with its guards, the
  rate limiter, the emission of a cross, and the background writer with file rotation. The clock is
  the argument \<open>now\<close>, the JSON library the argument \<open>J\<close>; the files are the field \<open>ad_disk\<close>, a map from
  paths to contents, and \<open>opens\<close> says for which paths the operating system lets the stream be
  opened. The calls of the callback \<^verbatim>\<open>on_cross_\<close> are recorded in \<open>ad_signals\<close>. Ticks and timestamps
  are integers: the code's 64-bit differences and sums of them do not overflow on prices and
  clock values.
\<close>

section \<open>State\<close>

record ArbCross =
  sell_venue :: string
  buy_venue :: string
  sell_bid_tick :: i64
  buy_ask_tick :: i64
  spread_bps :: double
  net_spread_bps :: double
  ts_detected_ns :: i64
  sell_ts_book_ns :: i64
  buy_ts_book_ns :: i64

record detector =
  venue_fee_bps :: "string \<rightharpoonup> double"
  min_spread_bps :: double
  max_spread_bps :: double
  rate_limit_ns :: i64
  max_age_diff_ns :: i64
  max_price_deviation_pct :: double
  ad_open :: bool
  output_path_base :: string
  output_max_bytes :: nat
  output_bytes :: nat
  output_rotate_seq :: u32
  write_queue :: "string list"
  write_stop :: bool
  last_emit_ns :: "string \<rightharpoonup> i64"
  crosses_total :: u64
  last_cross_ns :: i64
  ad_active :: bool
  latency_hist :: histogram
  has_callback :: bool
  ad_signals :: "ArbCross list"
  ad_disk :: "string \<rightharpoonup> string"

definition kMaxVenues :: nat where
  "kMaxVenues = 16"

definition kWriteQueueCap :: nat where
  "kWriteQueueCap = 4096"

definition new_ArbDetector ::
  "(string \<Rightarrow> bool) \<Rightarrow> (string \<rightharpoonup> string) \<Rightarrow> double \<Rightarrow> double \<Rightarrow> i64 \<Rightarrow> i64 \<Rightarrow> double \<Rightarrow> string \<Rightarrow> nat
    \<Rightarrow> (string \<rightharpoonup> double) \<Rightarrow> detector" where
  "new_ArbDetector opens disk min_bps max_bps limit max_age max_dev path max_bytes fees =
     (let opened = path \<noteq> '''' \<and> opens path in
      \<lparr>venue_fee_bps = fees, min_spread_bps = min_bps, max_spread_bps = max_bps, rate_limit_ns = limit,
       max_age_diff_ns = max_age, max_price_deviation_pct = max_dev, ad_open = opened,
       output_path_base = path, output_max_bytes = max_bytes, output_bytes = 0, output_rotate_seq = 0,
       write_queue = [], write_stop = False, last_emit_ns = Map.empty, crosses_total = 0, last_cross_ns = 0,
       ad_active = True, latency_hist = new_histogram, has_callback = False, ad_signals = [],
       ad_disk = (if opened \<and> disk path = None then disk(path \<mapsto> '''') else disk)\<rparr>)"

definition set_active :: "bool \<Rightarrow> detector \<Rightarrow> detector" where
  "set_active v d = d\<lparr>ad_active := v\<rparr>"

definition fee_for :: "detector \<Rightarrow> string \<Rightarrow> double" where
  "fee_for d v = (case venue_fee_bps d v of Some f \<Rightarrow> f | None \<Rightarrow> Fin 0)"

definition check_rate_limit :: "string \<Rightarrow> i64 \<Rightarrow> detector \<Rightarrow> bool \<times> detector" where
  "check_rate_limit key ts_now d =
     (if rate_limit_ns d \<le> 0 then (True, d)
      else case last_emit_ns d key of
        Some t \<Rightarrow> if ts_now - t < rate_limit_ns d then (False, d)
                   else (True, d\<lparr>last_emit_ns := (last_emit_ns d)(key \<mapsto> ts_now)\<rparr>)
      | None \<Rightarrow> (True, d\<lparr>last_emit_ns := (last_emit_ns d)(key \<mapsto> ts_now)\<rparr>))"

section \<open>The background writer\<close>

definition rotate_output :: "(string \<Rightarrow> bool) \<Rightarrow> detector \<Rightarrow> detector" where
  "rotate_output opens d =
     (if output_path_base d = '''' then d
      else let seq = output_rotate_seq d + 1;
               rotated = output_path_base d @ ''.'' @ nat_str (unat seq);
               disk1 = (case ad_disk d (output_path_base d) of None \<Rightarrow> ad_disk d
                        | Some s \<Rightarrow> (ad_disk d)(output_path_base d := None, rotated \<mapsto> s));
               opened = opens (output_path_base d);
               disk2 = (if opened then disk1(output_path_base d \<mapsto> '''') else disk1)
           in d\<lparr>output_rotate_seq := seq, ad_disk := disk2, ad_open := opened, output_bytes := 0\<rparr>)"

text \<open>One iteration of \<^verbatim>\<open>writer_loop_\<close> on a non-empty queue.\<close>

definition write_line :: "(string \<Rightarrow> bool) \<Rightarrow> string \<Rightarrow> detector \<Rightarrow> detector" where
  "write_line opens line d =
     (if \<not> ad_open d then d
      else let old = (case ad_disk d (output_path_base d) of Some s \<Rightarrow> s | None \<Rightarrow> '''');
               d1 = d\<lparr>ad_disk := (ad_disk d)(output_path_base d \<mapsto> old @ line),
                      output_bytes := output_bytes d + length line\<rparr>
           in if output_max_bytes d1 > 0 \<and> output_bytes d1 \<ge> output_max_bytes d1
              then rotate_output opens d1 else d1)"

definition writer_step :: "(string \<Rightarrow> bool) \<Rightarrow> detector \<Rightarrow> detector" where
  "writer_step opens d =
     (case write_queue d of [] \<Rightarrow> d
      | line # rest \<Rightarrow> write_line opens line (d\<lparr>write_queue := rest\<rparr>))"

text \<open>\<^verbatim>\<open>flush\<close>: the stop flag is set and the writer drains the queue before it is joined.\<close>

definition flush_detector :: "(string \<Rightarrow> bool) \<Rightarrow> detector \<Rightarrow> detector" where
  "flush_detector opens d =
     fold (write_line opens) (write_queue d) (d\<lparr>write_stop := True, write_queue := []\<rparr>)"

section \<open>Emission\<close>

definition lag_ns :: "ArbCross \<Rightarrow> i64" where
  "lag_ns c = ts_detected_ns c - max (sell_ts_book_ns c) (buy_ts_book_ns c)"

text \<open>The line of a cross. \<^verbatim>\<open>dump\<close> of the JSON library throws on a string that is not UTF-8, and \<^verbatim>\<open>emit_\<close> then drops the line
  (\<^verbatim>\<open>catch (...)\<close>); the model has it total, so that its lines are those of crosses with well-formed venue names, which are the
  names of the feeds.\<close>

definition cross_line :: "'j json_api \<Rightarrow> ArbCross \<Rightarrow> string" where
  "cross_line J c = j_dump J (mk_obj J
     [(''schema_version'', mk_i64 J 1), (''event_type'', mk_str J ''arb_cross''),
      (''ts_detected_ns'', mk_i64 J (ts_detected_ns c)), (''sell_venue'', mk_str J (sell_venue c)),
      (''buy_venue'', mk_str J (buy_venue c)), (''sell_bid_tick'', mk_i64 J (sell_bid_tick c)),
      (''buy_ask_tick'', mk_i64 J (buy_ask_tick c)), (''spread_bps'', mk_dbl J (spread_bps c)),
      (''net_spread_bps'', mk_dbl J (net_spread_bps c)), (''sell_ts_book_ns'', mk_i64 J (sell_ts_book_ns c)),
      (''buy_ts_book_ns'', mk_i64 J (buy_ts_book_ns c)), (''lag_ns'', mk_i64 J (lag_ns c))]) @ [CHR 0x0A]"

definition emit :: "'j json_api \<Rightarrow> ArbCross \<Rightarrow> detector \<Rightarrow> detector" where
  "emit J c d =
     (if \<not> ad_active d then d
      else let d1 = d\<lparr>crosses_total := crosses_total d + 1, last_cross_ns := ts_detected_ns c\<rparr>;
               d2 = (if lag_ns c > 0 then d1\<lparr>latency_hist := record_sample (lag_ns c) (latency_hist d1)\<rparr> else d1);
               d3 = (if has_callback d2 then d2\<lparr>ad_signals := ad_signals d2 @ [c]\<rparr> else d2)
           in if \<not> ad_open d3 then d3
              else d3\<lparr>write_queue := push_if kWriteQueueCap (cross_line J c) (write_queue d3)\<rparr>)"

section \<open>Scanning\<close>

definition bid_tick :: "venue_book \<Rightarrow> i64" where
  "bid_tick vb = priceTick (best_bid (vb_book vb))"

definition ask_tick :: "venue_book \<Rightarrow> i64" where
  "ask_tick vb = priceTick (best_ask (vb_book vb))"

definition median_bid :: "i64 list \<Rightarrow> double" where
  "median_bid bids =
     (let s = sort bids; n = length bids
      in if n mod 2 = 0 then of_i64 (s ! (n div 2 - 1) + s ! (n div 2)) * Fin (1 / 2)
         else of_i64 (s ! (n div 2)))"

text \<open>The flags \<^verbatim>\<open>price_anomaly_buf_\<close>.\<close>

definition price_anomaly :: "detector \<Rightarrow> venue_book list \<Rightarrow> venue_book \<Rightarrow> bool" where
  "price_anomaly d venues vb =
     (if Fin 0 < max_price_deviation_pct d then
        (let bids = map bid_tick (filter (\<lambda>v. synced v \<and> bid_tick v > 0) venues)
         in if length bids \<ge> 2 then
              (let median = median_bid bids; threshold = median * (max_price_deviation_pct d / Fin 100)
               in synced vb \<and> bid_tick vb > 0 \<and> threshold < \<bar>of_i64 (bid_tick vb) - median\<bar>)
            else False)
      else False)"

definition pair_key :: "venue_book \<Rightarrow> venue_book \<Rightarrow> string" where
  "pair_key sv bv = venue_name sv @ '':'' @ venue_name bv"

definition pair_spread :: "i64 \<Rightarrow> i64 \<Rightarrow> double" where
  "pair_spread bid ask = of_i64 (bid - ask) / (of_i64 (bid + ask) * Fin (1 / 2)) * Fin 10000"

definition net_spread :: "detector \<Rightarrow> venue_book \<Rightarrow> venue_book \<Rightarrow> double" where
  "net_spread d sv bv = pair_spread (bid_tick sv) (ask_tick bv)
     - fee_for d (venue_name sv) - fee_for d (venue_name bv)"

definition mk_cross :: "detector \<Rightarrow> i64 \<Rightarrow> venue_book \<Rightarrow> venue_book \<Rightarrow> ArbCross" where
  "mk_cross d now sv bv =
     \<lparr>sell_venue = venue_name sv, buy_venue = venue_name bv, sell_bid_tick = bid_tick sv,
      buy_ask_tick = ask_tick bv, spread_bps = pair_spread (bid_tick sv) (ask_tick bv),
      net_spread_bps = net_spread d sv bv, ts_detected_ns = now,
      sell_ts_book_ns = ts_book_ns sv, buy_ts_book_ns = ts_book_ns bv\<rparr>"

text \<open>The body of the inner loop, one \<^verbatim>\<open>continue\<close> per branch; the state is the detector and the
  crosses found so far.\<close>

definition scan_buy ::
  "'j json_api \<Rightarrow> i64 \<Rightarrow> venue_book list \<Rightarrow> nat \<Rightarrow> nat \<Rightarrow> detector \<times> ArbCross list \<Rightarrow> detector \<times> ArbCross list" where
  "scan_buy J now venues si bi st =
     (let (d, result) = st; sv = venues ! si; bv = venues ! bi in
      if bi = si then st
      else if \<not> synced bv then st
      else if price_anomaly d venues bv then st
      else if ask_tick bv = 0 then st
      else if bid_tick sv \<le> ask_tick bv then st
      else if max_age_diff_ns d > 0 \<and> now - ts_book_ns sv > max_age_diff_ns d then st
      else if max_age_diff_ns d > 0 \<and> now - ts_book_ns bv > max_age_diff_ns d then st
      else if max_age_diff_ns d > 0 \<and> \<bar>ts_book_ns sv - ts_book_ns bv\<bar> > max_age_diff_ns d then st
      else if of_i64 (bid_tick sv + ask_tick bv) * Fin (1 / 2) \<le> Fin 0 then st
      else if Fin 0 < max_spread_bps d \<and> max_spread_bps d < pair_spread (bid_tick sv) (ask_tick bv) then st
      else if net_spread d sv bv < min_spread_bps d then st
      else let (ok, d1) = check_rate_limit (pair_key sv bv) now d in
           if \<not> ok then st
           else let cross = mk_cross d1 now sv bv in (emit J cross d1, result @ [cross]))"

definition scan_sell ::
  "'j json_api \<Rightarrow> i64 \<Rightarrow> venue_book list \<Rightarrow> nat \<Rightarrow> detector \<times> ArbCross list \<Rightarrow> detector \<times> ArbCross list" where
  "scan_sell J now venues si st =
     (let d = fst st; sv = venues ! si in
      if \<not> synced sv then st
      else if price_anomaly d venues sv then st
      else if bid_tick sv = 0 then st
      else fold (scan_buy J now venues si) [0..<length venues] st)"

definition scan :: "'j json_api \<Rightarrow> i64 \<Rightarrow> venue_book list \<Rightarrow> detector \<Rightarrow> detector \<times> ArbCross list" where
  "scan J now all d =
     (let venues = take kMaxVenues all
      in fold (scan_sell J now venues) [0..<length venues] (d, []))"


section \<open>The scan as a filter of venue pairs\<close>

text \<open>All guards of a directed pair but the rate limiter.\<close>

definition eligible :: "detector \<Rightarrow> i64 \<Rightarrow> venue_book list \<Rightarrow> venue_book \<Rightarrow> venue_book \<Rightarrow> bool" where
  "eligible d now venues sv bv \<longleftrightarrow>
     synced sv \<and> synced bv \<and> \<not> price_anomaly d venues sv \<and> \<not> price_anomaly d venues bv \<and>
     bid_tick sv \<noteq> 0 \<and> ask_tick bv \<noteq> 0 \<and> bid_tick sv > ask_tick bv \<and>
     (max_age_diff_ns d > 0 \<longrightarrow> now - ts_book_ns sv \<le> max_age_diff_ns d \<and>
        now - ts_book_ns bv \<le> max_age_diff_ns d \<and> \<bar>ts_book_ns sv - ts_book_ns bv\<bar> \<le> max_age_diff_ns d) \<and>
     \<not> of_i64 (bid_tick sv + ask_tick bv) * Fin (1 / 2) \<le> Fin 0 \<and>
     \<not> (Fin 0 < max_spread_bps d \<and> max_spread_bps d < pair_spread (bid_tick sv) (ask_tick bv)) \<and>
     \<not> net_spread d sv bv < min_spread_bps d"

definition same_config :: "detector \<Rightarrow> detector \<Rightarrow> bool" where
  "same_config d e \<longleftrightarrow> venue_fee_bps d = venue_fee_bps e \<and> min_spread_bps d = min_spread_bps e \<and>
     max_spread_bps d = max_spread_bps e \<and> rate_limit_ns d = rate_limit_ns e \<and>
     max_age_diff_ns d = max_age_diff_ns e \<and> max_price_deviation_pct d = max_price_deviation_pct e"

lemma same_config_refl [simp]: "same_config d d"
  by (simp add: same_config_def)

lemma same_config_emit: "same_config d (emit J c e) = same_config d e"
  by (simp add: emit_def same_config_def Let_def)

lemma same_config_rate: "same_config d (snd (check_rate_limit k t e)) = same_config d e"
  by (simp add: check_rate_limit_def same_config_def split: option.split)

lemma same_config_guards:
  assumes "same_config d e"
  shows "eligible e now venues sv bv = eligible d now venues sv bv"
    and "mk_cross e now sv bv = mk_cross d now sv bv"
    and "price_anomaly e venues sv = price_anomaly d venues sv"
proof -
  have f: "fee_for e v = fee_for d v" for v using assms by (simp add: fee_for_def same_config_def)
  have p: "price_anomaly e venues v = price_anomaly d venues v" for v
    using assms by (simp add: price_anomaly_def same_config_def)
  show "price_anomaly e venues sv = price_anomaly d venues sv" by (rule p)
  show "mk_cross e now sv bv = mk_cross d now sv bv" by (simp add: mk_cross_def net_spread_def f)
  show "eligible e now venues sv bv = eligible d now venues sv bv"
    using assms by (simp add: eligible_def p net_spread_def f same_config_def)
qed

definition scan_pair ::
  "'j json_api \<Rightarrow> i64 \<Rightarrow> venue_book list \<Rightarrow> detector \<Rightarrow> nat \<times> nat \<Rightarrow> detector \<times> ArbCross list \<Rightarrow> detector \<times> ArbCross list" where
  "scan_pair J now venues cfg p st =
     (let sv = venues ! fst p; bv = venues ! snd p; (ok, d1) = check_rate_limit (pair_key sv bv) now (fst st) in
      if fst p \<noteq> snd p \<and> eligible cfg now venues sv bv \<and> ok
      then (emit J (mk_cross cfg now sv bv) d1, snd st @ [mk_cross cfg now sv bv]) else st)"

lemma scan_pair_config: "same_config cfg (fst (scan_pair J now venues cfg p st)) = same_config cfg (fst st)"
  by (simp add: scan_pair_def Let_def same_config_emit same_config_rate case_prod_beta)

lemma scan_buy_pair:
  assumes "same_config cfg (fst st)" and "synced (venues ! si)"
    and "\<not> price_anomaly cfg venues (venues ! si)" and "bid_tick (venues ! si) \<noteq> 0"
  shows "scan_buy J now venues si bi st = scan_pair J now venues cfg (si, bi) st"
proof -
  obtain d result where st: "st = (d, result)" by (cases st)
  obtain ok d1 where rl: "check_rate_limit (pair_key (venues ! si) (venues ! bi)) now d = (ok, d1)"
    by (cases "check_rate_limit (pair_key (venues ! si) (venues ! bi)) now d")
  have c: "same_config cfg d" "same_config cfg d1"
    using assms(1) same_config_rate [of cfg _ _ d] st rl by (simp, metis fst_conv snd_conv)
  have a: "\<not> price_anomaly d venues (venues ! si)" using assms(3) by (simp add: same_config_guards(3) [OF c(1)])
  have "scan_buy J now venues si bi (d, result) =
    (if si \<noteq> bi \<and> eligible d now venues (venues ! si) (venues ! bi) \<and> ok
     then (emit J (mk_cross d1 now (venues ! si) (venues ! bi)) d1,
       result @ [mk_cross d1 now (venues ! si) (venues ! bi)]) else (d, result))"
  proof (cases "si \<noteq> bi \<and> eligible d now venues (venues ! si) (venues ! bi)")
    case True
    then show ?thesis by (auto simp: scan_buy_def eligible_def rl Let_def)
  next
    case False
    then have "scan_buy J now venues si bi (d, result) = (d, result)"
      using assms(2,4) a by (auto simp: scan_buy_def eligible_def Let_def not_le not_less)
    with False show ?thesis by auto
  qed
  then show ?thesis
    by (simp add: st rl scan_pair_def Let_def same_config_guards(1) [OF c(1)] same_config_guards(2) [OF c(2)])
qed

lemma fold_scan_buy:
  assumes "same_config cfg (fst st)" and "synced (venues ! si)"
    and "\<not> price_anomaly cfg venues (venues ! si)" and "bid_tick (venues ! si) \<noteq> 0"
  shows "fold (scan_buy J now venues si) bis st = fold (scan_pair J now venues cfg) (map (Pair si) bis) st"
  using assms
proof (induction bis arbitrary: st)
  case (Cons bi bis)
  then show ?case by (simp add: scan_buy_pair scan_pair_config)
qed simp

lemma scan_sell_pairs:
  assumes "same_config cfg (fst st)"
  shows "scan_sell J now venues si st = fold (scan_pair J now venues cfg) (map (Pair si) [0..<length venues]) st"
proof (cases "synced (venues ! si) \<and> \<not> price_anomaly cfg venues (venues ! si) \<and> bid_tick (venues ! si) \<noteq> 0")
  case True
  with assms show ?thesis
    by (simp add: scan_sell_def fold_scan_buy same_config_guards(3) [OF assms] Let_def)
next
  case False
  then have "scan_pair J now venues cfg (si, bi) st = st" for bi st
    by (auto simp: scan_pair_def eligible_def Let_def split: prod.split)
  then have "fold (scan_pair J now venues cfg) (map (Pair si) bis) st = st" for bis
    by (induction bis) simp_all
  with False show ?thesis
    by (auto simp: scan_sell_def same_config_guards(3) [OF assms] Let_def)
qed

abbreviation all_pairs :: "nat \<Rightarrow> (nat \<times> nat) list" where
  "all_pairs n \<equiv> List.product [0..<n] [0..<n]"

lemma fold_scan_pair_config:
  "same_config cfg (fst (fold (scan_pair J now venues cfg) ps st)) = same_config cfg (fst st)"
  by (induction ps arbitrary: st) (simp_all add: scan_pair_config)

lemma fold_scan_sell:
  assumes "same_config cfg (fst st)"
  shows "fold (scan_sell J now venues) sis st
    = fold (scan_pair J now venues cfg) (List.product sis [0..<length venues]) st"
  using assms
proof (induction sis arbitrary: st)
  case (Cons si sis)
  then show ?case by (simp add: scan_sell_pairs fold_scan_pair_config)
qed simp

lemma scan_pairs:
  "scan J now all d = fold (scan_pair J now (take kMaxVenues all) d)
     (all_pairs (length (take kMaxVenues all))) (d, [])"
  unfolding scan_def Let_def by (rule fold_scan_sell) simp


section \<open>What a scan reports\<close>

lemma fold_scan_pair_sound:
  assumes "c \<in> set (snd (fold (scan_pair J now venues cfg) ps st))" and "c \<notin> set (snd st)"
  shows "\<exists>p \<in> set ps. fst p \<noteq> snd p \<and> eligible cfg now venues (venues ! fst p) (venues ! snd p) \<and>
    c = mk_cross cfg now (venues ! fst p) (venues ! snd p)"
  using assms
proof (induction ps arbitrary: st)
  case (Cons p ps)
  show ?case
  proof (cases "c \<in> set (snd (scan_pair J now venues cfg p st))")
    case True
    with Cons.prems(2) have "fst p \<noteq> snd p \<and> eligible cfg now venues (venues ! fst p) (venues ! snd p) \<and>
        c = mk_cross cfg now (venues ! fst p) (venues ! snd p)"
      by (auto simp: scan_pair_def Let_def split: prod.splits if_splits)
    then show ?thesis by auto
  next
    case False
    with Cons show ?thesis by auto
  qed
qed simp

text \<open>C14: Every reported cross is real. It comes from two different entries of the scanned books, both
  synced; the bid of the selling venue exceeds the ask of the buying venue; neither venue is a price
  outlier; with an age limit both books are fresh and close in time; the raw spread respects the cap
  and the spread after both fees is not below the minimum.\<close>

theorem reported_crosses_are_real:
  assumes "c \<in> set (snd (scan J now venues d))"
  shows "\<exists>si bi. si \<noteq> bi \<and> si < length venues \<and> bi < length venues \<and>
    (let sv = venues ! si; bv = venues ! bi in
      synced sv \<and> synced bv \<and> sell_venue c = venue_name sv \<and> buy_venue c = venue_name bv \<and>
      sell_bid_tick c = priceTick (best_bid (vb_book sv)) \<and> buy_ask_tick c = priceTick (best_ask (vb_book bv)) \<and>
      sell_bid_tick c > buy_ask_tick c \<and>
      \<not> price_anomaly d (take kMaxVenues venues) sv \<and> \<not> price_anomaly d (take kMaxVenues venues) bv \<and>
      (max_age_diff_ns d > 0 \<longrightarrow> now - ts_book_ns sv \<le> max_age_diff_ns d \<and>
         now - ts_book_ns bv \<le> max_age_diff_ns d \<and> \<bar>ts_book_ns sv - ts_book_ns bv\<bar> \<le> max_age_diff_ns d) \<and>
      \<not> (Fin 0 < max_spread_bps d \<and> max_spread_bps d < spread_bps c) \<and>
      net_spread_bps c = spread_bps c - fee_for d (venue_name sv) - fee_for d (venue_name bv) \<and>
      \<not> net_spread_bps c < min_spread_bps d)"
proof -
  let ?vs = "take kMaxVenues venues"
  have "\<exists>p \<in> set (all_pairs (length ?vs)). fst p \<noteq> snd p \<and>
      eligible d now ?vs (?vs ! fst p) (?vs ! snd p) \<and> c = mk_cross d now (?vs ! fst p) (?vs ! snd p)"
    using assms unfolding scan_pairs by (rule fold_scan_pair_sound) simp
  then obtain p where p: "p \<in> set (all_pairs (length ?vs))" "fst p \<noteq> snd p"
      "eligible d now ?vs (?vs ! fst p) (?vs ! snd p)" "c = mk_cross d now (?vs ! fst p) (?vs ! snd p)"
    by blast
  obtain si bi where [simp]: "p = (si, bi)" by (cases p)
  have i: "si < length venues" "bi < length venues" "?vs ! si = venues ! si" "?vs ! bi = venues ! bi"
    using p(1) by auto
  have "eligible d now ?vs (venues ! si) (venues ! bi)" "c = mk_cross d now (venues ! si) (venues ! bi)"
    using p(3,4) i by simp_all
  with p(2) i(1,2) show ?thesis
    by (intro exI [of _ si] exI [of _ bi])
      (auto simp: mk_cross_def eligible_def bid_tick_def ask_tick_def net_spread_def Let_def)
qed

lemma check_rate_limit_off: "rate_limit_ns d \<le> 0 \<Longrightarrow> check_rate_limit k t d = (True, d)"
  by (simp add: check_rate_limit_def)

lemma fold_scan_pair_complete:
  assumes "rate_limit_ns cfg \<le> 0" and "same_config cfg (fst st)"
  shows "snd (fold (scan_pair J now venues cfg) ps st) = snd st @
    map (\<lambda>p. mk_cross cfg now (venues ! fst p) (venues ! snd p))
      (filter (\<lambda>p. fst p \<noteq> snd p \<and> eligible cfg now venues (venues ! fst p) (venues ! snd p)) ps)"
  using assms(2)
proof (induction ps arbitrary: st)
  case (Cons p ps)
  have "rate_limit_ns (fst st) \<le> 0" using assms(1) Cons.prems by (simp add: same_config_def)
  then have "snd (scan_pair J now venues cfg p st) = snd st @
      (if fst p \<noteq> snd p \<and> eligible cfg now venues (venues ! fst p) (venues ! snd p)
       then [mk_cross cfg now (venues ! fst p) (venues ! snd p)] else [])"
    by (simp add: scan_pair_def check_rate_limit_off Let_def)
  with Cons show ?case by (simp add: scan_pair_config)
qed simp

text \<open>C15: Nothing is missed. With at most 16 books and no rate limit, the scan reports exactly the
  eligible directed pairs, in the order of the two nested loops.\<close>

theorem scan_reports_all_eligible_pairs:
  assumes "rate_limit_ns d \<le> 0" and "length venues \<le> 16"
  shows "snd (scan J now venues d) =
    [mk_cross d now (venues ! si) (venues ! bi). si \<leftarrow> [0..<length venues], bi \<leftarrow> [0..<length venues],
       si \<noteq> bi \<and> eligible d now venues (venues ! si) (venues ! bi)]"
proof -
  have v: "take kMaxVenues venues = venues" using assms(2) by (simp add: kMaxVenues_def)
  have flat: "map f (filter P (List.product xs ys)) = concat (map (\<lambda>x. concat (map (\<lambda>y. if P (x, y) then [f (x, y)] else []) ys)) xs)"
    for f :: "nat \<times> nat \<Rightarrow> ArbCross" and P and xs ys
  proof (induction xs)
    case (Cons x xs)
    have "map f (filter P (map (Pair x) ys)) = concat (map (\<lambda>y. if P (x, y) then [f (x, y)] else []) ys)"
      by (induction ys) auto
    with Cons show ?case by simp
  qed simp
  show ?thesis
    unfolding scan_pairs v fold_scan_pair_complete [OF assms(1), of "(d, [])", simplified] flat
    by (simp cong: if_cong)
qed


subsection \<open>Concrete books\<close>

definition quote :: "string \<Rightarrow> i64 \<Rightarrow> i64 \<Rightarrow> i64 \<Rightarrow> venue_book" where
  "quote v bid ask ts =
     \<lparr>venue_name = v, vb_symbol = ''BTCUSDT'',
      vb_controller = bridge_at_10\<lparr>c_state := Synced, c_book := \<lparr>ob_depth = 5,
        ob_bids = [Level bid 1 '''' ''''], ob_asks = [Level ask 1 '''' '''']\<rparr>\<rparr>,
      ts_book_ns = ts, feed_healthy = True\<rparr>"

definition plain_detector :: "i64 \<Rightarrow> i64 \<Rightarrow> detector" where
  "plain_detector limit age =
     new_ArbDetector (\<lambda>_. True) Map.empty (Fin 0) (Fin 0) limit age (Fin 0) ''out'' 0 Map.empty"

lemma quote_sel [simp]:
  "venue_name (quote v b a ts) = v" "bid_tick (quote v b a ts) = b" "ask_tick (quote v b a ts) = a"
  "ts_book_ns (quote v b a ts) = ts" "synced (quote v b a ts)"
  "best_bid (vb_book (quote v b a ts)) = Level b 1 '''' ''''" "best_ask (vb_book (quote v b a ts)) = Level a 1 '''' ''''"
  by (simp_all add: quote_def bid_tick_def ask_tick_def vb_book_def best_bid_def best_ask_def synced_def isSynced_def)

lemma plain_detector_sel [simp]:
  "rate_limit_ns (plain_detector l a) = l" "max_age_diff_ns (plain_detector l a) = a"
  "max_spread_bps (plain_detector l a) = Fin 0" "min_spread_bps (plain_detector l a) = Fin 0"
  "fee_for (plain_detector l a) v = Fin 0" "price_anomaly (plain_detector l a) vs vb = False"
  "last_emit_ns (plain_detector l a) = Map.empty" "ad_active (plain_detector l a)"
  "ad_open (plain_detector l a)" "write_queue (plain_detector l a) = []" "output_max_bytes (plain_detector l a) = 0"
  "ad_disk (plain_detector l a) (output_path_base (plain_detector l a)) = Some ''''"
  by (simp_all add: plain_detector_def new_ArbDetector_def fee_for_def price_anomaly_def double_ops Let_def)

lemma spread_5_3: "pair_spread 5 3 = Fin 5000" "of_i64 8 * Fin (1 / 2) = Fin 4"
  "Fin 5000 - Fin 0 - Fin 0 = Fin 5000"
  by (simp_all add: pair_spread_def double_ops rnd_simps)

lemma eligible_5_3:
  "eligible (plain_detector l 100) 50 vs (quote v 5 9 10) (quote w 2 3 20)"
  by (simp add: eligible_def spread_5_3 net_spread_def) (simp add: double_ops)

abbreviation two_quotes :: "venue_book list" where
  "two_quotes \<equiv> [quote ''okx'' 5 9 10, quote ''bybit'' 2 3 20]"

lemma scan_two_quotes:
  "snd (scan J 50 two_quotes (plain_detector l 100))
     = [mk_cross (plain_detector l 100) 50 (quote ''okx'' 5 9 10) (quote ''bybit'' 2 3 20)]"
  unfolding scan_pairs
  by (simp add: kMaxVenues_def eligible_5_3 scan_pair_def check_rate_limit_def upt_rec numeral_2_eq_2 Let_def)
    (simp add: eligible_def)


theorem reported_crosses_are_real_witness:
  "\<exists>si bi. si \<noteq> bi \<and> si < length two_quotes \<and> bi < length two_quotes \<and>
    synced (two_quotes ! si) \<and> synced (two_quotes ! bi)"
  using reported_crosses_are_real
    [of "mk_cross (plain_detector 0 100) 50 (quote ''okx'' 5 9 10) (quote ''bybit'' 2 3 20)" tree_api 50
      two_quotes "plain_detector 0 100"]
  unfolding scan_two_quotes Let_def by (simp del: quote_sel) blast

theorem scan_reports_all_eligible_pairs_witness:
  "snd (scan tree_api 50 two_quotes (plain_detector 0 100)) =
    [mk_cross (plain_detector 0 100) 50 (two_quotes ! si) (two_quotes ! bi).
       si \<leftarrow> [0..<2], bi \<leftarrow> [0..<2], si \<noteq> bi \<and>
       eligible (plain_detector 0 100) 50 two_quotes (two_quotes ! si) (two_quotes ! bi)]"
  using scan_reports_all_eligible_pairs [of "plain_detector 0 100" two_quotes tree_api 50]
  by (simp add: numeral_2_eq_2)

section \<open>Rate limiting\<close>

definition run_scan :: "'j json_api \<Rightarrow> i64 \<times> venue_book list \<Rightarrow> detector \<times> ArbCross list \<Rightarrow> detector \<times> ArbCross list" where
  "run_scan J tv st = (let (d, new) = scan J (fst tv) (snd tv) (fst st) in (d, snd st @ new))"

definition same_pair :: "ArbCross \<Rightarrow> ArbCross \<Rightarrow> bool" where
  "same_pair a b \<longleftrightarrow> sell_venue a = sell_venue b \<and> buy_venue a = buy_venue b"

abbreviation cross_log :: "ArbCross list \<Rightarrow> (string \<times> i64) list" where
  "cross_log cs \<equiv> map (\<lambda>c. (sell_venue c @ '':'' @ buy_venue c, ts_detected_ns c)) cs"

definition limited :: "i64 \<Rightarrow> detector \<Rightarrow> bool" where
  "limited limit d \<longleftrightarrow> 0 < limit \<and> rate_limit_ns d = limit"

interpretation rate: spacing_limiter limit check_rate_limit last_emit_ns "limited limit" for limit
  by unfold_locales (auto simp: limited_def check_rate_limit_def split: option.splits if_splits)

definition rate_inv :: "i64 \<Rightarrow> detector \<times> ArbCross list \<Rightarrow> bool" where
  "rate_inv limit st \<longleftrightarrow> limited limit (fst st) \<and> spaced_log limit (cross_log (snd st)) \<and>
     tracked_log (last_emit_ns (fst st)) (cross_log (snd st))"

lemma emit_rate [simp]: "limited limit (emit J c d) = limited limit d" "last_emit_ns (emit J c d) = last_emit_ns d"
  by (simp_all add: emit_def limited_def Let_def)

lemma rate_inv_pair:
  assumes "rate_inv limit st"
  shows "rate_inv limit (scan_pair J now venues cfg p st)"
proof -
  let ?k = "pair_key (venues ! fst p) (venues ! snd p)"
  let ?c = "mk_cross cfg now (venues ! fst p) (venues ! snd p)"
  have k: "cross_log [?c] = [(?k, now)]" by (simp add: mk_cross_def pair_key_def)
  show ?thesis
  proof (cases "fst p \<noteq> snd p \<and> eligible cfg now venues (venues ! fst p) (venues ! snd p) \<and>
      fst (check_rate_limit ?k now (fst st))")
    case True
    then have "scan_pair J now venues cfg p st =
        (emit J ?c (snd (check_rate_limit ?k now (fst st))), snd st @ [?c])"
      by (simp add: scan_pair_def case_prod_beta Let_def)
    with True assms k show ?thesis
      using rate.admit_logs [of limit "fst st" ?k now "cross_log (snd st)"] rate.ok_admit [of limit "fst st" ?k now]
      by (simp add: rate_inv_def)
  next
    case False
    then have "scan_pair J now venues cfg p st = st"
      by (auto simp: scan_pair_def Let_def case_prod_beta)
    with assms show ?thesis by simp
  qed
qed

lemma rate_inv_fold: "rate_inv limit st \<Longrightarrow> rate_inv limit (fold (scan_pair J now venues cfg) ps st)"
  by (induction ps arbitrary: st) (simp_all add: rate_inv_pair)


lemma scan_pair_append:
  "scan_pair J now venues cfg p (d, r0 @ r) = map_prod id ((@) r0) (scan_pair J now venues cfg p (d, r))"
  by (simp add: scan_pair_def Let_def case_prod_beta)

lemma fold_scan_pair_append:
  "fold (scan_pair J now venues cfg) ps (d, r0 @ r) = map_prod id ((@) r0) (fold (scan_pair J now venues cfg) ps (d, r))"
proof (induction ps arbitrary: d r)
  case (Cons p ps)
  obtain d1 r1 where "scan_pair J now venues cfg p (d, r) = (d1, r1)" by fastforce
  with Cons.IH [of d1 r1] show ?case by (simp add: scan_pair_append)
qed simp

lemma run_scan_pairs:
  "run_scan J (now, all) st = fold (scan_pair J now (take kMaxVenues all) (fst st))
     (all_pairs (length (take kMaxVenues all))) st"
  using fold_scan_pair_append [of J now "take kMaxVenues all" "fst st" _ "fst st" "snd st" "[]"]
  by (simp add: run_scan_def scan_pairs case_prod_beta prod_eq_iff)

text \<open>C16: The rate limiter. Over any sequence of scans by one detector, at any clock values, two
  reported crosses of the same selling and buying venue are at least the rate limit apart.\<close>

theorem rate_limit_spaces_signals:
  assumes "0 < rate_limit_ns d" and "last_emit_ns d = Map.empty"
  shows "sorted_wrt (\<lambda>a b. same_pair a b \<longrightarrow> rate_limit_ns d \<le> ts_detected_ns b - ts_detected_ns a)
    (snd (fold (run_scan J) scans (d, [])))"
proof -
  have "rate_inv (rate_limit_ns d) (d, [])" using assms by (simp add: rate_inv_def limited_def)
  then have "rate_inv (rate_limit_ns d) (fold (run_scan J) scans (d, []))"
  proof (induction scans rule: rev_induct)
    case (snoc tv scans)
    obtain now all where "tv = (now, all)" by (cases tv)
    with snoc show ?case by (simp add: run_scan_pairs rate_inv_fold)
  qed simp
  then have "sorted_wrt (\<lambda>a b. sell_venue a @ '':'' @ buy_venue a = sell_venue b @ '':'' @ buy_venue b \<longrightarrow>
      rate_limit_ns d \<le> ts_detected_ns b - ts_detected_ns a) (snd (fold (run_scan J) scans (d, [])))"
    by (simp add: rate_inv_def spaced_log_def sorted_wrt_map)
  then show ?thesis by (rule sorted_wrt_mono_rel [rotated]) (simp add: same_pair_def)
qed

theorem rate_limit_spaces_signals_witness:
  "sorted_wrt (\<lambda>a b. same_pair a b \<longrightarrow> 1000 \<le> ts_detected_ns b - ts_detected_ns a)
    (snd (fold (run_scan tree_api) [(50, two_quotes), (60, two_quotes)] (plain_detector 1000 100, [])))"
  using rate_limit_spaces_signals [of "plain_detector 1000 100" tree_api "[(50, two_quotes), (60, two_quotes)]"] by simp

section \<open>Emission and the output file\<close>

text \<open>What an active detector with an open file does with the reported crosses.\<close>

definition emitted :: "detector \<Rightarrow> ArbCross list \<Rightarrow> detector \<Rightarrow> bool" where
  "emitted d cs d' \<longleftrightarrow>
     (if ad_active d
      then crosses_total d' = crosses_total d + of_nat (length cs) \<and>
           ad_signals d' = (if has_callback d then ad_signals d @ cs else ad_signals d)
      else crosses_total d' = crosses_total d \<and> ad_signals d' = ad_signals d \<and>
           write_queue d' = write_queue d \<and> latency_hist d' = latency_hist d \<and> last_cross_ns d' = last_cross_ns d) \<and>
     ad_active d' = ad_active d \<and> has_callback d' = has_callback d"

lemma rate_frame:
  "ad_active (snd (check_rate_limit k t d)) = ad_active d" "has_callback (snd (check_rate_limit k t d)) = has_callback d"
  "crosses_total (snd (check_rate_limit k t d)) = crosses_total d" "ad_signals (snd (check_rate_limit k t d)) = ad_signals d"
  "write_queue (snd (check_rate_limit k t d)) = write_queue d" "latency_hist (snd (check_rate_limit k t d)) = latency_hist d"
  "last_cross_ns (snd (check_rate_limit k t d)) = last_cross_ns d" "ad_open (snd (check_rate_limit k t d)) = ad_open d"
  "ad_disk (snd (check_rate_limit k t d)) = ad_disk d" "output_path_base (snd (check_rate_limit k t d)) = output_path_base d"
  "output_max_bytes (snd (check_rate_limit k t d)) = output_max_bytes d"
  by (simp_all add: check_rate_limit_def split: option.split)

lemma emitted_emit: "emitted d cs e \<Longrightarrow> emitted d (cs @ [c]) (emit J c (snd (check_rate_limit k t e)))"
  by (auto simp: emitted_def emit_def rate_frame Let_def algebra_simps)

lemma scan_pair_cases:
  obtains (skip) "scan_pair J now venues cfg p st = st"
  | (cross) "scan_pair J now venues cfg p st =
      (emit J (mk_cross cfg now (venues ! fst p) (venues ! snd p))
         (snd (check_rate_limit (pair_key (venues ! fst p) (venues ! snd p)) now (fst st))),
       snd st @ [mk_cross cfg now (venues ! fst p) (venues ! snd p)])"
proof (cases "fst p \<noteq> snd p \<and> eligible cfg now venues (venues ! fst p) (venues ! snd p) \<and>
    fst (check_rate_limit (pair_key (venues ! fst p) (venues ! snd p)) now (fst st))")
  case True
  then show thesis by (intro cross) (simp add: scan_pair_def Let_def case_prod_beta)
next
  case False
  then show thesis by (intro skip) (auto simp: scan_pair_def Let_def case_prod_beta)
qed

lemma emitted_fold:
  "emitted d (snd st) (fst st) \<Longrightarrow> emitted d (snd (fold (scan_pair J now venues cfg) ps st)) (fst (fold (scan_pair J now venues cfg) ps st))"
proof (induction ps arbitrary: st)
  case (Cons p ps)
  have "emitted d (snd (scan_pair J now venues cfg p st)) (fst (scan_pair J now venues cfg p st))"
    by (cases rule: scan_pair_cases [of J now venues cfg p st]) (simp_all add: Cons.prems emitted_emit)
  with Cons.IH show ?case by simp
qed simp

text \<open>Standby mode. A scan hands exactly the reported crosses, in order, to the signal callback of
  an active detector; a detector in standby still reports them to the caller but changes no counter,
  calls no callback and queues no output line.\<close>

theorem scan_emits_only_when_active:
  "let (d', cs) = scan J now venues d in
     if ad_active d
     then crosses_total d' = crosses_total d + of_nat (length cs) \<and>
          ad_signals d' = (if has_callback d then ad_signals d @ cs else ad_signals d)
     else crosses_total d' = crosses_total d \<and> ad_signals d' = ad_signals d \<and>
          write_queue d' = write_queue d \<and> latency_hist d' = latency_hist d \<and> last_cross_ns d' = last_cross_ns d"
proof -
  have "emitted d (snd (d, [])) (fst (d, []))" by (simp add: emitted_def)
  from emitted_fold [OF this] show ?thesis
    unfolding scan_pairs emitted_def Let_def case_prod_beta by blast
qed


interpretation cross_queue: drop_oldest_queue kWriteQueueCap "push_if kWriteQueueCap"
  by (rule push_if_queue) (simp add: kWriteQueueCap_def)

definition queued :: "'j json_api \<Rightarrow> detector \<Rightarrow> ArbCross list \<Rightarrow> detector \<Rightarrow> bool" where
  "queued J d cs d' \<longleftrightarrow>
     write_queue d' = fold (push_if kWriteQueueCap) (map (cross_line J) cs) (write_queue d) \<and>
     ad_active d' \<and> ad_open d' \<and> output_max_bytes d' = output_max_bytes d \<and>
     ad_disk d' = ad_disk d \<and> output_path_base d' = output_path_base d"

lemma queued_emit: "queued J d cs e \<Longrightarrow> queued J d (cs @ [c]) (emit J c (snd (check_rate_limit k t e)))"
  by (auto simp: queued_def emit_def rate_frame Let_def)

lemma queued_fold:
  "queued J d (snd st) (fst st) \<Longrightarrow> queued J d (snd (fold (scan_pair J now venues cfg) ps st)) (fst (fold (scan_pair J now venues cfg) ps st))"
proof (induction ps arbitrary: st)
  case (Cons p ps)
  have "queued J d (snd (scan_pair J now venues cfg p st)) (fst (scan_pair J now venues cfg p st))"
    by (cases rule: scan_pair_cases [of J now venues cfg p st]) (simp_all add: Cons.prems queued_emit)
  with Cons.IH show ?case by simp
qed simp

lemma fold_scan_pair_length:
  "length (snd (fold (scan_pair J now venues cfg) ps st)) \<le> length (snd st) + length ps"
proof (induction ps arbitrary: st)
  case (Cons p ps)
  have "length (snd (scan_pair J now venues cfg p st)) \<le> Suc (length (snd st))"
    by (cases rule: scan_pair_cases [of J now venues cfg p st]) simp_all
  with Cons.IH [of "scan_pair J now venues cfg p st"] show ?case by simp
qed simp

lemma scan_length: "length (snd (scan J now venues d)) \<le> 256"
proof -
  let ?n = "length (take kMaxVenues venues)"
  have n: "?n \<le> 16" by (simp add: kMaxVenues_def)
  then have "?n * ?n \<le> 16 * 16" by (rule mult_le_mono [OF n])
  then show ?thesis
    using fold_scan_pair_length [of J now "take kMaxVenues venues" d "all_pairs ?n" "(d, [])"]
    unfolding scan_pairs by simp
qed

lemma fold_write_line:
  assumes "ad_open d" and "output_max_bytes d = 0" and "ad_disk d (output_path_base d) = Some old"
  shows "ad_disk (fold (write_line opens) ls d) (output_path_base d) = Some (old @ concat ls)"
  using assms
proof (induction ls arbitrary: d old)
  case (Cons l ls)
  let ?d = "write_line opens l d"
  have "ad_open ?d" "output_max_bytes ?d = 0" "output_path_base ?d = output_path_base d"
      "ad_disk ?d (output_path_base ?d) = Some (old @ l)"
    using Cons.prems by (simp_all add: write_line_def Let_def)
  with Cons.IH [of ?d "old @ l"] show ?case by simp
qed simp

text \<open>C17: Every reported cross reaches the output file. For an active detector with an open file, no
  rotation and an empty queue, a scan followed by \<^verbatim>\<open>flush\<close> appends exactly one line per reported cross,
  in order: the bounded queue cannot overflow within one scan.\<close>

theorem crosses_reach_the_file:
  assumes "ad_active d" and "ad_open d" and "output_max_bytes d = 0" and "write_queue d = []"
    and "ad_disk d (output_path_base d) = Some old" and "scan J now venues d = (d', cs)"
  shows "ad_disk (flush_detector opens d') (output_path_base d) = Some (old @ concat (map (cross_line J) cs))"
proof -
  have "queued J d (snd (d, [])) (fst (d, []))" using assms by (simp add: queued_def)
  from queued_fold [OF this] have q: "queued J d cs d'"
    using assms(6) unfolding scan_pairs by (metis fst_conv snd_conv)
  have "length cs \<le> 256" using scan_length [of J now venues d] assms(6) by simp
  then have "write_queue d' = map (cross_line J) cs"
    using q assms(4) cross_queue.fold_push_room [of "[]" "map (cross_line J) cs"]
    by (simp add: queued_def kWriteQueueCap_def)
  then show ?thesis
    using fold_write_line [of "d'\<lparr>write_stop := True, write_queue := []\<rparr>" old opens "map (cross_line J) cs"]
      q assms(3,5) by (simp add: flush_detector_def queued_def)
qed

theorem crosses_reach_the_file_witness:
  "ad_disk (flush_detector (\<lambda>_. True) (fst (scan tree_api 50 two_quotes (plain_detector 0 100)))) ''out''
    = Some (cross_line tree_api (mk_cross (plain_detector 0 100) 50 (quote ''okx'' 5 9 10) (quote ''bybit'' 2 3 20)))"
proof -
  have "output_path_base (plain_detector 0 100) = ''out''" by (simp add: plain_detector_def new_ArbDetector_def Let_def)
  moreover have "scan tree_api 50 two_quotes (plain_detector 0 100)
      = (fst (scan tree_api 50 two_quotes (plain_detector 0 100)),
         [mk_cross (plain_detector 0 100) 50 (quote ''okx'' 5 9 10) (quote ''bybit'' 2 3 20)])"
    using scan_two_quotes [of tree_api 0] by (metis prod.collapse)
  ultimately show ?thesis
    using crosses_reach_the_file [of "plain_detector 0 100" "''''" tree_api 50 two_quotes
        "fst (scan tree_api 50 two_quotes (plain_detector 0 100))"
        "[mk_cross (plain_detector 0 100) 50 (quote ''okx'' 5 9 10) (quote ''bybit'' 2 3 20)]" "\<lambda>_. True"]
      plain_detector_sel(12) [of 0 100]
    by (simp del: quote_sel)
qed

section \<open>Accuracy of the spread\<close>

lemma rnd_of_pos: "0 < x \<Longrightarrow> rnd x = of_rounded (rnd_pos x)"
  by (simp add: rnd_def)

lemma of_rounded_fin: "0 \<le> m \<Longrightarrow> m < 2 ^ 1024 \<Longrightarrow> of_rounded m = Fin m"
  by (simp add: of_rounded_def)

lemma rnd_relative:
  assumes "pow2 (- 60) \<le> x" and "x \<le> 2 ^ 60"
  obtains y where "rnd x = Fin y" and "\<bar>y - x\<bar> \<le> x * pow2 (- 53)"
proof -
  have pos: "0 < x" using assms(1) pow2_pos(1) [of "- 60"] by linarith
  have "pow2 (- 1022) \<le> pow2 (- 60)" by (rule pow2_mono) simp
  with assms have err: "\<bar>rnd_pos x - x\<bar> \<le> x * pow2 (- 53)" by (intro rnd_pos_error) linarith
  have "x * pow2 (- 53) \<le> x * 1" using pos pow2_mono [of "- 53" 0] by (intro mult_left_mono) (simp_all add: pow2_def)
  with err have "rnd_pos x \<le> 2 * x" by (simp add: abs_le_iff)
  also have "\<dots> \<le> 2 ^ 61" using assms(2) by simp
  also have "\<dots> < 2 ^ 1024" by simp
  finally show thesis
    using that [of "rnd_pos x"] err rnd_of_pos [OF pos] of_rounded_fin rnd_pos_nonneg [OF pos] by simp
qed


lemma relative_bounds:
  assumes "0 < (q :: rat)" and "\<bar>z - q\<bar> \<le> q * e" and "0 \<le> e" and "e \<le> 1 / 2"
  shows "q / 2 \<le> z" and "z \<le> 2 * q"
proof -
  have "q * e \<le> q * (1 / 2)" using assms by (intro mult_left_mono) simp_all
  then show "q / 2 \<le> z" "z \<le> 2 * q" using assms(1,2) unfolding abs_le_iff by linarith+
qed

text \<open>The quotient and its scaling to basis points: two roundings of a ratio in range.\<close>

lemma two_roundings:
  assumes "pow2 (- 53) \<le> q" and "q \<le> 2"
  obtains z y where "rnd q = Fin z" and "rnd (z * 10000) = Fin y" and "0 \<le> y" and "y \<le> 20000"
    and "\<bar>y - 10000 * q\<bar> \<le> 10000 * q / 2 ^ 51"
proof -
  define e where "e = pow2 (- 53)"
  have e: "e = 1 / 2 ^ 53" and e0: "0 \<le> e" "e \<le> 1 / 2" by (simp_all add: e_def pow2_def)
  have p: "pow2 (- 60) \<le> pow2 (- 53)" by (rule pow2_mono) simp
  have q0: "0 < q" using assms(1) pow2_pos(1) [of "- 53"] by linarith
  have "pow2 (- 60) \<le> q" "q \<le> 2 ^ 60" using assms p by simp_all
  then obtain z where z: "rnd q = Fin z" "\<bar>z - q\<bar> \<le> q * pow2 (- 53)" by (rule rnd_relative)
  note zb = relative_bounds [OF q0 z(2) [folded e_def] e0]
  have z2: "z \<le> 2" using rnd_mono [OF assms(2)] z(1) by (simp add: rnd_simps double_ops)
  have "pow2 (- 60) \<le> z * 10000" using zb(1) assms(1) q0 p by linarith
  moreover have "z * 10000 \<le> 2 ^ 60" using z2 by simp
  ultimately obtain y where y: "rnd (z * 10000) = Fin y" "\<bar>y - z * 10000\<bar> \<le> z * 10000 * pow2 (- 53)" by (rule rnd_relative)
  have "Fin 0 \<le> rnd (z * 10000)" "rnd (z * 10000) \<le> Fin 20000"
    using rnd_mono [of 0 "z * 10000"] rnd_mono [of "z * 10000" 20000] zb(1) q0 z2 by (simp_all add: rnd_simps)
  then have yb: "0 \<le> y" "y \<le> 20000" by (simp_all add: y(1) double_ops)
  have "\<bar>y - 10000 * q\<bar> \<le> z * 10000 * e + 10000 * (q * e)"
    using y(2) z(2) unfolding e_def [symmetric] abs_le_iff by linarith
  also have "z * 10000 * e \<le> 2 * q * 10000 * e" using zb(2) by (simp add: e)
  finally have "\<bar>y - 10000 * q\<bar> \<le> 30000 * (q * e)" by (simp add: mult.commute)
  also have "\<dots> \<le> 10000 * q / 2 ^ 51" using q0 by (simp add: e)
  finally show thesis by (rule that [OF z(1) y(1) yb])
qed

text \<open>C18: Accuracy of the floating point spread. For positive ticks with an exact sum, the computed
  spread is finite, at most 20000 basis points, and within relative error \<open>2^-51\<close> of the exact
  spread between bid and ask over their mid price.\<close>

theorem spread_accuracy:
  assumes "0 < ask" and "ask < bid" and "bid + ask < 2 ^ 53"
  shows "\<exists>y. pair_spread bid ask = Fin y \<and> 0 \<le> y \<and> y \<le> 20000 \<and>
    (let exact = 20000 * of_int (bid - ask) / of_int (bid + ask) in \<bar>y - exact\<bar> \<le> exact / 2 ^ 51)"
proof -
  let ?s = "of_int (bid - ask) :: rat" and ?m = "of_int (bid + ask) / 2 :: rat"
  have s: "of_i64 (bid - ask) = Fin ?s" and b: "of_i64 (bid + ask) = Fin (of_int (bid + ask))"
    using assms by (simp_all only: of_i64_exact)
  have pos: "0 < ?s" "0 < ?m" using assms by simp_all
  have lo: "1 \<le> ?s" using assms by (metis of_int_1_le_iff zle_diff1_eq zless_iff_Suc_zadd diff_gt_0_iff_gt int_one_le_iff_zero_less)
  have "(of_int (bid + ask) :: rat) < of_int (2 ^ 53)" using assms(3) by (simp only: of_int_less_iff)
  then have hi: "?m < 2 ^ 53" by simp
  have "rnd_pos ?m = ?m" using rnd_pos_exact [of "bid + ask" "- 1"] assms by (simp add: pow2_def)
  then have m: "of_i64 (bid + ask) * Fin (1 / 2) = Fin ?m"
    using pos(2) hi by (simp add: b double_ops rnd_of_pos of_rounded_fin)
  define q where "q = ?s / ?m"
  have "?s \<le> 2 * ?m" using assms by simp
  then have q_hi: "q \<le> 2" using pos by (simp add: q_def pos_divide_le_eq)
  have "pow2 (- 53) * ?m \<le> pow2 (- 53) * pow2 53" using hi by (intro mult_left_mono) (simp_all add: pow2_def)
  then have "pow2 (- 53) * ?m \<le> ?s" using lo unfolding pow2_add [symmetric] by (simp add: pow2_def)
  then have "pow2 (- 53) \<le> q" using pos by (simp add: q_def pos_le_divide_eq)
  then obtain z y where y: "rnd q = Fin z" "rnd (z * 10000) = Fin y" "0 \<le> y" "y \<le> 20000"
    "\<bar>y - 10000 * q\<bar> \<le> 10000 * q / 2 ^ 51"
    using q_hi by (rule two_roundings)
  have "pair_spread bid ask = Fin y"
    unfolding pair_spread_def m s using y(1,2) pos(2) by (simp add: q_def double_ops)
  moreover have "20000 * of_int (bid - ask) / of_int (bid + ask) = 10000 * q" by (simp add: q_def)
  ultimately show ?thesis unfolding Let_def using y(3-5) by auto
qed

theorem spread_accuracy_witness:
  "\<exists>y. pair_spread 5 3 = Fin y \<and> 0 \<le> y \<and> y \<le> 20000 \<and> \<bar>y - 5000\<bar> \<le> 5000 / 2 ^ 51"
  using spread_accuracy [of 3 5] by (simp add: Let_def mult.commute)


section \<open>Symbols are not compared\<close>

lemma relabel_sel [simp]:
  "synced (vb\<lparr>vb_symbol := s\<rparr>) = synced vb" "bid_tick (vb\<lparr>vb_symbol := s\<rparr>) = bid_tick vb"
  "ask_tick (vb\<lparr>vb_symbol := s\<rparr>) = ask_tick vb"
  by (simp_all add: synced_def bid_tick_def ask_tick_def vb_book_def)

lemma relabel_anomaly:
  "price_anomaly d (map (\<lambda>vb. vb\<lparr>vb_symbol := f vb\<rparr>) vs) (vb\<lparr>vb_symbol := s\<rparr>) = price_anomaly d vs vb"
  by (simp add: price_anomaly_def filter_map comp_def)

lemma relabel_pair:
  assumes "i < length vs" and "k < length vs"
  shows "scan_pair J now (map (\<lambda>vb. vb\<lparr>vb_symbol := f vb\<rparr>) vs) cfg (i, k) st = scan_pair J now vs cfg (i, k) st"
proof -
  have "eligible cfg now (map (\<lambda>vb. vb\<lparr>vb_symbol := f vb\<rparr>) vs) (sv\<lparr>vb_symbol := s\<rparr>) (bv\<lparr>vb_symbol := t\<rparr>)
      = eligible cfg now vs sv bv" "pair_key (sv\<lparr>vb_symbol := s\<rparr>) (bv\<lparr>vb_symbol := t\<rparr>) = pair_key sv bv"
      "mk_cross cfg now (sv\<lparr>vb_symbol := s\<rparr>) (bv\<lparr>vb_symbol := t\<rparr>) = mk_cross cfg now sv bv" for sv bv s t
    by (simp_all add: eligible_def relabel_anomaly mk_cross_def net_spread_def pair_key_def)
  with assms show ?thesis by (simp add: scan_pair_def Let_def cong: if_cong)
qed

text \<open>The detector does not look at symbols. Relabelling the symbols of the books in any way
  changes neither the reported crosses nor the detector's state, so books of different instruments
  are crossed with each other, also within one venue.\<close>

theorem scan_ignores_symbols:
  "scan J now (map (\<lambda>vb. vb\<lparr>vb_symbol := f vb\<rparr>) venues) d = scan J now venues d"
proof -
  let ?vs = "take kMaxVenues venues"
  have "fold (scan_pair J now (map (\<lambda>vb. vb\<lparr>vb_symbol := f vb\<rparr>) ?vs) d) ps st = fold (scan_pair J now ?vs d) ps st"
    if "set ps \<subseteq> {0..<length ?vs} \<times> {0..<length ?vs}" for ps st
    using that
  proof (induction ps arbitrary: st)
    case (Cons p ps)
    then show ?case by (cases p) (simp add: relabel_pair)
  qed simp
  from this [of "all_pairs (length ?vs)" "(d, [])"] show ?thesis
    unfolding scan_pairs by (simp add: take_map)
qed

end
