(* ===== verification/ExecEngine.thy ===== *)
theory ExecEngine
  imports ArbDetector
begin

text \<open>
  The execution process: orders and fills (\<^verbatim>\<open>exec/include/exec/IOrderClient.hpp\<close>), the deadline
  tracker (\<^verbatim>\<open>DeadlineOrderTracker\<close>), the dry-run and stub order clients, the immediate strategy, the
  guard chain of \<^verbatim>\<open>ExecEngine\<close>, and their assembly on one strand in \<^verbatim>\<open>exec/app/exec.cpp\<close>. Handlers
  posted on the strand are an explicit first-in first-out list; the expiry of a confirmation timer
  is an event that posts the timer's handler, so that a fill can still overtake it. Log calls are
  left out; the clock of a submission is an argument.
\<close>

section \<open>Orders and fills\<close>

datatype order_side = BUY | SELL

record Order =
  o_venue :: string
  o_side :: order_side
  o_price_tick :: i64
  o_quantity :: double
  client_order_id :: string

record Fill =
  f_client_order_id :: string
  filled_qty :: double
  fill_price_tick :: i64
  f_ts_ns :: i64

text \<open>What can be posted on the strand: a submission callback without error, the handler of an
  expired timer, a cancellation callback.\<close>

datatype handler = FillHandler Fill | TimeoutHandler string | CancelHandler string

section \<open>Deadline tracker\<close>

record tracker =
  t_pending :: "string \<rightharpoonup> Order"
  t_armed :: "string set"
  t_timeouts :: "string list"

definition new_tracker :: tracker where
  "new_tracker = \<lparr>t_pending = Map.empty, t_armed = {}, t_timeouts = []\<rparr>"

text \<open>\<^verbatim>\<open>emplace\<close> keeps an existing entry; the new timer is then destroyed, which aborts its wait.\<close>

definition register_pending :: "Order \<Rightarrow> tracker \<Rightarrow> tracker" where
  "register_pending ord t =
     (if t_pending t (client_order_id ord) \<noteq> None then t
      else t\<lparr>t_pending := (t_pending t)(client_order_id ord \<mapsto> ord),
             t_armed := insert (client_order_id ord) (t_armed t)\<rparr>)"

definition tracker_on_fill :: "Fill \<Rightarrow> tracker \<Rightarrow> tracker" where
  "tracker_on_fill fill t =
     (case t_pending t (f_client_order_id fill) of None \<Rightarrow> t
      | Some _ \<Rightarrow> t\<lparr>t_pending := (t_pending t)(f_client_order_id fill := None),
                    t_armed := t_armed t - {f_client_order_id fill}\<rparr>)"

definition timer_expires :: "string \<Rightarrow> tracker \<Rightarrow> tracker \<times> handler list" where
  "timer_expires oid t =
     (if oid \<in> t_armed t then (t\<lparr>t_armed := t_armed t - {oid}\<rparr>, [TimeoutHandler oid]) else (t, []))"

definition on_timeout :: "string \<Rightarrow> tracker \<Rightarrow> tracker" where
  "on_timeout oid t = t\<lparr>t_pending := (t_pending t)(oid := None), t_armed := t_armed t - {oid},
                        t_timeouts := t_timeouts t @ [oid]\<rparr>"

definition cancel_all :: "tracker \<Rightarrow> tracker" where
  "cancel_all t = t\<lparr>t_pending := Map.empty, t_armed := {}\<rparr>"

definition pending_count :: "tracker \<Rightarrow> nat" where
  "pending_count t = card (dom (t_pending t))"

section \<open>Order clients\<close>

datatype order_client = DryRunOrderClient | StubOrderClient

definition synthetic_fill :: "i64 \<Rightarrow> Order \<Rightarrow> Fill" where
  "synthetic_fill now ord = \<lparr>f_client_order_id = client_order_id ord, filled_qty = o_quantity ord,
     fill_price_tick = o_price_tick ord, f_ts_ns = now\<rparr>"

fun submit_order :: "order_client \<Rightarrow> i64 \<Rightarrow> Order \<Rightarrow> handler list" where
  "submit_order DryRunOrderClient now ord = [FillHandler (synthetic_fill now ord)]"
| "submit_order StubOrderClient now ord = [FillHandler (synthetic_fill now ord)]"

fun cancel_order :: "order_client \<Rightarrow> string \<Rightarrow> handler list" where
  "cancel_order DryRunOrderClient oid = [CancelHandler oid]"
| "cancel_order StubOrderClient oid = [CancelHandler oid]"

section \<open>Immediate strategy\<close>

record strategy =
  s_my_venue :: string
  s_target_qty :: double
  s_paused :: bool
  order_seq :: u64

definition new_ImmediateStrategy :: "string \<Rightarrow> double \<Rightarrow> strategy" where
  "new_ImmediateStrategy v q = \<lparr>s_my_venue = v, s_target_qty = q, s_paused = False, order_seq = 0\<rparr>"

definition next_order_id :: "strategy \<Rightarrow> string \<times> strategy" where
  "next_order_id s =
     (let n = order_seq s + 1 in (s_my_venue s @ ''-'' @ nat_str (unat n), s\<lparr>order_seq := n\<rparr>))"

text \<open>The order to register and submit, if any.\<close>

definition strategy_on_signal :: "ArbCross \<Rightarrow> strategy \<Rightarrow> Order option \<times> strategy" where
  "strategy_on_signal cross s =
     (if s_paused s then (None, s)
      else case (if sell_venue cross = s_my_venue s then Some (SELL, sell_bid_tick cross)
                 else if buy_venue cross = s_my_venue s then Some (BUY, buy_ask_tick cross)
                 else None) of
        None \<Rightarrow> (None, s)
      | Some (sd, price_tick) \<Rightarrow>
          (let level_qty = Fin 0; qty = (if Fin 0 < s_target_qty s then s_target_qty s else level_qty)
           in if qty \<le> Fin 0 then (None, s)
              else let (oid, s1) = next_order_id s
                   in (Some \<lparr>o_venue = s_my_venue s, o_side = sd, o_price_tick = price_tick,
                             o_quantity = qty, client_order_id = oid\<rparr>, s1)))"

definition strategy_pause :: "strategy \<Rightarrow> strategy" where
  "strategy_pause s = s\<lparr>s_paused := True\<rparr>"

definition strategy_resume :: "strategy \<Rightarrow> strategy" where
  "strategy_resume s = s\<lparr>s_paused := False\<rparr>"

section \<open>Engine\<close>

record engine =
  e_my_venue :: string
  e_paused :: bool
  open_notional :: double
  last_signal_ns :: "string \<rightharpoonup> i64"
  position_limit :: double
  max_order_notional :: double
  cooldown_ns :: i64

definition new_ExecEngine :: "string \<Rightarrow> double \<Rightarrow> double \<Rightarrow> i64 \<Rightarrow> engine" where
  "new_ExecEngine v limit max_notional cooldown =
     \<lparr>e_my_venue = v, e_paused = False, open_notional = Fin 0, last_signal_ns = Map.empty,
      position_limit = limit, max_order_notional = max_notional, cooldown_ns = cooldown\<rparr>"

definition ref_price :: "ArbCross \<Rightarrow> double" where
  "ref_price cross = of_i64 (sell_bid_tick cross) / Fin 100"

text \<open>Guard E3, which also records the admitted signal.\<close>

definition check_cooldown :: "string \<Rightarrow> i64 \<Rightarrow> engine \<Rightarrow> bool \<times> engine" where
  "check_cooldown key ts e =
     (if cooldown_ns e > 0 then
        (case last_signal_ns e key of
           Some t \<Rightarrow> if ts - t < cooldown_ns e then (False, e)
                      else (True, e\<lparr>last_signal_ns := (last_signal_ns e)(key \<mapsto> ts)\<rparr>)
         | None \<Rightarrow> (True, e\<lparr>last_signal_ns := (last_signal_ns e)(key \<mapsto> ts)\<rparr>))
      else (True, e))"

text \<open>The guard chain of \<^verbatim>\<open>ExecEngine::on_signal\<close>: whether the signal reaches the strategy.\<close>

definition engine_guards :: "ArbCross \<Rightarrow> engine \<Rightarrow> bool \<times> engine" where
  "engine_guards cross e =
     (if Fin 0 < max_order_notional e \<and> max_order_notional e < ref_price cross then (False, e)
      else if Fin 0 < position_limit e \<and> position_limit e < open_notional e + ref_price cross then (False, e)
      else if e_paused e then (False, e)
      else check_cooldown (sell_venue cross @ '':'' @ buy_venue cross) (ts_detected_ns cross) e)"

definition engine_on_fill :: "Fill \<Rightarrow> engine \<Rightarrow> engine" where
  "engine_on_fill fill e =
     e\<lparr>open_notional := open_notional e + filled_qty fill * (of_i64 (fill_price_tick fill) / Fin 100)\<rparr>"

section \<open>The process\<close>

record exec_proc =
  p_engine :: engine
  p_strategy :: strategy
  p_tracker :: tracker
  p_client :: order_client
  p_posted :: "handler list"
  p_submitted :: "Order list"

text \<open>\<^verbatim>\<open>ExecEngine::on_signal\<close> with the strategy it dispatches to.\<close>

definition on_signal :: "i64 \<Rightarrow> ArbCross \<Rightarrow> exec_proc \<Rightarrow> exec_proc" where
  "on_signal now cross p =
     (let (pass, e) = engine_guards cross (p_engine p); p1 = p\<lparr>p_engine := e\<rparr>
      in if \<not> pass then p1
         else let (mo, s) = strategy_on_signal cross (p_strategy p1); p2 = p1\<lparr>p_strategy := s\<rparr>
              in case mo of None \<Rightarrow> p2
                 | Some ord \<Rightarrow>
                     p2\<lparr>p_tracker := register_pending ord (p_tracker p2),
                        p_posted := p_posted p2 @ submit_order (p_client p2) now ord,
                        p_submitted := p_submitted p2 @ [ord]\<rparr>)"

definition pause :: "exec_proc \<Rightarrow> exec_proc" where
  "pause p = p\<lparr>p_engine := (p_engine p)\<lparr>e_paused := True\<rparr>, p_strategy := strategy_pause (p_strategy p)\<rparr>"

definition resume :: "exec_proc \<Rightarrow> exec_proc" where
  "resume p = p\<lparr>p_engine := (p_engine p)\<lparr>e_paused := False\<rparr>, p_strategy := strategy_resume (p_strategy p)\<rparr>"

text \<open>The submission callback of the strategy: the fill clears the tracker and feeds the engine.\<close>

fun run_handler :: "handler \<Rightarrow> exec_proc \<Rightarrow> exec_proc" where
  "run_handler (FillHandler fill) p =
     p\<lparr>p_tracker := tracker_on_fill fill (p_tracker p), p_engine := engine_on_fill fill (p_engine p)\<rparr>"
| "run_handler (TimeoutHandler oid) p = p\<lparr>p_tracker := on_timeout oid (p_tracker p)\<rparr>"
| "run_handler (CancelHandler oid) p = p"

definition run_next :: "exec_proc \<Rightarrow> exec_proc" where
  "run_next p = (case p_posted p of [] \<Rightarrow> p | h # hs \<Rightarrow> run_handler h (p\<lparr>p_posted := hs\<rparr>))"

datatype exec_event = Signal i64 ArbCross | RunNext | Expire string | Pause | Resume | Shutdown

fun exec_step :: "exec_event \<Rightarrow> exec_proc \<Rightarrow> exec_proc" where
  "exec_step (Signal now cross) p = on_signal now cross p"
| "exec_step RunNext p = run_next p"
| "exec_step (Expire oid) p =
     (let (t, hs) = timer_expires oid (p_tracker p) in p\<lparr>p_tracker := t, p_posted := p_posted p @ hs\<rparr>)"
| "exec_step Pause p = pause p"
| "exec_step Resume p = resume p"
| "exec_step Shutdown p = p\<lparr>p_tracker := cancel_all (p_tracker p)\<rparr>"

text \<open>\<^verbatim>\<open>parse_cross\<close> leaves \<^verbatim>\<open>net_spread_bps\<close> indeterminate: the value found there is an argument.\<close>

definition parse_cross :: "'j json_api \<Rightarrow> double \<Rightarrow> string \<Rightarrow> ArbCross option" where
  "parse_cross J junk text = do {
     j \<leftarrow> j_parse J text;
     sv \<leftarrow> j_at J j ''sell_venue'' \<bind> j_str J;
     bv \<leftarrow> j_at J j ''buy_venue'' \<bind> j_str J;
     sb \<leftarrow> j_at J j ''sell_bid_tick'' \<bind> j_i64 J;
     ba \<leftarrow> j_at J j ''buy_ask_tick'' \<bind> j_i64 J;
     sp \<leftarrow> j_at J j ''spread_bps'' \<bind> j_dbl J;
     ts \<leftarrow> j_at J j ''ts_detected_ns'' \<bind> j_i64 J;
     st \<leftarrow> j_at J j ''sell_ts_book_ns'' \<bind> j_i64 J;
     bt \<leftarrow> j_at J j ''buy_ts_book_ns'' \<bind> j_i64 J;
     Some \<lparr>sell_venue = sv, buy_venue = bv, sell_bid_tick = sb, buy_ask_tick = ba, spread_bps = sp,
           net_spread_bps = junk, ts_detected_ns = ts, sell_ts_book_ns = st, buy_ts_book_ns = bt\<rparr>
   }"

definition on_raw_message :: "'j json_api \<Rightarrow> double \<Rightarrow> i64 \<Rightarrow> string \<Rightarrow> exec_proc \<Rightarrow> exec_proc" where
  "on_raw_message J junk now text p =
     (case parse_cross J junk text of None \<Rightarrow> p | Some cross \<Rightarrow> on_signal now cross p)"


section \<open>What one signal can do\<close>

lemma check_cooldown_frame:
  "open_notional (snd (check_cooldown k t e)) = open_notional e"
  "position_limit (snd (check_cooldown k t e)) = position_limit e"
  "max_order_notional (snd (check_cooldown k t e)) = max_order_notional e"
  "e_paused (snd (check_cooldown k t e)) = e_paused e" "cooldown_ns (snd (check_cooldown k t e)) = cooldown_ns e"
  by (simp_all add: check_cooldown_def split: option.split)

lemma engine_guards_frame:
  "open_notional (snd (engine_guards c e)) = open_notional e"
  "position_limit (snd (engine_guards c e)) = position_limit e"
  "max_order_notional (snd (engine_guards c e)) = max_order_notional e"
  "e_paused (snd (engine_guards c e)) = e_paused e" "cooldown_ns (snd (engine_guards c e)) = cooldown_ns e"
  by (simp_all add: engine_guards_def check_cooldown_frame)

text \<open>The order of an accepted signal.\<close>

definition order_for :: "ArbCross \<Rightarrow> strategy \<Rightarrow> Order \<Rightarrow> bool" where
  "order_for c s ord \<longleftrightarrow>
     (o_side ord = SELL \<and> sell_venue c = s_my_venue s \<and> o_price_tick ord = sell_bid_tick c \<or>
      o_side ord = BUY \<and> buy_venue c = s_my_venue s \<and> o_price_tick ord = buy_ask_tick c) \<and>
     o_venue ord = s_my_venue s \<and> o_quantity ord = s_target_qty s \<and> Fin 0 < s_target_qty s \<and>
     client_order_id ord = s_my_venue s @ ''-'' @ nat_str (unat (order_seq s + 1))"

lemma strategy_on_signal_cases:
  obtains (none) "strategy_on_signal c s = (None, s)"
  | (some) ord where "strategy_on_signal c s = (Some ord, s\<lparr>order_seq := order_seq s + 1\<rparr>)"
      "order_for c s ord" "\<not> s_paused s"
proof -
  consider "s_paused s" | "\<not> s_paused s" "\<not> Fin 0 < s_target_qty s"
    | "\<not> s_paused s" "Fin 0 < s_target_qty s" by blast
  then show thesis
  proof cases
    case 2
    then have "strategy_on_signal c s = (None, s)"
      by (auto simp: strategy_on_signal_def Let_def double_ops split: option.split)
    then show thesis by (rule none)
  next
    case 3
    then have q: "\<not> s_target_qty s \<le> Fin 0" by (cases "s_target_qty s") (auto simp: double_ops)
    show thesis
    proof (cases "sell_venue c = s_my_venue s \<or> buy_venue c = s_my_venue s")
      case True
      let ?ord = "\<lparr>o_venue = s_my_venue s, o_side = (if sell_venue c = s_my_venue s then SELL else BUY),
        o_price_tick = (if sell_venue c = s_my_venue s then sell_bid_tick c else buy_ask_tick c),
        o_quantity = s_target_qty s, client_order_id = s_my_venue s @ ''-'' @ nat_str (unat (order_seq s + 1))\<rparr>"
      have "strategy_on_signal c s = (Some ?ord, s\<lparr>order_seq := order_seq s + 1\<rparr>)"
        using 3 q True by (auto simp: strategy_on_signal_def next_order_id_def Let_def)
      moreover have "order_for c s ?ord" using 3 True by (auto simp: order_for_def)
      ultimately show thesis using 3 by (intro some)
    next
      case False
      then show thesis using 3 by (intro none) (simp add: strategy_on_signal_def)
    qed
  qed (simp add: none strategy_on_signal_def)
qed

lemma submit_order_fill: "submit_order cl now ord = [FillHandler (synthetic_fill now ord)]"
  by (cases cl) simp_all

text \<open>A signal is dropped, or passes all guards and submits nothing, or submits one order.\<close>

lemma on_signal_cases:
  obtains (dropped) e where "on_signal now c p = p\<lparr>p_engine := e\<rparr>"
      "open_notional e = open_notional (p_engine p)" "position_limit e = position_limit (p_engine p)"
      "max_order_notional e = max_order_notional (p_engine p)" "e_paused e = e_paused (p_engine p)"
      "e = snd (engine_guards c (p_engine p))"
  | (submitted) e ord where "fst (engine_guards c (p_engine p))" "order_for c (p_strategy p) ord"
      "\<not> s_paused (p_strategy p)"
      "open_notional e = open_notional (p_engine p)" "position_limit e = position_limit (p_engine p)"
      "max_order_notional e = max_order_notional (p_engine p)" "e_paused e = e_paused (p_engine p)"
      "e = snd (engine_guards c (p_engine p))"
      "on_signal now c p = p\<lparr>p_engine := e, p_strategy := (p_strategy p)\<lparr>order_seq := order_seq (p_strategy p) + 1\<rparr>,
         p_tracker := register_pending ord (p_tracker p),
         p_posted := p_posted p @ [FillHandler (synthetic_fill now ord)], p_submitted := p_submitted p @ [ord]\<rparr>"
proof -
  obtain pass e where g: "engine_guards c (p_engine p) = (pass, e)" by fastforce
  then have f: "open_notional e = open_notional (p_engine p)" "position_limit e = position_limit (p_engine p)"
      "max_order_notional e = max_order_notional (p_engine p)" "e_paused e = e_paused (p_engine p)"
    using engine_guards_frame [of c "p_engine p"] by simp_all
  show thesis
  proof (cases rule: strategy_on_signal_cases [of c "p_strategy p"])
    case none
    have "p\<lparr>p_engine := e, p_strategy := p_strategy p\<rparr> = p\<lparr>p_engine := e\<rparr>" by (cases p) simp
    with none have "on_signal now c p = p\<lparr>p_engine := e\<rparr>" by (simp add: on_signal_def g Let_def)
    then show thesis using f g by (intro dropped [of e]) simp_all
  next
    case (some ord)
    show thesis
    proof (cases pass)
      case True
      with some g f show thesis
        by (intro submitted [of ord e]) (simp_all add: on_signal_def submit_order_fill Let_def)
    next
      case False
      then have "on_signal now c p = p\<lparr>p_engine := e\<rparr>" by (simp add: on_signal_def g Let_def)
      then show thesis using f g by (intro dropped [of e]) simp_all
    qed
  qed
qed


section \<open>Kill switch\<close>

definition halted :: "exec_proc \<Rightarrow> bool" where
  "halted p \<longleftrightarrow> e_paused (p_engine p) \<and> s_paused (p_strategy p)"

lemma run_handler_frame [simp]:
  "p_submitted (run_handler h p) = p_submitted p" "p_strategy (run_handler h p) = p_strategy p"
  "e_paused (p_engine (run_handler h p)) = e_paused (p_engine p)" "p_posted (run_handler h p) = p_posted p"
  "position_limit (p_engine (run_handler h p)) = position_limit (p_engine p)"
  "max_order_notional (p_engine (run_handler h p)) = max_order_notional (p_engine p)"
  "last_signal_ns (p_engine (run_handler h p)) = last_signal_ns (p_engine p)"
  "cooldown_ns (p_engine (run_handler h p)) = cooldown_ns (p_engine p)"
  by (cases h; simp add: engine_on_fill_def)+

lemma halted_step:
  assumes "halted p" and "ev \<noteq> Resume"
  shows "halted (exec_step ev p) \<and> p_submitted (exec_step ev p) = p_submitted p"
proof (cases ev)
  case (Signal now c)
  show ?thesis
    using assms(1) Signal
    by (cases rule: on_signal_cases [of now c p]) (auto simp: halted_def)
next
  case (Expire oid)
  with assms(1) show ?thesis by (simp add: halted_def split: prod.split)
qed (use assms in \<open>auto simp: halted_def run_next_def pause_def strategy_pause_def split: list.split\<close>)

text \<open>C19: Kill switch. After \<^verbatim>\<open>pause\<close>, no sequence of signals, fills, timer expiries and further
  pauses submits an order until \<^verbatim>\<open>resume\<close>.\<close>

theorem paused_process_submits_nothing:
  assumes "Resume \<notin> set evs"
  shows "p_submitted (fold exec_step (Pause # evs) p) = p_submitted p"
proof -
  have "halted p \<Longrightarrow> p_submitted (fold exec_step evs p) = p_submitted p" for p
    using assms
  proof (induction evs arbitrary: p)
    case (Cons ev evs)
    then show ?case using halted_step [of p ev] by auto
  qed simp
  moreover have "halted (pause p)" "p_submitted (pause p) = p_submitted p"
    by (simp_all add: halted_def pause_def strategy_pause_def)
  ultimately show ?thesis by simp
qed

text \<open>A process as \<^verbatim>\<open>main\<close> starts it.\<close>

definition start_exec :: "order_client \<Rightarrow> string \<Rightarrow> double \<Rightarrow> double \<Rightarrow> double \<Rightarrow> i64 \<Rightarrow> exec_proc" where
  "start_exec client v qty limit max_notional cooldown =
     \<lparr>p_engine = new_ExecEngine v limit max_notional cooldown, p_strategy = new_ImmediateStrategy v qty,
      p_tracker = new_tracker, p_client = client, p_posted = [], p_submitted = []\<rparr>"

definition cross_at :: "i64 \<Rightarrow> i64 \<Rightarrow> i64 \<Rightarrow> ArbCross" where
  "cross_at bid ask ts = \<lparr>sell_venue = ''okx'', buy_venue = ''bybit'', sell_bid_tick = bid, buy_ask_tick = ask,
     spread_bps = Fin 1, net_spread_bps = Fin 1, ts_detected_ns = ts, sell_ts_book_ns = ts, buy_ts_book_ns = ts\<rparr>"

theorem paused_process_submits_nothing_witness:
  "p_submitted (fold exec_step [Pause, Signal 0 (cross_at 5 3 0), RunNext]
     (start_exec DryRunOrderClient ''okx'' (Fin 1) (Fin 0) (Fin 0) 0)) = []"
  using paused_process_submits_nothing [of "[Signal 0 (cross_at 5 3 0), RunNext]"
      "start_exec DryRunOrderClient ''okx'' (Fin 1) (Fin 0) (Fin 0) 0"]
  by (simp add: start_exec_def)

section \<open>Pending orders\<close>

definition fills_posted :: "exec_proc \<Rightarrow> bool" where
  "fills_posted p \<longleftrightarrow> (\<forall>oid \<in> dom (t_pending (p_tracker p)).
     \<exists>fill. FillHandler fill \<in> set (p_posted p) \<and> f_client_order_id fill = oid)"

lemma fills_posted_handler:
  assumes "fills_posted p" and "p_posted p = h # hs"
  shows "fills_posted (run_handler h (p\<lparr>p_posted := hs\<rparr>))"
  using assms
  by (cases h) (force simp: fills_posted_def tracker_on_fill_def on_timeout_def dom_def split: option.split)+

lemma fills_posted_step: "fills_posted p \<Longrightarrow> fills_posted (exec_step ev p)"
proof (cases ev)
  case (Signal now c)
  assume "fills_posted p"
  with Signal show ?thesis
    by (cases rule: on_signal_cases [of now c p])
      (auto simp: fills_posted_def register_pending_def synthetic_fill_def split: if_splits)
next
  case RunNext
  assume "fills_posted p"
  with RunNext show ?thesis by (auto simp: run_next_def fills_posted_handler split: list.split)
next
  case (Expire oid)
  assume "fills_posted p"
  with Expire show ?thesis by (auto simp: fills_posted_def timer_expires_def)
qed (auto simp: fills_posted_def pause_def resume_def cancel_all_def)

interpretation posted_fills: steps exec_step fills_posted
  by unfold_locales (rule fills_posted_step)

lemma drain_posted: "p_posted (fold exec_step (replicate (length (p_posted p)) RunNext) p) = []"
proof (induction "length (p_posted p)" arbitrary: p)
  case (Suc n)
  then obtain h hs where hs: "p_posted p = h # hs" by (cases "p_posted p") auto
  then have "p_posted (run_next p) = hs" by (simp add: run_next_def)
  with Suc.hyps hs show ?case using Suc.hyps(1) [of "run_next p"] by simp
qed simp

text \<open>C20: Every order is resolved. From any state the process can reach, also after timer expiries and
  pauses, running the handlers already posted on the strand leaves no order pending.\<close>

theorem drained_strand_leaves_nothing_pending:
  "let p = fold exec_step evs (start_exec client v qty limit max_notional cooldown);
       p' = fold exec_step (replicate (length (p_posted p)) RunNext) p
   in p_posted p' = [] \<and> t_pending (p_tracker p') = Map.empty \<and> pending_count (p_tracker p') = 0"
proof -
  let ?p = "fold exec_step evs (start_exec client v qty limit max_notional cooldown)"
  let ?p' = "fold exec_step (replicate (length (p_posted ?p)) RunNext) ?p"
  have "fills_posted (start_exec client v qty limit max_notional cooldown)"
    by (simp add: fills_posted_def start_exec_def new_tracker_def)
  then have "fills_posted ?p'" by (intro posted_fills.always)
  moreover have e: "p_posted ?p' = []" by (rule drain_posted)
  ultimately have "dom (t_pending (p_tracker ?p')) = {}" by (simp add: fills_posted_def)
  with e show ?thesis by (simp add: Let_def pending_count_def)
qed


section \<open>Order identifiers\<close>

definition ids_ok :: "string \<Rightarrow> exec_proc \<Rightarrow> bool" where
  "ids_ok v p \<longleftrightarrow> s_my_venue (p_strategy p) = v \<and>
     order_seq (p_strategy p) = of_nat (length (p_submitted p)) \<and>
     map client_order_id (p_submitted p)
       = map (\<lambda>i. v @ ''-'' @ nat_str (unat (of_nat (Suc i) :: u64))) [0..<length (p_submitted p)]"

lemma ids_ok_step: "ids_ok v p \<Longrightarrow> ids_ok v (exec_step ev p)"
proof (cases ev)
  case (Signal now c)
  assume "ids_ok v p"
  with Signal show ?thesis
    by (cases rule: on_signal_cases [of now c p]) (auto simp: ids_ok_def order_for_def add.commute)
next
  case RunNext
  assume "ids_ok v p"
  with RunNext show ?thesis by (simp add: ids_ok_def run_next_def split: list.split)
next
  case (Expire oid)
  assume "ids_ok v p"
  with Expire show ?thesis by (simp add: ids_ok_def split: prod.split)
qed (auto simp: ids_ok_def pause_def resume_def strategy_pause_def strategy_resume_def)

interpretation order_ids: steps exec_step "ids_ok v" for v
  by unfold_locales (rule ids_ok_step)

lemma unat_of_nat_u64: "n < 2 ^ 64 \<Longrightarrow> unat (of_nat n :: u64) = n"
  by (simp add: unat_of_nat take_bit_nat_eq_self)

text \<open>C21: Order identifiers are unique: in every run, while the 64-bit counter has not wrapped
  around, no two submitted orders share a \<^verbatim>\<open>client_order_id\<close>.\<close>

theorem order_ids_distinct:
  assumes "p = fold exec_step evs (start_exec client v qty limit max_notional cooldown)"
    and "length (p_submitted p) < 2 ^ 64"
  shows "distinct (map client_order_id (p_submitted p))"
proof -
  have "ids_ok v (start_exec client v qty limit max_notional cooldown)"
    by (simp add: ids_ok_def start_exec_def new_ImmediateStrategy_def)
  then have ids: "map client_order_id (p_submitted p)
      = map (\<lambda>i. v @ ''-'' @ nat_str (unat (of_nat (Suc i) :: u64))) [0..<length (p_submitted p)]"
    unfolding assms(1) using order_ids.always ids_ok_def by blast
  have "inj_on (\<lambda>i. v @ ''-'' @ nat_str (unat (of_nat (Suc i) :: u64))) {0..<length (p_submitted p)}"
  proof (rule inj_onI)
    fix i j
    assume ij: "i \<in> {0..<length (p_submitted p)}" "j \<in> {0..<length (p_submitted p)}"
      "v @ ''-'' @ nat_str (unat (of_nat (Suc i) :: u64)) = v @ ''-'' @ nat_str (unat (of_nat (Suc j) :: u64))"
    then have "unat (of_nat (Suc i) :: u64) = unat (of_nat (Suc j) :: u64)" by simp
    moreover have "Suc i < 2 ^ 64" "Suc j < 2 ^ 64" using ij(1,2) assms(2) by (auto simp del: power_Suc)
    ultimately show "i = j" using unat_of_nat_u64 [of "Suc i"] unat_of_nat_u64 [of "Suc j"] by linarith
  qed
  then show ?thesis unfolding ids by (simp add: distinct_map)
qed

section \<open>Cooldown\<close>

definition cooling :: "i64 \<Rightarrow> engine \<Rightarrow> bool" where
  "cooling limit e \<longleftrightarrow> 0 < limit \<and> cooldown_ns e = limit"

interpretation cooldown: spacing_limiter limit check_cooldown last_signal_ns "cooling limit" for limit
  by unfold_locales (auto simp: cooling_def check_cooldown_def split: option.splits if_splits)

text \<open>The signals of a run that pass all guards and reach the strategy.\<close>

fun dispatched :: "exec_event list \<Rightarrow> exec_proc \<Rightarrow> ArbCross list" where
  "dispatched [] p = []"
| "dispatched (ev # evs) p =
     (case ev of Signal now c \<Rightarrow> if fst (engine_guards c (p_engine p)) then [c] else [] | _ \<Rightarrow> [])
     @ dispatched evs (exec_step ev p)"

lemma engine_guards_logs:
  assumes "cooling limit e" and "spaced_log limit lg" and "tracked_log (last_signal_ns e) lg"
  shows "cooling limit (snd (engine_guards c e))"
    and "fst (engine_guards c e) \<Longrightarrow> spaced_log limit (lg @ cross_log [c])
      \<and> tracked_log (last_signal_ns (snd (engine_guards c e))) (lg @ cross_log [c])"
    and "\<not> fst (engine_guards c e) \<Longrightarrow> last_signal_ns (snd (engine_guards c e)) = last_signal_ns e"
proof -
  let ?k = "sell_venue c @ '':'' @ buy_venue c" and ?t = "ts_detected_ns c"
  have g: "engine_guards c e = check_cooldown ?k ?t e \<or> engine_guards c e = (False, e)"
    by (auto simp: engine_guards_def)
  show "cooling limit (snd (engine_guards c e))"
    using assms(1) by (simp add: cooling_def engine_guards_frame)
  show "fst (engine_guards c e) \<Longrightarrow> spaced_log limit (lg @ cross_log [c])
      \<and> tracked_log (last_signal_ns (snd (engine_guards c e))) (lg @ cross_log [c])"
    using g cooldown.admit_logs [OF assms(1) _ assms(2,3), of ?k ?t] by auto
  show "\<not> fst (engine_guards c e) \<Longrightarrow> last_signal_ns (snd (engine_guards c e)) = last_signal_ns e"
    using g cooldown.refused [OF assms(1), of ?k ?t] by auto
qed

lemma step_signal_engine: "p_engine (on_signal now c p) = snd (engine_guards c (p_engine p))"
  by (rule on_signal_cases [of now c p]) simp_all

lemma other_step_last:
  "(\<And>now c. ev \<noteq> Signal now c) \<Longrightarrow> last_signal_ns (p_engine (exec_step ev p)) = last_signal_ns (p_engine p)
    \<and> cooldown_ns (p_engine (exec_step ev p)) = cooldown_ns (p_engine p)"
  by (cases ev) (auto simp: run_next_def pause_def resume_def split: list.split prod.split)

lemma dispatched_spaced:
  assumes "cooling limit (p_engine p)" and "spaced_log limit (cross_log lg)"
    and "tracked_log (last_signal_ns (p_engine p)) (cross_log lg)"
  shows "spaced_log limit (cross_log (lg @ dispatched evs p))"
  using assms
proof (induction evs arbitrary: p lg)
  case (Cons ev evs)
  show ?case
  proof (cases "\<exists>now c. ev = Signal now c")
    case True
    then obtain now c where ev: "ev = Signal now c" by blast
    note g = engine_guards_logs [OF Cons.prems, of c]
    show ?thesis
    proof (cases "fst (engine_guards c (p_engine p))")
      case True
      then show ?thesis
        using Cons.IH [of "on_signal now c p" "lg @ [c]"] g by (simp add: ev step_signal_engine)
    next
      case False
      then show ?thesis
        using Cons.IH [of "on_signal now c p" lg] g Cons.prems by (simp add: ev step_signal_engine)
    qed
  next
    case False
    then have "last_signal_ns (p_engine (exec_step ev p)) = last_signal_ns (p_engine p)"
        "cooling limit (p_engine (exec_step ev p))"
      using other_step_last [of ev p] Cons.prems(1) by (auto simp: cooling_def)
    with False Cons.prems Cons.IH [of "exec_step ev p" lg] show ?thesis
      by (cases ev) auto
  qed
qed simp

text \<open>C22: Cooldown. In every run with a positive cooldown, two signals for the same selling and buying
  venue that reach the strategy are detected at least the cooldown apart.\<close>

theorem cooldown_spaces_dispatched_signals:
  assumes "0 < cooldown"
  shows "sorted_wrt (\<lambda>a b. same_pair a b \<longrightarrow> cooldown \<le> ts_detected_ns b - ts_detected_ns a)
    (dispatched evs (start_exec client v qty limit max_notional cooldown))"
proof -
  let ?p = "start_exec client v qty limit max_notional cooldown"
  have "cooling cooldown (p_engine ?p)"
    using assms by (simp add: cooling_def start_exec_def new_ExecEngine_def)
  then have "spaced_log cooldown (cross_log ([] @ dispatched evs ?p))"
    by (rule dispatched_spaced) simp_all
  then have "sorted_wrt (\<lambda>a b. sell_venue a @ '':'' @ buy_venue a = sell_venue b @ '':'' @ buy_venue b \<longrightarrow>
      cooldown \<le> ts_detected_ns b - ts_detected_ns a) (dispatched evs ?p)"
    by (simp add: spaced_log_def sorted_wrt_map)
  then show ?thesis by (rule sorted_wrt_mono_rel [rotated]) (simp add: same_pair_def)
qed

theorem cooldown_spaces_dispatched_signals_witness:
  "sorted_wrt (\<lambda>a b. same_pair a b \<longrightarrow> 100 \<le> ts_detected_ns b - ts_detected_ns a)
    (dispatched [Signal 0 (cross_at 5 3 0), Signal 1 (cross_at 5 3 50), Signal 2 (cross_at 5 3 100)]
       (start_exec DryRunOrderClient ''okx'' (Fin 1) (Fin 0) (Fin 0) 100))"
  by (rule cooldown_spaces_dispatched_signals) simp


section \<open>Position limit\<close>

lemma tick_price_nonneg: "0 \<le> t \<Longrightarrow> Fin 0 \<le> of_i64 t / Fin 100"
proof -
  assume "0 \<le> t"
  then have "Fin 0 \<le> of_i64 t" using of_i64_mono [of 0 t] by (simp add: rnd_simps)
  then show ?thesis
    using rnd_mono [of 0 "_ / 100"] by (cases "of_i64 t") (auto simp: double_ops rnd_simps inf_of_def)
qed

lemma notional_nonneg: "0 < q \<Longrightarrow> Fin 0 \<le> x \<Longrightarrow> Fin 0 \<le> Fin q * x"
  using rnd_mono [of 0 "q * _"] by (cases x) (auto simp: double_ops rnd_simps inf_of_def)

definition grows :: "double \<Rightarrow> bool" where
  "grows x \<longleftrightarrow> Fin 0 \<le> x \<and> (\<forall>a. x = Fin a \<longrightarrow> is_double a)"

lemma grows_add:
  assumes "grows x" and "Fin 0 \<le> n"
  shows "grows (x + n)" and "x \<le> x + n"
proof -
  show le: "x \<le> x + n"
    using assms dadd_increases [of _ n] by (cases x; cases n) (auto simp: grows_def double_ops)
  show "grows (x + n)"
    using assms le dle_trans [of "Fin 0" x "x + n"] rnd_is_double
    by (cases x; cases n) (auto simp: grows_def double_ops)
qed

fun sane_event :: "exec_event \<Rightarrow> bool" where
  "sane_event (Signal now c) = (0 \<le> sell_bid_tick c \<and> 0 \<le> buy_ask_tick c)"
| "sane_event _ = True"

definition money_ok :: "exec_proc \<Rightarrow> bool" where
  "money_ok p \<longleftrightarrow> grows (open_notional (p_engine p)) \<and> (\<exists>q. s_target_qty (p_strategy p) = Fin q) \<and>
     (\<forall>fill. FillHandler fill \<in> set (p_posted p) \<longrightarrow>
        Fin 0 \<le> filled_qty fill * (of_i64 (fill_price_tick fill) / Fin 100))"

lemma money_ok_step:
  assumes "money_ok p" and "sane_event ev"
  shows "money_ok (exec_step ev p) \<and> open_notional (p_engine p) \<le> open_notional (p_engine (exec_step ev p))"
proof -
  have refl: "open_notional (p_engine p) \<le> open_notional (p_engine p)"
    using assms(1) by (cases "open_notional (p_engine p)") (auto simp: money_ok_def grows_def double_ops)
  show ?thesis
  proof (cases ev)
    case (Signal now c)
    show ?thesis
    proof (cases rule: on_signal_cases [of now c p])
      case (dropped e)
      with Signal assms(1) refl show ?thesis by (simp add: money_ok_def)
    next
      case (submitted e ord)
      obtain q where q: "s_target_qty (p_strategy p) = Fin q" using assms(1) by (auto simp: money_ok_def)
      then have "0 < q" "o_quantity ord = Fin q" "0 \<le> o_price_tick ord"
        using submitted(2) assms(2) Signal by (auto simp: order_for_def double_ops)
      then have "Fin 0 \<le> o_quantity ord * (of_i64 (o_price_tick ord) / Fin 100)"
        by (simp add: notional_nonneg tick_price_nonneg)
      with submitted(4,9) Signal assms(1) refl q show ?thesis
        by (auto simp: money_ok_def synthetic_fill_def)
    qed
  next
    case RunNext
    show ?thesis
    proof (cases "p_posted p")
      case (Cons h hs)
      then show ?thesis
        using RunNext assms(1) refl grows_add
        by (cases h) (auto simp: money_ok_def run_next_def engine_on_fill_def)
    qed (use RunNext assms(1) refl in \<open>simp add: run_next_def\<close>)
  next
    case (Expire oid)
    with assms(1) refl show ?thesis by (auto simp: money_ok_def timer_expires_def)
  qed (use assms(1) refl in \<open>auto simp: money_ok_def pause_def resume_def strategy_pause_def strategy_resume_def\<close>)
qed

interpretation money: guarded_steps exec_step sane_event money_ok
  by unfold_locales (simp add: money_ok_step)

lemma money_ok_run: "money_ok p \<Longrightarrow> \<forall>ev \<in> set evs. sane_event ev \<Longrightarrow> money_ok (fold exec_step evs p)"
  by (rule money.keeps_run) (simp_all add: list_all_iff)

lemma step_position_limit: "position_limit (p_engine (exec_step ev p)) = position_limit (p_engine p)"
proof (cases ev)
  case (Signal now c)
  then show ?thesis by (simp add: step_signal_engine engine_guards_frame)
next
  case (Expire oid)
  then show ?thesis by (simp split: prod.split)
qed (simp_all add: run_next_def pause_def resume_def split: list.split)

lemma run_position_limit: "position_limit (p_engine (fold exec_step evs p)) = position_limit (p_engine p)"
  by (induction evs arbitrary: p) (simp_all add: step_position_limit)

lemma limit_reached_step:
  assumes "money_ok p" and "Fin 0 < position_limit (p_engine p)"
    and "position_limit (p_engine p) < open_notional (p_engine p)" and "sane_event ev"
  shows "p_submitted (exec_step ev p) = p_submitted p"
proof (cases ev)
  case (Signal now c)
  have "open_notional (p_engine p) \<le> open_notional (p_engine p) + ref_price c"
    using assms(1,4) Signal grows_add(2) tick_price_nonneg by (simp add: money_ok_def ref_price_def)
  then have "position_limit (p_engine p) < open_notional (p_engine p) + ref_price c"
    using assms(3) dlt_le_trans by blast
  then have "\<not> fst (engine_guards c (p_engine p))" using assms(2) by (simp add: engine_guards_def)
  then show ?thesis using Signal by (cases rule: on_signal_cases [of now c p]) simp_all
next
  case (Expire oid)
  then show ?thesis by (simp split: prod.split)
qed (simp_all add: run_next_def pause_def resume_def split: list.split)

text \<open>C23: A position limit that has been exceeded stays so. For a process with a finite order size whose signals have
  non-negative ticks: once the filled notional is strictly above a positive position limit, no sequence of such events submits
  another order, be there fills, pauses or resumes among them. This is what the code does, and not what its comment
  says, by which the engine is disabled \<^emph>\<open>until an operator calls resume() or restarts\<close>: \<^verbatim>\<open>resume\<close> clears the pause flag and
  leaves the notional as it is. (At equality a signal of price zero would still pass the guard.)\<close>

theorem position_limit_latches:
  assumes "p = fold exec_step before (start_exec client v (Fin q) limit max_notional cooldown)"
    and "\<forall>ev \<in> set before. sane_event ev" and "\<forall>ev \<in> set after. sane_event ev"
    and "Fin 0 < limit" and "limit < open_notional (p_engine p)"
  shows "p_submitted (fold exec_step after p) = p_submitted p"
proof -
  let ?s = "start_exec client v (Fin q) limit max_notional cooldown"
  have "is_double 0" by (simp add: is_double_def rnd_simps)
  then have "money_ok ?s"
    by (simp add: money_ok_def grows_def start_exec_def new_ExecEngine_def new_ImmediateStrategy_def double_ops)
  then have ok: "money_ok p" using assms(1,2) by (simp add: money_ok_run)
  have l: "position_limit (p_engine p) = limit"
    unfolding assms(1) run_position_limit by (simp add: start_exec_def new_ExecEngine_def)
  have "p_submitted (fold exec_step after p) = p_submitted p"
    if "money_ok p" "position_limit (p_engine p) = limit" "limit < open_notional (p_engine p)"
      "\<forall>ev \<in> set after. sane_event ev" for p
    using that
  proof (induction after arbitrary: p)
    case (Cons ev evs)
    have "money_ok (exec_step ev p)" "limit < open_notional (p_engine (exec_step ev p))"
      using money_ok_step [of p ev] Cons.prems dlt_le_trans [of limit] by auto
    moreover have "p_submitted (exec_step ev p) = p_submitted p"
      using limit_reached_step [of p ev] Cons.prems assms(4) by simp
    ultimately show ?case using Cons by (simp add: step_position_limit)
  qed simp
  then show ?thesis using ok l assms(3,5) by blast
qed


lemmas exec_eval = start_exec_def new_ExecEngine_def new_ImmediateStrategy_def new_tracker_def on_signal_def
  engine_guards_def check_cooldown_def ref_price_def strategy_on_signal_def next_order_id_def cross_at_def
  register_pending_def synthetic_fill_def run_next_def engine_on_fill_def tracker_on_fill_def Let_def

lemma one_fill_exceeds:
  "open_notional (p_engine (fold exec_step [Signal 0 (cross_at 100 50 0), RunNext]
     (start_exec DryRunOrderClient ''okx'' (Fin 10) (Fin 5) (Fin 0) 0))) = Fin 10"
  by (simp add: exec_eval double_ops rnd_simps)

theorem position_limit_latches_witness:
  "p_submitted (fold exec_step [Pause, Resume, Signal 1 (cross_at 100 50 9)]
      (fold exec_step [Signal 0 (cross_at 100 50 0), RunNext]
        (start_exec DryRunOrderClient ''okx'' (Fin 10) (Fin 5) (Fin 0) 0)))
   = p_submitted (fold exec_step [Signal 0 (cross_at 100 50 0), RunNext]
        (start_exec DryRunOrderClient ''okx'' (Fin 10) (Fin 5) (Fin 0) 0))"
proof (rule position_limit_latches [OF refl])
  show "Fin 5 < open_notional (p_engine (fold exec_step [Signal 0 (cross_at 100 50 0), RunNext]
     (start_exec DryRunOrderClient ''okx'' (Fin 10) (Fin 5) (Fin 0) 0)))"
    unfolding one_fill_exceeds by (simp add: double_ops)
qed (simp_all add: cross_at_def double_ops)

theorem order_ids_distinct_witness:
  "distinct (map client_order_id (p_submitted (fold exec_step [Signal 0 (cross_at 5 3 0), Signal 1 (cross_at 5 3 1)]
     (start_exec StubOrderClient ''okx'' (Fin 1) (Fin 0) (Fin 0) 0))))"
  by (rule order_ids_distinct [OF refl]) (simp add: exec_eval double_ops)

end
