(* ===== verification/ExecCmdLine.thy ===== *)
theory ExecCmdLine
  imports ExecEngine
begin

text \<open>
  The command line of the execution process, \<^verbatim>\<open>exec/include/exec/ExecCmdLine.hpp\<close>, and the assembly of
  the process from the accepted options in \<^verbatim>\<open>exec/app/exec.cpp\<close>. \<^verbatim>\<open>boost::program_options\<close> is not part
  of the repository: the values it has stored, with the declared defaults applied, are the record
  \<open>exec_vm\<close>, and \<open>None\<close> is its error exception.
\<close>

record exec_vm =
  vm_help :: bool
  vm_venue :: "string option"
  vm_brain_host :: string
  vm_brain_port :: "16 word"
  vm_certfile :: "string option"
  vm_keyfile :: "string option"
  vm_insecure_tls :: bool
  vm_target_qty :: double
  vm_position_limit :: double
  vm_max_order_notional :: double
  vm_cooldown_ms :: i64
  vm_confirmation_timeout_ms :: i64
  vm_dry_run :: bool
  vm_live_mode :: bool
  vm_arm_live :: bool
  vm_enable_live_venue :: string
  vm_live_order_notional_cap :: double
  vm_log_level :: string

text \<open>The values stored for a command line without options: the declared defaults.\<close>

definition exec_defaults :: exec_vm where
  "exec_defaults = \<lparr>vm_help = False, vm_venue = None, vm_brain_host = ''127.0.0.1'', vm_brain_port = 0,
     vm_certfile = None, vm_keyfile = None, vm_insecure_tls = False, vm_target_qty = rnd (1 / 100),
     vm_position_limit = Fin 0, vm_max_order_notional = Fin 0, vm_cooldown_ms = 0,
     vm_confirmation_timeout_ms = 5000, vm_dry_run = False, vm_live_mode = False, vm_arm_live = False,
     vm_enable_live_venue = '''', vm_live_order_notional_cap = Fin 25, vm_log_level = ''info''\<rparr>"

record ExecOptions =
  opt_venue :: string
  opt_brain_host :: string
  opt_brain_port :: "16 word"
  opt_certfile :: string
  opt_keyfile :: string
  opt_insecure_tls :: bool
  opt_target_qty :: double
  opt_position_limit :: double
  opt_max_order_notional :: double
  opt_cooldown_ms :: i64
  opt_confirmation_timeout_ms :: i64
  opt_dry_run :: bool
  opt_arm_live :: bool
  opt_enable_live_venue :: string
  opt_live_order_notional_cap :: double
  opt_log_level :: string
  opt_show_help :: bool

definition default_ExecOptions :: ExecOptions where
  "default_ExecOptions =
     \<lparr>opt_venue = '''', opt_brain_host = ''127.0.0.1'', opt_brain_port = 0, opt_certfile = '''', opt_keyfile = '''',
      opt_insecure_tls = False, opt_target_qty = rnd (1 / 100), opt_position_limit = Fin 0,
      opt_max_order_notional = Fin 0, opt_cooldown_ms = 0, opt_confirmation_timeout_ms = 5000,
      opt_dry_run = True, opt_arm_live = False, opt_enable_live_venue = '''',
      opt_live_order_notional_cap = Fin 25, opt_log_level = ''info'', opt_show_help = False\<rparr>"

text \<open>Lines 95--120: the assignments from the stored values.\<close>

definition assign_options :: "exec_vm \<Rightarrow> string \<Rightarrow> ExecOptions \<Rightarrow> ExecOptions" where
  "assign_options vm v out = out\<lparr>
      opt_venue := v, opt_brain_host := vm_brain_host vm, opt_brain_port := vm_brain_port vm,
      opt_certfile := (case vm_certfile vm of Some s \<Rightarrow> s | None \<Rightarrow> opt_certfile out),
      opt_keyfile := (case vm_keyfile vm of Some s \<Rightarrow> s | None \<Rightarrow> opt_keyfile out),
      opt_insecure_tls := vm_insecure_tls vm, opt_target_qty := vm_target_qty vm,
      opt_position_limit := vm_position_limit vm, opt_max_order_notional := vm_max_order_notional vm,
      opt_cooldown_ms := vm_cooldown_ms vm, opt_confirmation_timeout_ms := vm_confirmation_timeout_ms vm,
      opt_dry_run := \<not> vm_live_mode vm, opt_arm_live := vm_arm_live vm,
      opt_enable_live_venue := vm_enable_live_venue vm,
      opt_live_order_notional_cap := vm_live_order_notional_cap vm, opt_log_level := vm_log_level vm\<rparr>"

definition live_guards :: "ExecOptions \<Rightarrow> bool" where
  "live_guards out =
     (if \<not> opt_dry_run out then
        (if \<not> opt_arm_live out then False
         else if opt_enable_live_venue out \<noteq> opt_venue out then False
         else if opt_max_order_notional out \<le> Fin 0 then False
         else if opt_live_order_notional_cap out < opt_target_qty out * opt_max_order_notional out then False
         else True)
      else True)"

definition parse_exec_cmdline :: "exec_vm option \<Rightarrow> ExecOptions \<Rightarrow> ExecOptions option" where
  "parse_exec_cmdline parsed out =
     (case parsed of None \<Rightarrow> None
      | Some vm \<Rightarrow>
          (if vm_help vm then Some (out\<lparr>opt_show_help := True\<rparr>)
           else case vm_venue vm of None \<Rightarrow> None
             | Some v \<Rightarrow>
                 (if v = '''' then None
                  else if vm_brain_port vm = 0 then None
                  else if vm_dry_run vm \<and> vm_live_mode vm then None
                  else let o1 = assign_options vm v out
                       in if opt_live_order_notional_cap o1 \<le> Fin 0 then None
                          else if \<not> live_guards o1 then None
                          else Some o1)))"

text \<open>\<^verbatim>\<open>main\<close>: the process that runs after the options have been accepted.\<close>

definition assemble :: "ExecOptions \<Rightarrow> exec_proc" where
  "assemble opts = start_exec (if opt_dry_run opts then DryRunOrderClient else StubOrderClient)
     (opt_venue opts) (opt_target_qty opts) (opt_position_limit opts) (opt_max_order_notional opts)
     (opt_cooldown_ms opts * 1000000)"

section \<open>Live orders are bounded\<close>

lemma parse_exec_accepted:
  assumes "parse_exec_cmdline parsed default_ExecOptions = Some opts" and "\<not> opt_show_help opts"
  obtains vm v where "parsed = Some vm" and "opts = assign_options vm v default_ExecOptions"
    and "live_guards opts" and "\<not> opt_live_order_notional_cap opts \<le> Fin 0"
    and "opt_dry_run opts = (\<not> vm_live_mode vm)" and "\<not> (vm_dry_run vm \<and> vm_live_mode vm)"
  using assms that
  by (auto simp: parse_exec_cmdline_def Let_def assign_options_def split: option.splits if_splits)

definition order_within :: "double \<Rightarrow> double \<Rightarrow> Order \<Rightarrow> bool" where
  "order_within q m ord \<longleftrightarrow> o_quantity ord = q \<and> Fin 0 < q \<and> \<not> m < of_i64 (o_price_tick ord) / Fin 100"

fun valid_event :: "exec_event \<Rightarrow> bool" where
  "valid_event (Signal now c) = (buy_ask_tick c \<le> sell_bid_tick c)"
| "valid_event _ = True"

lemma div100_mono: "a \<le> b \<Longrightarrow> a / Fin 100 \<le> b / Fin 100"
  using rnd_mono [of "_ / 100" "_ / 100"]
  by (cases a; cases b) (auto simp: double_ops inf_of_def divide_right_mono dle_extremes)

definition bounded_proc :: "double \<Rightarrow> double \<Rightarrow> exec_proc \<Rightarrow> bool" where
  "bounded_proc q m p \<longleftrightarrow> s_target_qty (p_strategy p) = q \<and> max_order_notional (p_engine p) = m \<and>
     (\<forall>ord \<in> set (p_submitted p). order_within q m ord)"

lemma guard_bounds_price:
  assumes "fst (engine_guards c e)" and "Fin 0 < max_order_notional e" and "order_for c s ord"
    and "buy_ask_tick c \<le> sell_bid_tick c"
  shows "\<not> max_order_notional e < of_i64 (o_price_tick ord) / Fin 100"
proof -
  have "\<not> max_order_notional e < ref_price c" using assms(1,2) by (auto simp: engine_guards_def split: if_splits)
  moreover have "of_i64 (o_price_tick ord) / Fin 100 \<le> ref_price c"
  proof -
    have "o_price_tick ord \<le> sell_bid_tick c" using assms(3,4) by (auto simp: order_for_def)
    then show ?thesis unfolding ref_price_def by (intro div100_mono of_i64_mono)
  qed
  ultimately show ?thesis using dlt_le_trans by blast
qed

lemma bounded_step:
  assumes "bounded_proc q m p" and "Fin 0 < m" and "valid_event ev"
  shows "bounded_proc q m (exec_step ev p)"
proof (cases ev)
  case (Signal now c)
  show ?thesis
  proof (cases rule: on_signal_cases [of now c p])
    case (dropped e)
    with Signal assms(1) show ?thesis by (simp add: bounded_proc_def)
  next
    case (submitted e ord)
    have "order_within q m ord"
      using guard_bounds_price [OF submitted(1) _ submitted(2)] submitted(2) assms Signal
      by (auto simp: bounded_proc_def order_within_def order_for_def)
    with submitted(6,9) Signal assms(1) show ?thesis by (simp add: bounded_proc_def)
  qed
next
  case (Expire oid)
  with assms(1) show ?thesis by (simp add: bounded_proc_def split: prod.split)
qed (use assms(1) in \<open>auto simp: bounded_proc_def run_next_def pause_def resume_def strategy_pause_def
  strategy_resume_def split: list.split\<close>)

interpretation bounded_orders: guarded_steps exec_step valid_event "\<lambda>p. bounded_proc q m p \<and> Fin 0 < m" for q m
  by unfold_locales (simp add: bounded_step)

lemma bounded_run:
  "bounded_proc q m p \<Longrightarrow> Fin 0 < m \<Longrightarrow> \<forall>ev \<in> set evs. valid_event ev \<Longrightarrow> bounded_proc q m (fold exec_step evs p)"
proof -
  assume *: "bounded_proc q m p" "Fin 0 < m" "\<forall>ev \<in> set evs. valid_event ev"
  then have "bounded_proc q m p \<and> Fin 0 < m" "list_all valid_event evs" by (simp_all add: list_all_iff)
  then show ?thesis by (rule bounded_orders.keeps_run [THEN conjunct1])
qed

text \<open>C24: Live orders stay within the cap. When the command line is accepted in live mode with finite
  order size and price cap, then in every run whose signals have their ask at most their bid, each
  submitted order was armed for this venue and its quantity times price does not exceed the live
  notional cap.\<close>

theorem live_orders_within_cap:
  assumes "parse_exec_cmdline parsed default_ExecOptions = Some opts" and "\<not> opt_show_help opts"
    and "\<not> opt_dry_run opts" and "opt_target_qty opts = Fin q" and "opt_max_order_notional opts = Fin m"
    and "\<forall>ev \<in> set evs. valid_event ev" and "ord \<in> set (p_submitted (fold exec_step evs (assemble opts)))"
  shows "opt_arm_live opts \<and> opt_enable_live_venue opts = opt_venue opts \<and>
    \<not> opt_live_order_notional_cap opts < o_quantity ord * (of_i64 (o_price_tick ord) / Fin 100)"
proof -
  have "live_guards opts" by (rule parse_exec_accepted [OF assms(1,2)])
  then have live: "opt_arm_live opts" "opt_enable_live_venue opts = opt_venue opts" "0 < m"
      "\<not> opt_live_order_notional_cap opts < Fin q * Fin m"
    using assms(3-5) by (auto simp: live_guards_def double_ops split: if_splits)
  have "bounded_proc (Fin q) (Fin m) (assemble opts)"
    using assms(4,5) by (simp add: bounded_proc_def assemble_def start_exec_def new_ExecEngine_def
        new_ImmediateStrategy_def)
  then have "bounded_proc (Fin q) (Fin m) (fold exec_step evs (assemble opts))"
    using live(3) assms(6) by (intro bounded_run) (auto simp: double_ops)
  then have w: "order_within (Fin q) (Fin m) ord" using assms(7) by (simp add: bounded_proc_def)
  have "\<not> opt_live_order_notional_cap opts < Fin q * (of_i64 (o_price_tick ord) / Fin 100)"
  proof (cases "of_i64 (o_price_tick ord) / Fin 100")
    case (Fin a)
    then have "Fin q * Fin a \<le> Fin q * Fin m"
      using w by (intro dmul_mono) (auto simp: order_within_def double_ops)
    then show ?thesis using live(4) dlt_le_trans Fin by metis
  next
    case PInf
    then show ?thesis using w by (simp add: order_within_def double_ops)
  next
    case NInf
    then show ?thesis
      using w by (cases "opt_live_order_notional_cap opts") (auto simp: order_within_def double_ops inf_of_def)
  next
    case NaN
    then show ?thesis by (cases "opt_live_order_notional_cap opts") (auto simp: double_ops)
  qed
  then show ?thesis using live w by (simp add: order_within_def)
qed


definition live_vm :: exec_vm where
  "live_vm = exec_defaults\<lparr>vm_venue := Some ''okx'', vm_brain_port := 9443, vm_target_qty := Fin 1,
     vm_max_order_notional := Fin 2, vm_live_mode := True, vm_arm_live := True, vm_enable_live_venue := ''okx''\<rparr>"

lemma live_vm_accepted:
  "parse_exec_cmdline (Some live_vm) default_ExecOptions = Some (assign_options live_vm ''okx'' default_ExecOptions)"
  by (simp add: parse_exec_cmdline_def live_guards_def assign_options_def live_vm_def exec_defaults_def default_ExecOptions_def
      double_ops rnd_simps Let_def)

theorem live_orders_within_cap_witness:
  "\<not> Fin 25 < Fin 1 * (of_i64 100 / Fin 100)"
proof -
  let ?o = "assign_options live_vm ''okx'' default_ExecOptions"
  let ?ord = "\<lparr>o_venue = ''okx'', o_side = SELL, o_price_tick = 100, o_quantity = Fin 1,
    client_order_id = ''okx'' @ ''-'' @ nat_str 1\<rparr>"
  have "?ord \<in> set (p_submitted (fold exec_step [Signal 0 (cross_at 100 50 0)] (assemble ?o)))"
    by (simp add: assemble_def exec_eval assign_options_def live_vm_def exec_defaults_def double_ops rnd_simps)
  from live_orders_within_cap [OF live_vm_accepted _ _ _ _ _ this, of 1 2] show ?thesis
    by (simp add: assign_options_def live_vm_def exec_defaults_def default_ExecOptions_def cross_at_def)
qed

end
