(* ===== verification/VenueAdapters.thy ===== *)
theory VenueAdapters
  imports OrderBookController OrderBookUtils Json "HOL-Library.Monad_Syntax"
begin

text \<open>
  The venue adapters of the feed process: the configuration of a feed
  (\<^verbatim>\<open>feed/include/abstract/FeedHandler.hpp\<close>), the symbol and number helpers
  (\<^verbatim>\<open>feed/include/utils/VenueUtils.hpp\<close>), the types of \<^verbatim>\<open>feed/include/md/VenueAdapter.hpp\<close> and the five
  adapters under \<^verbatim>\<open>feed/src/md/adapters\<close>. The JSON library is the parameter of theory \<^verbatim>\<open>Json\<close>. A parser
  returns its message, or \<open>Rejected\<close> where the code returns \<^verbatim>\<open>false\<close>, or \<open>Threw\<close> where an exception leaves
  it: a JSON access of the wrong type, a decimal that does not parse, \<^verbatim>\<open>std::stoll\<close> out of range. An
  index past the end of a JSON array, undefined in the library, counts as an exception. Debug output
  is left out.
\<close>

section \<open>Configuration\<close>

datatype VenueId = BINANCE | OKX | BYBIT | BITGET | KUCOIN | UNKNOWN

fun venue_to_string :: "VenueId \<Rightarrow> string" where
  "venue_to_string BINANCE = ''binance''"
| "venue_to_string OKX = ''okx''"
| "venue_to_string BYBIT = ''bybit''"
| "venue_to_string BITGET = ''bitget''"
| "venue_to_string KUCOIN = ''kucoin''"
| "venue_to_string UNKNOWN = ''UNKNOWN''"

record FeedHandlerConfig =
  venue_name :: VenueId
  cfg_symbol :: string
  base_ccy :: string
  quote_ccy :: string
  ws_host :: string
  ws_port :: string
  ws_path :: string
  rest_host :: string
  rest_port :: string
  rest_path :: string
  brain_ws_host :: string
  brain_ws_port :: string
  brain_ws_path :: string
  brain_ws_insecure :: bool
  brain_ws_certfile :: string
  brain_ws_keyfile :: string
  brain2_ws_host :: string
  brain2_ws_port :: string
  brain2_ws_path :: string
  brain2_ws_insecure :: bool
  brain2_ws_certfile :: string
  brain2_ws_keyfile :: string
  persist_path :: string
  cfg_persist_book_every_updates :: nat
  cfg_persist_book_top :: nat
  rest_timeout_ms :: int
  max_msg_rate_per_sec :: int
  validate_every :: int
  cfg_require_checksum :: bool
  depthLevel :: nat

datatype SyncMode = RestAnchored | WsAuthoritative

record VenueCaps =
  sync_mode :: SyncMode
  ws_sends_snapshot :: bool
  has_checksum :: bool
  can_backfill :: bool
  requires_ws_bootstrap :: bool
  allow_seq_gap :: bool
  caps_checksum_fn :: "checksum_fn option"
  caps_checksum_top_n :: nat

definition default_caps :: VenueCaps where
  "default_caps = \<lparr>sync_mode = RestAnchored, ws_sends_snapshot = False, has_checksum = False,
     can_backfill = False, requires_ws_bootstrap = False, allow_seq_gap = False,
     caps_checksum_fn = None, caps_checksum_top_n = 25\<rparr>"

record EndPoint =
  ep_host :: string
  ep_port :: string
  ep_target :: string

record WsBootstrapInfo =
  bi_ws :: EndPoint
  ping_interval_ms :: int
  ping_timeout_ms :: int

section \<open>Strings and numbers\<close>

text \<open>\<^verbatim>\<open>to_upper_copy\<close> and \<^verbatim>\<open>to_lower_copy\<close> in the classic locale; \<^verbatim>\<open>find(pat) != npos\<close>.\<close>

definition upper_char :: "char \<Rightarrow> char" where
  "upper_char c = (if 97 \<le> (of_char c :: nat) \<and> (of_char c :: nat) \<le> 122 then char_of ((of_char c :: nat) - 32) else c)"

definition lower_char :: "char \<Rightarrow> char" where
  "lower_char c = (if 65 \<le> (of_char c :: nat) \<and> (of_char c :: nat) \<le> 90 then char_of ((of_char c :: nat) + 32) else c)"

fun has_sub :: "string \<Rightarrow> string \<Rightarrow> bool" where
  "has_sub pat [] = (pat = [])"
| "has_sub pat (c # cs) = (take (length pat) (c # cs) = pat \<or> has_sub pat cs)"

definition map_ws_symbol :: "VenueId \<Rightarrow> string \<Rightarrow> string \<Rightarrow> string option" where
  "map_ws_symbol venue base quote =
     (let base_up = map upper_char base; quote_up = map upper_char quote;
          concat = base_up @ quote_up; dashed = base_up @ ''-'' @ quote_up
      in case venue of
           BINANCE \<Rightarrow> Some (map lower_char concat)
         | OKX \<Rightarrow> Some dashed
         | BYBIT \<Rightarrow> Some concat
         | BITGET \<Rightarrow> Some concat
         | KUCOIN \<Rightarrow> Some dashed
         | UNKNOWN \<Rightarrow> None)"

definition map_rest_symbol :: "VenueId \<Rightarrow> string \<Rightarrow> string \<Rightarrow> string option" where
  "map_rest_symbol venue base quote =
     (let base_up = map upper_char base; quote_up = map upper_char quote;
          concat = base_up @ quote_up; dashed = base_up @ ''-'' @ quote_up
      in case venue of
           BINANCE \<Rightarrow> Some (map upper_char concat)
         | OKX \<Rightarrow> Some dashed
         | BITGET \<Rightarrow> Some dashed
         | BYBIT \<Rightarrow> Some concat
         | KUCOIN \<Rightarrow> Some dashed
         | UNKNOWN \<Rightarrow> None)"

text \<open>The adapters pass a venue of their own, for which the mapping is defined.\<close>

definition ws_symbol :: "VenueId \<Rightarrow> FeedHandlerConfig \<Rightarrow> string" where
  "ws_symbol v cfg = (case map_ws_symbol v (base_ccy cfg) (quote_ccy cfg) of Some s \<Rightarrow> s | None \<Rightarrow> [])"

definition rest_symbol :: "VenueId \<Rightarrow> FeedHandlerConfig \<Rightarrow> string" where
  "rest_symbol v cfg = (case map_rest_symbol v (base_ccy cfg) (quote_ccy cfg) of Some s \<Rightarrow> s | None \<Rightarrow> [])"

text \<open>The common part of \<^verbatim>\<open>std::stoull\<close> and \<^verbatim>\<open>std::stoll\<close>: white space, a sign, the digits and the number of
  characters used; \<open>None\<close> is \<^verbatim>\<open>std::invalid_argument\<close>.\<close>

definition strto_digits :: "string \<Rightarrow> (bool \<times> int \<times> nat) option" where
  "strto_digits s =
     (let s1 = dropWhile is_space s;
          neg = (s1 \<noteq> [] \<and> hd s1 = CHR ''-'');
          body = (if s1 \<noteq> [] \<and> (hd s1 = CHR ''-'' \<or> hd s1 = CHR ''+'') then tl s1 else s1);
          ds = takeWhile is_digit body
      in if ds = [] then None else Some (neg, decval ds, length s - length (drop (length ds) body)))"

definition stoull :: "string \<Rightarrow> (u64 \<times> nat) option" where
  "stoull s = (case strto_digits s of None \<Rightarrow> None
     | Some (neg, v, pos) \<Rightarrow> (if v \<ge> 2 ^ 64 then None else Some (if neg then - word_of_int v else word_of_int v, pos)))"

definition stoll :: "string \<Rightarrow> i64 option" where
  "stoll s = (case strto_digits s of None \<Rightarrow> None
     | Some (neg, v, pos) \<Rightarrow> (let n = (if neg then - v else v) in if i64_ok n then Some n else None))"

definition json_to_u64_flexible :: "'j json_api \<Rightarrow> 'j \<Rightarrow> u64 option" where
  "json_to_u64_flexible J jv =
     (if j_is_unsigned J jv then j_u64 J jv
      else if j_is_integer J jv then
        (case j_i64 J jv of None \<Rightarrow> None | Some v \<Rightarrow> if v < 0 then None else Some (word_of_int v))
      else if j_is_string J jv then
        (case j_str J jv of None \<Rightarrow> None | Some s \<Rightarrow> map_option fst (stoull s))
      else None)"

definition json_to_i64_flexible :: "'j json_api \<Rightarrow> 'j \<Rightarrow> i64 option" where
  "json_to_i64_flexible J jv =
     (if j_is_integer J jv then j_i64 J jv
      else if j_is_unsigned J jv then map_option sint (j_u64 J jv)
      else if j_is_string J jv then (case j_str J jv of None \<Rightarrow> None | Some s \<Rightarrow> stoll s)
      else None)"

section \<open>Results of a parser\<close>

datatype 'a parsed = Parsed 'a | Rejected | Threw

text \<open>An access that may throw; a member whose absence makes the code return \<^verbatim>\<open>false\<close>; the first element of
  a member that must be a non-empty array.\<close>

definition attempt :: "'a option \<Rightarrow> ('a \<Rightarrow> 'b parsed) \<Rightarrow> 'b parsed" where
  "attempt r f = (case r of None \<Rightarrow> Threw | Some x \<Rightarrow> f x)"

definition member :: "'j json_api \<Rightarrow> 'j \<Rightarrow> string \<Rightarrow> ('j \<Rightarrow> 'b parsed) \<Rightarrow> 'b parsed" where
  "member J j k f = (case j_find J j k of None \<Rightarrow> Rejected | Some v \<Rightarrow> f v)"

definition first_of :: "'j json_api \<Rightarrow> 'j \<Rightarrow> string \<Rightarrow> ('j \<Rightarrow> 'b parsed) \<Rightarrow> 'b parsed" where
  "first_of J j k f = member J j k (\<lambda>v.
     if \<not> j_is_array J v \<or> j_elems J v = [] then Rejected else f (hd (j_elems J v)))"

definition parse_text :: "'j json_api \<Rightarrow> string \<Rightarrow> ('j \<Rightarrow> 'b parsed) \<Rightarrow> 'b parsed" where
  "parse_text J msg f = (case j_parse J msg of None \<Rightarrow> Rejected | Some j \<Rightarrow> f j)"

text \<open>\<^verbatim>\<open>Level{parsePriceToTicks(px), parseQtyToLots(qt), px, qt}\<close> and the reading of one level.\<close>

definition text_level :: "string \<Rightarrow> string \<Rightarrow> level option" where
  "text_level px qt =
     (case (parsePriceToTicks px, parseQtyToLots qt) of (Inr t, Inr q) \<Rightarrow> Some (Level t q px qt) | _ \<Rightarrow> None)"

definition string_level :: "'j json_api \<Rightarrow> 'j \<Rightarrow> level option" where
  "string_level J lvl = do {
     px \<leftarrow> j_idx J lvl 0 \<bind> j_str J;
     qt \<leftarrow> j_idx J lvl 1 \<bind> j_str J;
     text_level px qt
   }"

definition has_two :: "'j json_api \<Rightarrow> 'j \<Rightarrow> bool" where
  "has_two J lvl \<longleftrightarrow> \<not> (\<not> j_is_array J lvl \<or> j_size J lvl < 2)"

text \<open>The level lists of an optional member.\<close>

definition opt_levels :: "'j json_api \<Rightarrow> ('j \<Rightarrow> level list option) \<Rightarrow> 'j \<Rightarrow> string \<Rightarrow> level list option" where
  "opt_levels J parse d k = (case j_find J d k of None \<Rightarrow> Some [] | Some v \<Rightarrow> parse v)"

definition prev_seq :: "u64 \<Rightarrow> u64" where
  "prev_seq u = (if u > 0 then u - 1 else 0)"


section \<open>Binance\<close>

definition binance_caps :: VenueCaps where
  "binance_caps = default_caps\<lparr>sync_mode := RestAnchored, ws_sends_snapshot := False, has_checksum := False,
     can_backfill := False\<rparr>"

definition binance_wsEndpoint :: "FeedHandlerConfig \<Rightarrow> EndPoint" where
  "binance_wsEndpoint cfg = \<lparr>
     ep_host = (if ws_host cfg = [] then ''stream.binance.com'' else ws_host cfg),
     ep_port = (if ws_port cfg = [] then ''9443'' else ws_port cfg),
     ep_target = (if ws_path cfg \<noteq> [] then ws_path cfg
                  else ''/ws/'' @ ws_symbol BINANCE cfg @ ''@depth@100ms'')\<rparr>"

definition binance_restEndpoint :: "FeedHandlerConfig \<Rightarrow> EndPoint" where
  "binance_restEndpoint cfg = \<lparr>
     ep_host = (if rest_host cfg = [] then ''api.binance.com'' else rest_host cfg),
     ep_port = (if rest_port cfg = [] then ''443'' else rest_port cfg),
     ep_target = rest_path cfg\<rparr>"

definition binance_wsSubscribeFrame :: "FeedHandlerConfig \<Rightarrow> string" where
  "binance_wsSubscribeFrame cfg = []"

definition binance_restSnapshotTarget :: "FeedHandlerConfig \<Rightarrow> string" where
  "binance_restSnapshotTarget cfg =
     ''/api/v3/depth?symbol='' @ rest_symbol BINANCE cfg @ ''&limit='' @ nat_str (depthLevel cfg)"

definition binance_isIncremental :: "string \<Rightarrow> bool" where
  "binance_isIncremental msg = has_sub ''depthUpdate'' msg"

definition binance_parseIncremental :: "'j json_api \<Rightarrow> string \<Rightarrow> GenericIncrementalFormat parsed" where
  "binance_parseIncremental J msg = parse_text J msg (\<lambda>j.
     member J j ''e'' (\<lambda>e.
     if \<not> (j_is_string J e \<and> j_str J e = Some ''depthUpdate'') then Rejected else
     member J j ''U'' (\<lambda>jU. member J j ''u'' (\<lambda>ju. member J j ''b'' (\<lambda>b. member J j ''a'' (\<lambda>a.
     attempt (j_u64 J jU) (\<lambda>fs.
     attempt (j_u64 J ju) (\<lambda>ls.
     attempt (j_value J (j_u64 J) j ''pu'' (if ls > 0 then ls - 1 else 0)) (\<lambda>pu.
     attempt (those (map (string_level J) (j_elems J b))) (\<lambda>bids.
     attempt (those (map (string_level J) (j_elems J a))) (\<lambda>asks.
     Parsed (incremental_reset\<lparr>first_seq := fs, last_seq := ls, prev_last := pu,
       inc_bids := bids, inc_asks := asks\<rparr>))))))))))))"

text \<open>\<^verbatim>\<open>catch (...)\<close>: every exception is a failed parse. A missing \<^verbatim>\<open>bids\<close> is created as null by the
  non-constant index operator, and has no elements.\<close>

definition binance_parseSnapshot :: "'j json_api \<Rightarrow> string \<Rightarrow> GenericSnapshotFormat parsed" where
  "binance_parseSnapshot J body =
     (case parse_text J body (\<lambda>j.
        attempt (j_find J j ''lastUpdateId'' \<bind> j_u64 J) (\<lambda>n.
        attempt (opt_levels J (\<lambda>v. those (map (string_level J) (j_elems J v))) j ''bids'') (\<lambda>bids.
        attempt (opt_levels J (\<lambda>v. those (map (string_level J) (j_elems J v))) j ''asks'') (\<lambda>asks.
        Parsed (snapshot_reset\<lparr>lastUpdateId := n, snap_bids := bids, snap_asks := asks\<rparr>)))))
      of Threw \<Rightarrow> Rejected | r \<Rightarrow> r)"

section \<open>Bybit\<close>

definition bybit_caps :: VenueCaps where
  "bybit_caps = default_caps\<lparr>sync_mode := WsAuthoritative, ws_sends_snapshot := True, has_checksum := False,
     can_backfill := False\<rparr>"

definition bybit_wsEndpoint :: "FeedHandlerConfig \<Rightarrow> EndPoint" where
  "bybit_wsEndpoint cfg = \<lparr>
     ep_host = (if ws_host cfg = [] then ''stream.bybit.com'' else ws_host cfg),
     ep_port = (if ws_port cfg = [] then ''443'' else ws_port cfg),
     ep_target = (if ws_path cfg = [] then ''/v5/public/spot'' else ws_path cfg)\<rparr>"

definition bybit_restEndpoint :: "FeedHandlerConfig \<Rightarrow> EndPoint" where
  "bybit_restEndpoint cfg = \<lparr>
     ep_host = (if rest_host cfg = [] then ''api.bybit.com'' else rest_host cfg),
     ep_port = (if rest_port cfg = [] then ''443'' else rest_port cfg),
     ep_target = rest_path cfg\<rparr>"

definition bybit_depth :: "nat \<Rightarrow> nat" where
  "bybit_depth depth = (if depth \<ge> 200 then 200 else if depth \<ge> 50 then 50 else 1)"

definition bybit_wsSubscribeFrame :: "'j json_api \<Rightarrow> FeedHandlerConfig \<Rightarrow> string" where
  "bybit_wsSubscribeFrame J cfg = j_dump J (mk_obj J [
     (''op'', mk_str J ''subscribe''),
     (''args'', mk_arr J [mk_str J (''orderbook.'' @ nat_str (bybit_depth (depthLevel cfg)) @ ''.'' @ ws_symbol BYBIT cfg)])])"

definition bybit_restSnapshotTarget :: "FeedHandlerConfig \<Rightarrow> string" where
  "bybit_restSnapshotTarget cfg = []"

definition bybit_isSnapshot :: "string \<Rightarrow> bool" where
  \<open>bybit_isSnapshot msg = has_sub ''"type":"snapshot"'' msg\<close>

definition bybit_isIncremental :: "string \<Rightarrow> bool" where
  \<open>bybit_isIncremental msg = has_sub ''"type":"delta"'' msg\<close>

definition parseLevels2col_bybit :: "'j json_api \<Rightarrow> 'j \<Rightarrow> level list option" where
  "parseLevels2col_bybit J arr =
     (if \<not> j_is_array J arr then Some []
      else those (map (string_level J) (filter (has_two J) (j_elems J arr))))"

definition bybit_parseWsSnapshot :: "'j json_api \<Rightarrow> string \<Rightarrow> GenericSnapshotFormat parsed" where
  "bybit_parseWsSnapshot J msg = parse_text J msg (\<lambda>j.
     attempt (j_value J (j_str J) j ''type'' []) (\<lambda>ty.
     if ty \<noteq> ''snapshot'' then Rejected else
     member J j ''data'' (\<lambda>d.
     if \<not> j_is_object J d then Rejected else
     member J d ''u'' (\<lambda>ju.
     attempt (j_u64 J ju) (\<lambda>u.
     attempt (opt_levels J (parseLevels2col_bybit J) d ''b'') (\<lambda>bids.
     attempt (opt_levels J (parseLevels2col_bybit J) d ''a'') (\<lambda>asks.
     Parsed (snapshot_reset\<lparr>lastUpdateId := u, snap_bids := bids, snap_asks := asks\<rparr>))))))))"

definition bybit_parseIncremental :: "'j json_api \<Rightarrow> string \<Rightarrow> GenericIncrementalFormat parsed" where
  "bybit_parseIncremental J msg = parse_text J msg (\<lambda>j.
     attempt (j_value J (j_str J) j ''type'' []) (\<lambda>ty.
     if ty \<noteq> ''delta'' then Rejected else
     member J j ''data'' (\<lambda>d.
     if \<not> j_is_object J d then Rejected else
     member J d ''u'' (\<lambda>ju.
     attempt (j_u64 J ju) (\<lambda>u.
     attempt (opt_levels J (parseLevels2col_bybit J) d ''b'') (\<lambda>bids.
     attempt (opt_levels J (parseLevels2col_bybit J) d ''a'') (\<lambda>asks.
     Parsed (incremental_reset\<lparr>first_seq := u, last_seq := u, prev_last := prev_seq u,
       inc_bids := bids, inc_asks := asks\<rparr>))))))))"

section \<open>Bitget\<close>

definition bitget_caps :: VenueCaps where
  "bitget_caps = default_caps\<lparr>sync_mode := WsAuthoritative, ws_sends_snapshot := True, has_checksum := False,
     caps_checksum_fn := None, caps_checksum_top_n := 25, can_backfill := False, allow_seq_gap := True\<rparr>"

definition bitget_wsEndpoint :: "FeedHandlerConfig \<Rightarrow> EndPoint" where
  "bitget_wsEndpoint cfg = \<lparr>
     ep_host = (if ws_host cfg = [] then ''ws.bitget.com'' else ws_host cfg),
     ep_port = (if ws_port cfg = [] then ''443'' else ws_port cfg),
     ep_target = (if ws_path cfg = [] then ''/v2/ws/public'' else ws_path cfg)\<rparr>"

definition bitget_restEndpoint :: "FeedHandlerConfig \<Rightarrow> EndPoint" where
  "bitget_restEndpoint cfg = \<lparr>
     ep_host = (if rest_host cfg = [] then ''api.bitget.com'' else rest_host cfg),
     ep_port = (if rest_port cfg = [] then ''443'' else rest_port cfg),
     ep_target = rest_path cfg\<rparr>"

definition bitget_wsSubscribeFrame :: "'j json_api \<Rightarrow> FeedHandlerConfig \<Rightarrow> string" where
  "bitget_wsSubscribeFrame J cfg = j_dump J (mk_obj J [
     (''op'', mk_str J ''subscribe''),
     (''args'', mk_arr J [mk_obj J [(''instType'', mk_str J ''SPOT''), (''channel'', mk_str J ''books''),
        (''instId'', mk_str J (ws_symbol BITGET cfg))]])])"

definition bitget_restSnapshotTarget :: "FeedHandlerConfig \<Rightarrow> string" where
  "bitget_restSnapshotTarget cfg = []"

definition looksLikeBitgetBooks :: "string \<Rightarrow> bool" where
  \<open>looksLikeBitgetBooks msg \<longleftrightarrow> has_sub ''"channel":"books'' msg \<and> has_sub ''"data"'' msg\<close>

definition bitget_isSnapshot :: "string \<Rightarrow> bool" where
  \<open>bitget_isSnapshot msg = (if \<not> looksLikeBitgetBooks msg then False else has_sub ''"action":"snapshot"'' msg)\<close>

definition bitget_isIncremental :: "string \<Rightarrow> bool" where
  \<open>bitget_isIncremental msg = (if \<not> looksLikeBitgetBooks msg then False else has_sub ''"action":"update"'' msg)\<close>

definition bitget_parseLevels2col :: "'j json_api \<Rightarrow> 'j \<Rightarrow> level list option" where
  "bitget_parseLevels2col J arr =
     (if \<not> j_is_array J arr then Some []
      else those (map (string_level J) (filter (has_two J) (j_elems J arr))))"

text \<open>The checksum of the first data element, else of the message, else zero.\<close>

definition checksum_value :: "'j json_api \<Rightarrow> 'j \<Rightarrow> i64 option" where
  "checksum_value J v = (if j_is_string J v then j_str J v \<bind> stoll else j_i64 J v)"

definition find_checksum :: "'j json_api \<Rightarrow> 'j \<Rightarrow> 'j \<Rightarrow> i64 option" where
  "find_checksum J d0 j =
     (case j_find J d0 ''checksum'' of Some v \<Rightarrow> checksum_value J v
      | None \<Rightarrow> (case j_find J j ''checksum'' of Some v \<Rightarrow> checksum_value J v | None \<Rightarrow> Some 0))"

definition bitget_seq :: "'j json_api \<Rightarrow> 'j \<Rightarrow> u64" where
  "bitget_seq J d0 = (case j_find J d0 ''seq'' of None \<Rightarrow> 0
     | Some v \<Rightarrow> (case json_to_u64_flexible J v of Some s \<Rightarrow> s | None \<Rightarrow> 0))"

definition bitget_parseWsSnapshot :: "'j json_api \<Rightarrow> string \<Rightarrow> GenericSnapshotFormat parsed" where
  "bitget_parseWsSnapshot J msg = parse_text J msg (\<lambda>j.
     attempt (j_value J (j_str J) j ''action'' []) (\<lambda>act.
     if act \<noteq> ''snapshot'' then Rejected else
     first_of J j ''data'' (\<lambda>d0.
     member J d0 ''bids'' (\<lambda>jb. member J d0 ''asks'' (\<lambda>ja.
     attempt (find_checksum J d0 j) (\<lambda>ck.
     attempt (bitget_parseLevels2col J jb) (\<lambda>bids.
     attempt (bitget_parseLevels2col J ja) (\<lambda>asks.
     Parsed (snapshot_reset\<lparr>lastUpdateId := bitget_seq J d0, snap_checksum := ck,
       snap_bids := bids, snap_asks := asks\<rparr>)))))))))"

definition bitget_parseIncremental :: "'j json_api \<Rightarrow> string \<Rightarrow> GenericIncrementalFormat parsed" where
  "bitget_parseIncremental J msg = parse_text J msg (\<lambda>j.
     attempt (j_value J (j_str J) j ''action'' []) (\<lambda>act.
     if act \<noteq> ''update'' then Rejected else
     first_of J j ''data'' (\<lambda>d0.
     member J d0 ''bids'' (\<lambda>jb. member J d0 ''asks'' (\<lambda>ja.
     let s = bitget_seq J d0;
         ck = (case j_find J d0 ''checksum'' of None \<Rightarrow> 0
               | Some v \<Rightarrow> (case json_to_i64_flexible J v of Some c \<Rightarrow> c | None \<Rightarrow> 0))
     in attempt (bitget_parseLevels2col J jb) (\<lambda>bids.
     attempt (bitget_parseLevels2col J ja) (\<lambda>asks.
     Parsed (incremental_reset\<lparr>first_seq := s, last_seq := s, prev_last := prev_seq s, inc_checksum := ck,
       inc_bids := bids, inc_asks := asks\<rparr>))))))))"


section \<open>OKX\<close>

definition okx_caps :: VenueCaps where
  "okx_caps = default_caps\<lparr>sync_mode := WsAuthoritative, ws_sends_snapshot := True, has_checksum := True,
     can_backfill := False\<rparr>"

definition okx_wsEndpoint :: "FeedHandlerConfig \<Rightarrow> EndPoint" where
  "okx_wsEndpoint cfg = \<lparr>
     ep_host = (if ws_host cfg = [] then ''wseea.okx.com'' else ws_host cfg),
     ep_port = (if ws_port cfg = [] then ''8443'' else ws_port cfg),
     ep_target = (if ws_path cfg = [] then ''/ws/v5/public'' else ws_path cfg)\<rparr>"

definition okx_restEndpoint :: "FeedHandlerConfig \<Rightarrow> EndPoint" where
  "okx_restEndpoint cfg = \<lparr>
     ep_host = (if rest_host cfg = [] then ''eea.okx.com'' else rest_host cfg),
     ep_port = (if rest_port cfg = [] then ''443'' else rest_port cfg),
     ep_target = rest_path cfg\<rparr>"

definition okx_wsSubscribeFrame :: "'j json_api \<Rightarrow> FeedHandlerConfig \<Rightarrow> string" where
  "okx_wsSubscribeFrame J cfg = j_dump J (mk_obj J [
     (''op'', mk_str J ''subscribe''),
     (''args'', mk_arr J [mk_obj J [(''channel'', mk_str J ''books''),
        (''instId'', mk_str J (ws_symbol OKX cfg))]])])"

definition okx_restSnapshotTarget :: "FeedHandlerConfig \<Rightarrow> string" where
  "okx_restSnapshotTarget cfg = ''/api/v5/market/books?instId='' @ rest_symbol OKX cfg @
     ''&sz='' @ nat_str (min (depthLevel cfg) 400)"

definition looksLikeOKXBooks :: "string \<Rightarrow> bool" where
  \<open>looksLikeOKXBooks msg \<longleftrightarrow> has_sub ''"channel":"books'' msg \<and> has_sub ''"data"'' msg\<close>

definition okx_isSnapshot :: "string \<Rightarrow> bool" where
  \<open>okx_isSnapshot msg = (if \<not> looksLikeOKXBooks msg then False else has_sub ''"action":"snapshot"'' msg)\<close>

definition okx_isIncremental :: "string \<Rightarrow> bool" where
  \<open>okx_isIncremental msg = (if \<not> looksLikeOKXBooks msg then False else has_sub ''"action":"update"'' msg)\<close>

definition okx_parseLevels2col :: "'j json_api \<Rightarrow> 'j \<Rightarrow> level list option" where
  "okx_parseLevels2col J arr =
     (if \<not> j_is_array J arr then Some []
      else those (map (string_level J) (filter (has_two J) (j_elems J arr))))"

definition okx_parseWsSnapshot :: "'j json_api \<Rightarrow> string \<Rightarrow> GenericSnapshotFormat parsed" where
  "okx_parseWsSnapshot J msg = parse_text J msg (\<lambda>j.
     attempt (j_value J (j_str J) j ''action'' []) (\<lambda>act.
     if act \<noteq> ''snapshot'' then Rejected else
     first_of J j ''data'' (\<lambda>d0.
     member J d0 ''seqId'' (\<lambda>js.
     attempt (j_u64 J js) (\<lambda>s.
     attempt (find_checksum J d0 j) (\<lambda>ck.
     attempt (opt_levels J (okx_parseLevels2col J) d0 ''bids'') (\<lambda>bids.
     attempt (opt_levels J (okx_parseLevels2col J) d0 ''asks'') (\<lambda>asks.
     Parsed (snapshot_reset\<lparr>lastUpdateId := s, snap_checksum := ck,
       snap_bids := bids, snap_asks := asks\<rparr>)))))))))"

definition okx_parseIncremental :: "'j json_api \<Rightarrow> string \<Rightarrow> GenericIncrementalFormat parsed" where
  "okx_parseIncremental J msg = parse_text J msg (\<lambda>j.
     attempt (j_value J (j_str J) j ''action'' []) (\<lambda>act.
     if act \<noteq> ''update'' then Rejected else
     first_of J j ''data'' (\<lambda>d0.
     member J d0 ''seqId'' (\<lambda>js. member J d0 ''prevSeqId'' (\<lambda>jp.
     attempt (j_i64 J jp) (\<lambda>prev.
     attempt (j_u64 J js) (\<lambda>s.
     let pl = (if prev < 0 then 0 else word_of_int prev)
     in attempt (find_checksum J d0 j) (\<lambda>ck.
     attempt (opt_levels J (okx_parseLevels2col J) d0 ''bids'') (\<lambda>bids.
     attempt (opt_levels J (okx_parseLevels2col J) d0 ''asks'') (\<lambda>asks.
     Parsed (incremental_reset\<lparr>first_seq := pl + 1, last_seq := s, prev_last := pl, inc_checksum := ck,
       inc_bids := bids, inc_asks := asks\<rparr>)))))))))))"

section \<open>KuCoin\<close>

definition is_num_or_str :: "'j json_api \<Rightarrow> 'j \<Rightarrow> bool" where
  "is_num_or_str J j \<longleftrightarrow> j_is_integer J j \<or> j_is_unsigned J j \<or> j_is_string J j"

definition as_u64 :: "'j json_api \<Rightarrow> 'j \<Rightarrow> u64 option" where
  "as_u64 J j =
     (if j_is_string J j then
        (case j_str J j of None \<Rightarrow> None
         | Some s \<Rightarrow>
             (if s = [] \<or> hd s = CHR ''-'' then None
              else case stoull s of None \<Rightarrow> None
                | Some (v, pos) \<Rightarrow> if pos \<noteq> length s then None else Some v))
      else if j_is_unsigned J j then j_u64 J j
      else if j_is_integer J j then
        (case j_i64 J j of None \<Rightarrow> None | Some v \<Rightarrow> if v < 0 then None else Some (word_of_int v))
      else None)"

definition text_or_dump :: "'j json_api \<Rightarrow> 'j \<Rightarrow> string option" where
  "text_or_dump J v = (if j_is_string J v then j_str J v else Some (j_dump J v))"

definition kucoin_level :: "'j json_api \<Rightarrow> 'j \<Rightarrow> level option" where
  "kucoin_level J lvl = do {
     px \<leftarrow> j_idx J lvl 0 \<bind> text_or_dump J;
     sz \<leftarrow> j_idx J lvl 1 \<bind> text_or_dump J;
     text_level px sz
   }"

definition kucoin_parseLevels2col :: "'j json_api \<Rightarrow> 'j \<Rightarrow> level list option" where
  "kucoin_parseLevels2col J arr =
     (if \<not> j_is_array J arr then Some []
      else those (map (kucoin_level J) (filter (has_two J) (j_elems J arr))))"

definition wss_prefix :: string where
  "wss_prefix = ''wss://''"

definition parse_wss_endpoint :: "string \<Rightarrow> (string \<times> string \<times> string) option" where
  "parse_wss_endpoint endpoint0 =
     (if take (length wss_prefix) endpoint0 \<noteq> wss_prefix then None
      else let endpoint = drop (length wss_prefix) endpoint0;
               hostport = takeWhile (\<lambda>c. c \<noteq> CHR ''/'') endpoint;
               out_path = (if CHR ''/'' \<in> set endpoint then dropWhile (\<lambda>c. c \<noteq> CHR ''/'') endpoint else ''/'');
               (out_host, out_port) =
                 (if CHR '':'' \<notin> set hostport then (hostport, ''443'')
                  else let p = tl (dropWhile (\<lambda>c. c \<noteq> CHR '':'') hostport)
                       in (takeWhile (\<lambda>c. c \<noteq> CHR '':'') hostport, if p = [] then ''443'' else p))
           in if out_host = [] then None else Some (out_host, out_port, out_path))"

definition kucoin_wsBootstrapTarget :: "FeedHandlerConfig \<Rightarrow> string" where
  "kucoin_wsBootstrapTarget cfg = ''/api/v1/bullet-public''"

definition ping_hint :: "'j json_api \<Rightarrow> 'j \<Rightarrow> string \<Rightarrow> int option" where
  "ping_hint J s0 k = (case j_find J s0 k of None \<Rightarrow> Some 0
     | Some v \<Rightarrow> if j_is_integer J v \<or> j_is_unsigned J v then j_int J v else Some 0)"

definition ws_target :: "string \<Rightarrow> string \<Rightarrow> string \<Rightarrow> string" where
  "ws_target path token connect_id =
     path @ (if CHR ''?'' \<notin> set path then ''?'' else ''&'') @ ''token='' @ token @ ''&connectId='' @ connect_id"

definition kucoin_parseWsBootstrap :: "'j json_api \<Rightarrow> string \<Rightarrow> string \<Rightarrow> WsBootstrapInfo parsed" where
  "kucoin_parseWsBootstrap J body connect_id = parse_text J body (\<lambda>j.
     member J j ''data'' (\<lambda>d.
     member J d ''token'' (\<lambda>jt.
     if \<not> j_is_string J jt then Rejected else
     attempt (j_str J jt) (\<lambda>token.
     first_of J d ''instanceServers'' (\<lambda>s0.
     member J s0 ''endpoint'' (\<lambda>je.
     if \<not> j_is_string J je then Rejected else
     attempt (j_str J je) (\<lambda>endpoint.
     attempt (ping_hint J s0 ''pingInterval'') (\<lambda>pingInterval.
     attempt (ping_hint J s0 ''pingTimeout'') (\<lambda>pingTimeout.
     case parse_wss_endpoint endpoint of None \<Rightarrow> Rejected
     | Some (host, port, path) \<Rightarrow>
         Parsed \<lparr>bi_ws = \<lparr>ep_host = host, ep_port = port, ep_target = ws_target path token connect_id\<rparr>,
                 ping_interval_ms = pingInterval, ping_timeout_ms = pingTimeout\<rparr>)))))))))"

definition kucoin_caps :: VenueCaps where
  "kucoin_caps = default_caps\<lparr>sync_mode := RestAnchored, ws_sends_snapshot := False, has_checksum := False,
     can_backfill := False, requires_ws_bootstrap := True, allow_seq_gap := True\<rparr>"

definition kucoin_wsEndpoint :: "FeedHandlerConfig \<Rightarrow> EndPoint" where
  "kucoin_wsEndpoint cfg = \<lparr>
     ep_host = (if ws_host cfg = [] then ''ws-api-spot.kucoin.com'' else ws_host cfg),
     ep_port = (if ws_port cfg = [] then ''443'' else ws_port cfg),
     ep_target = (if ws_path cfg = [] then ''/v5/public/spot'' else ws_path cfg)\<rparr>"

definition kucoin_restEndpoint :: "FeedHandlerConfig \<Rightarrow> EndPoint" where
  "kucoin_restEndpoint cfg = \<lparr>
     ep_host = (if rest_host cfg = [] then ''api.kucoin.com'' else rest_host cfg),
     ep_port = (if rest_port cfg = [] then ''443'' else rest_port cfg),
     ep_target = rest_path cfg\<rparr>"

definition kucoin_wsSubscribeFrame :: "'j json_api \<Rightarrow> FeedHandlerConfig \<Rightarrow> string" where
  "kucoin_wsSubscribeFrame J cfg = j_dump J (mk_obj J [
     (''id'', mk_str J ''1''), (''type'', mk_str J ''subscribe''),
     (''topic'', mk_str J (''/market/level2:'' @ ws_symbol KUCOIN cfg)),
     (''privateChannel'', mk_bool J False), (''response'', mk_bool J True)])"

text \<open>\<^verbatim>\<open>static_cast<int>\<close> of the depth keeps its low 32 bits.\<close>

definition kucoin_restSnapshotTarget :: "FeedHandlerConfig \<Rightarrow> string" where
  "kucoin_restSnapshotTarget cfg =
     (let requested = sint (word_of_nat (depthLevel cfg) :: 32 word);
          sz = (if requested \<le> 20 then 20 else 100)
      in ''/api/v1/market/orderbook/level2_'' @ nat_str sz @ ''?symbol='' @ rest_symbol KUCOIN cfg)"

definition kucoin_isIncremental :: "string \<Rightarrow> bool" where
  \<open>kucoin_isIncremental msg =
     (if \<not> has_sub ''"type":"message"'' msg then False
      else if \<not> has_sub ''"subject":"trade.l2update"'' msg then False
      else if \<not> has_sub ''"/market/level2:'' msg then False
      else True)\<close>

definition kucoin_parseSnapshot :: "'j json_api \<Rightarrow> string \<Rightarrow> GenericSnapshotFormat parsed" where
  "kucoin_parseSnapshot J msg = parse_text J msg (\<lambda>j.
     member J j ''data'' (\<lambda>d.
     member J d ''sequence'' (\<lambda>js.
     if \<not> is_num_or_str J js then Rejected else
     case as_u64 J js of None \<Rightarrow> Rejected | Some s \<Rightarrow>
     attempt (opt_levels J (kucoin_parseLevels2col J) d ''bids'') (\<lambda>bids.
     attempt (opt_levels J (kucoin_parseLevels2col J) d ''asks'') (\<lambda>asks.
     Parsed (snapshot_reset\<lparr>lastUpdateId := s, snap_bids := bids, snap_asks := asks\<rparr>))))))"

definition kucoin_parseIncremental :: "'j json_api \<Rightarrow> string \<Rightarrow> GenericIncrementalFormat parsed" where
  "kucoin_parseIncremental J msg = parse_text J msg (\<lambda>j.
     attempt (j_value J (j_str J) j ''type'' []) (\<lambda>ty.
     if ty \<noteq> ''message'' then Rejected else
     attempt (j_value J (j_str J) j ''subject'' []) (\<lambda>sj.
     if sj \<noteq> ''trade.l2update'' then Rejected else
     member J j ''data'' (\<lambda>d.
     member J d ''sequenceStart'' (\<lambda>j1. member J d ''sequenceEnd'' (\<lambda>j2.
     if \<not> is_num_or_str J j1 \<or> \<not> is_num_or_str J j2 then Rejected else
     case as_u64 J j1 of None \<Rightarrow> Rejected | Some fs \<Rightarrow>
     case as_u64 J j2 of None \<Rightarrow> Rejected | Some ls \<Rightarrow>
     member J d ''changes'' (\<lambda>ch.
     attempt (opt_levels J (kucoin_parseLevels2col J) ch ''bids'') (\<lambda>bids.
     attempt (opt_levels J (kucoin_parseLevels2col J) ch ''asks'') (\<lambda>asks.
     Parsed (incremental_reset\<lparr>first_seq := fs, last_seq := ls, prev_last := prev_seq fs,
       inc_bids := bids, inc_asks := asks\<rparr>))))))))))"


section \<open>Dispatch\<close>

text \<open>The variant of adapters and its \<^verbatim>\<open>std::visit\<close> calls, with the hooks the header defines as no-ops.\<close>

datatype adapter = BinanceAdapter | OKXAdapter | BitgetAdapter | BybitAdapter | KucoinAdapter

fun caps :: "adapter \<Rightarrow> VenueCaps" where
  "caps BinanceAdapter = binance_caps"
| "caps OKXAdapter = okx_caps"
| "caps BitgetAdapter = bitget_caps"
| "caps BybitAdapter = bybit_caps"
| "caps KucoinAdapter = kucoin_caps"

fun wsEndpoint :: "adapter \<Rightarrow> FeedHandlerConfig \<Rightarrow> EndPoint" where
  "wsEndpoint BinanceAdapter = binance_wsEndpoint"
| "wsEndpoint OKXAdapter = okx_wsEndpoint"
| "wsEndpoint BitgetAdapter = bitget_wsEndpoint"
| "wsEndpoint BybitAdapter = bybit_wsEndpoint"
| "wsEndpoint KucoinAdapter = kucoin_wsEndpoint"

fun restEndpoint :: "adapter \<Rightarrow> FeedHandlerConfig \<Rightarrow> EndPoint" where
  "restEndpoint BinanceAdapter = binance_restEndpoint"
| "restEndpoint OKXAdapter = okx_restEndpoint"
| "restEndpoint BitgetAdapter = bitget_restEndpoint"
| "restEndpoint BybitAdapter = bybit_restEndpoint"
| "restEndpoint KucoinAdapter = kucoin_restEndpoint"

fun wsSubscribeFrame :: "'j json_api \<Rightarrow> adapter \<Rightarrow> FeedHandlerConfig \<Rightarrow> string" where
  "wsSubscribeFrame J BinanceAdapter = binance_wsSubscribeFrame"
| "wsSubscribeFrame J OKXAdapter = okx_wsSubscribeFrame J"
| "wsSubscribeFrame J BitgetAdapter = bitget_wsSubscribeFrame J"
| "wsSubscribeFrame J BybitAdapter = bybit_wsSubscribeFrame J"
| "wsSubscribeFrame J KucoinAdapter = kucoin_wsSubscribeFrame J"

fun restSnapshotTarget :: "adapter \<Rightarrow> FeedHandlerConfig \<Rightarrow> string" where
  "restSnapshotTarget BinanceAdapter = binance_restSnapshotTarget"
| "restSnapshotTarget OKXAdapter = okx_restSnapshotTarget"
| "restSnapshotTarget BitgetAdapter = bitget_restSnapshotTarget"
| "restSnapshotTarget BybitAdapter = bybit_restSnapshotTarget"
| "restSnapshotTarget KucoinAdapter = kucoin_restSnapshotTarget"

fun isIncremental :: "adapter \<Rightarrow> string \<Rightarrow> bool" where
  "isIncremental BinanceAdapter = binance_isIncremental"
| "isIncremental OKXAdapter = okx_isIncremental"
| "isIncremental BitgetAdapter = bitget_isIncremental"
| "isIncremental BybitAdapter = bybit_isIncremental"
| "isIncremental KucoinAdapter = kucoin_isIncremental"

fun parseIncremental :: "'j json_api \<Rightarrow> adapter \<Rightarrow> string \<Rightarrow> GenericIncrementalFormat parsed" where
  "parseIncremental J BinanceAdapter = binance_parseIncremental J"
| "parseIncremental J OKXAdapter = okx_parseIncremental J"
| "parseIncremental J BitgetAdapter = bitget_parseIncremental J"
| "parseIncremental J BybitAdapter = bybit_parseIncremental J"
| "parseIncremental J KucoinAdapter = kucoin_parseIncremental J"

fun isSnapshot :: "adapter \<Rightarrow> string \<Rightarrow> bool" where
  "isSnapshot BinanceAdapter = (\<lambda>_. False)"
| "isSnapshot OKXAdapter = okx_isSnapshot"
| "isSnapshot BitgetAdapter = bitget_isSnapshot"
| "isSnapshot BybitAdapter = bybit_isSnapshot"
| "isSnapshot KucoinAdapter = (\<lambda>_. False)"

fun parseWsSnapshot :: "'j json_api \<Rightarrow> adapter \<Rightarrow> string \<Rightarrow> GenericSnapshotFormat parsed" where
  "parseWsSnapshot J BinanceAdapter = (\<lambda>_. Rejected)"
| "parseWsSnapshot J OKXAdapter = okx_parseWsSnapshot J"
| "parseWsSnapshot J BitgetAdapter = bitget_parseWsSnapshot J"
| "parseWsSnapshot J BybitAdapter = bybit_parseWsSnapshot J"
| "parseWsSnapshot J KucoinAdapter = (\<lambda>_. Rejected)"

fun parseSnapshot :: "'j json_api \<Rightarrow> adapter \<Rightarrow> string \<Rightarrow> GenericSnapshotFormat parsed" where
  "parseSnapshot J BinanceAdapter = binance_parseSnapshot J"
| "parseSnapshot J OKXAdapter = (\<lambda>_. Rejected)"
| "parseSnapshot J BitgetAdapter = (\<lambda>_. Rejected)"
| "parseSnapshot J BybitAdapter = (\<lambda>_. Rejected)"
| "parseSnapshot J KucoinAdapter = kucoin_parseSnapshot J"

fun wsBootstrapTarget :: "adapter \<Rightarrow> FeedHandlerConfig \<Rightarrow> string" where
  "wsBootstrapTarget KucoinAdapter = kucoin_wsBootstrapTarget"
| "wsBootstrapTarget _ = (\<lambda>_. [])"

fun wsBootstrapBody :: "adapter \<Rightarrow> FeedHandlerConfig \<Rightarrow> string" where
  "wsBootstrapBody _ cfg = []"

fun parseWsBootstrap :: "'j json_api \<Rightarrow> adapter \<Rightarrow> string \<Rightarrow> string \<Rightarrow> WsBootstrapInfo parsed" where
  "parseWsBootstrap J KucoinAdapter = kucoin_parseWsBootstrap J"
| "parseWsBootstrap J _ = (\<lambda>_ _. Rejected)"

text \<open>A level carries the text from which its tick and its quantity were parsed.\<close>

definition level_text_ok :: "level \<Rightarrow> bool" where
  "level_text_ok l \<longleftrightarrow> parsePriceToTicks (price l) = Inr (priceTick l) \<and> parseQtyToLots (quantity l) = Inr (quantityLot l)"

section \<open>Number and endpoint round trips\<close>

lemma stoull_digits:
  assumes "list_all is_digit ds" and "ds \<noteq> []" and "decval ds < 2 ^ 64"
  shows "stoull ds = Some (word_of_int (decval ds), length ds)"
proof -
  obtain c cs where ds: "ds = c # cs" using assms(2) by (cases ds) auto
  have "dropWhile is_space ds = ds" and "hd ds \<noteq> CHR ''-''" and "hd ds \<noteq> CHR ''+''"
    using assms(1) digit_not_space [of c] by (simp_all add: ds)
  moreover have tw: "takeWhile is_digit ds = ds" using assms(1) by (simp add: list_all_iff)
  ultimately show ?thesis using assms(2,3) by (simp add: stoull_def strto_digits_def Let_def tw)
qed

text \<open>The sequence numbers that KuCoin sends as text are read back exactly: the decimal text of any
  64-bit number is accepted as that number.\<close>

theorem as_u64_reads_decimal_text:
  assumes "j_is_string J j" and "j_str J j = Some (nat_str (unat w))"
  shows "as_u64 J j = Some w"
proof -
  note d = nat_str_digits [of "unat w"]
  have lt: "decval (nat_str (unat w)) < 2 ^ 64" using d unsigned_less [of w, where 'a = int] by simp
  have "hd (nat_str (unat w)) \<noteq> CHR ''-''"
    using d digit_not_space by (cases "nat_str (unat w)") auto
  then show ?thesis using d stoull_digits [OF _ _ lt] assms by (simp add: as_u64_def)
qed

theorem as_u64_reads_decimal_text_witness:
  "as_u64 tree_api (TStr (nat_str (unat (42 :: u64)))) = Some 42"
  using as_u64_reads_decimal_text [of tree_api "TStr (nat_str (unat (42 :: u64)))" 42] by simp

lemma split_host:
  assumes "CHR ''/'' \<notin> set h"
  shows "takeWhile (\<lambda>c. c \<noteq> CHR ''/'') (h @ CHR ''/'' # p) = h"
    and "dropWhile (\<lambda>c. c \<noteq> CHR ''/'') (h @ CHR ''/'' # p) = CHR ''/'' # p"
  using assms by (induction h) auto

lemma split_port:
  assumes "CHR '':'' \<notin> set h"
  shows "takeWhile (\<lambda>c. c \<noteq> CHR '':'') (h @ CHR '':'' # p) = h"
    and "dropWhile (\<lambda>c. c \<noteq> CHR '':'') (h @ CHR '':'' # p) = CHR '':'' # p"
  using assms by (induction h) auto

text \<open>Splitting a KuCoin endpoint inverts its construction: from \<^verbatim>\<open>wss://host:port/path\<close> the parser
  recovers host, port and path, and without a port it uses 443.\<close>

theorem wss_endpoint_roundtrip:
  assumes "host \<noteq> []" and "CHR ''/'' \<notin> set host" and "CHR '':'' \<notin> set host"
    and "port \<noteq> []" and "CHR ''/'' \<notin> set port"
  shows "parse_wss_endpoint (''wss://'' @ host @ '':'' @ port @ ''/'' @ path) = Some (host, port, ''/'' @ path) \<and>
    parse_wss_endpoint (''wss://'' @ host @ ''/'' @ path) = Some (host, ''443'', ''/'' @ path)"
  using assms split_host [of "host @ '':'' @ port" path] split_host [of host path] split_port [of host port]
  by (simp add: parse_wss_endpoint_def wss_prefix_def)

theorem wss_endpoint_roundtrip_witness:
  "parse_wss_endpoint ''wss://a.b:8443/x'' = Some (''a.b'', ''8443'', ''/x'')"
  using wss_endpoint_roundtrip [of "''a.b''" "''8443''" "''x''"] by simp

end
