(* ===== verification/WsClient.thy ===== *)
theory WsClient
  imports Zida_Prelude
begin

text \<open>
  The WebSocket client shared by the processes, \<^verbatim>\<open>common/include/connection_handler/WsClient.hpp\<close> and
  \<^verbatim>\<open>common/src/connection_handler/WsClient.cpp\<close>. Every asynchronous operation of the code is an entry of
  the effect log, and its completion handler is a definition of its own, applied to the outcome of
  the operation. The callbacks \<^verbatim>\<open>on_open_\<close>, \<^verbatim>\<open>on_raw_message_\<close> and \<^verbatim>\<open>on_close_\<close> are entries of the same log,
  so that their order is part of the model. All handlers run on one strand. TLS settings, log output
  and the read buffer are left out.
\<close>

type_synonym frame = "string \<times> bool"

datatype ws_effect =
  StartResolve string string | StartTcpConnect | StartTlsHandshake | StartWsHandshake string string
| StartRead | StartWrite frame | StartClose | StartPing | CloseSocket
| CallOpen | CallMessage string | CallClose

record ws_client =
  wc_host :: string
  wc_port :: string
  wc_target :: string
  closing :: bool
  close_notified :: bool
  opened :: bool
  outbox :: "frame list"
  max_outbox :: nat
  write_in_flight :: bool
  deadline_armed :: bool
  ping_armed :: bool
  ping_interval :: int
  ws_log :: "ws_effect list"

definition new_WsClient :: ws_client where
  "new_WsClient = \<lparr>wc_host = [], wc_port = [], wc_target = [], closing = False, close_notified = False,
     opened = False, outbox = [], max_outbox = 10000, write_in_flight = False, deadline_armed = False,
     ping_armed = False, ping_interval = 0, ws_log = []\<rparr>"

definition set_idle_ping :: "int \<Rightarrow> ws_client \<Rightarrow> ws_client" where
  "set_idle_ping interval w = w\<lparr>ping_interval := interval\<rparr>"

definition set_max_outbox :: "nat \<Rightarrow> ws_client \<Rightarrow> ws_client" where
  "set_max_outbox m w = w\<lparr>max_outbox := m\<rparr>"

definition ws_emit :: "ws_effect \<Rightarrow> ws_client \<Rightarrow> ws_client" where
  "ws_emit e w = w\<lparr>ws_log := ws_log w @ [e]\<rparr>"

section \<open>Timers, closing\<close>

definition arm_connect_deadline :: "ws_client \<Rightarrow> ws_client" where
  "arm_connect_deadline w = w\<lparr>deadline_armed := True\<rparr>"

definition disarm_connect_deadline :: "ws_client \<Rightarrow> ws_client" where
  "disarm_connect_deadline w = w\<lparr>deadline_armed := False\<rparr>"

definition start_ping_loop :: "ws_client \<Rightarrow> ws_client" where
  "start_ping_loop w = (if ping_interval w \<le> 0 then w else w\<lparr>ping_armed := True\<rparr>)"

definition stop_ping_loop :: "ws_client \<Rightarrow> ws_client" where
  "stop_ping_loop w = w\<lparr>ping_armed := False\<rparr>"

definition close_socket_hard :: "ws_client \<Rightarrow> ws_client" where
  "close_socket_hard w = ws_emit CloseSocket w"

definition notify_close_once :: "ws_client \<Rightarrow> ws_client" where
  "notify_close_once w = (if close_notified w then w else ws_emit CallClose (w\<lparr>close_notified := True\<rparr>))"

definition ws_fail :: "ws_client \<Rightarrow> ws_client" where
  "ws_fail w =
     (if closing w then notify_close_once w
      else notify_close_once (close_socket_hard (disarm_connect_deadline (stop_ping_loop (w\<lparr>closing := True\<rparr>)))))"

definition deadline_expired :: "ws_client \<Rightarrow> ws_client" where
  "deadline_expired w = (if \<not> deadline_armed w then w else ws_fail (w\<lparr>deadline_armed := False\<rparr>))"

definition ping_tick :: "ws_client \<Rightarrow> ws_client" where
  "ping_tick w =
     (if \<not> ping_armed w then w
      else let w = w\<lparr>ping_armed := False\<rparr> in if closing w \<or> \<not> opened w then w else ws_emit StartPing w)"

definition ping_done :: "bool \<Rightarrow> ws_client \<Rightarrow> ws_client" where
  "ping_done ec w = (if ec then ws_fail w else start_ping_loop w)"

section \<open>Writing\<close>

definition do_write :: "ws_client \<Rightarrow> ws_client" where
  "do_write w = (case outbox w of [] \<Rightarrow> w | f # fs \<Rightarrow> ws_emit (StartWrite f) (w\<lparr>write_in_flight := True\<rparr>))"

definition start_write :: "ws_client \<Rightarrow> ws_client" where
  "start_write w = (if write_in_flight w then w else if outbox w = [] then w else do_write w)"

definition write_done :: "bool \<Rightarrow> ws_client \<Rightarrow> ws_client" where
  "write_done ec w =
     (let w = w\<lparr>write_in_flight := False\<rparr>
      in if ec then ws_fail w else start_write (w\<lparr>outbox := tl (outbox w)\<rparr>))"

text \<open>A full outbox drops its front even while that frame is being written. In the program the write then reads a freed buffer, which is
  undefined behaviour; the model keeps the bookkeeping of the two queues only.\<close>

definition send_frame :: "frame \<Rightarrow> ws_client \<Rightarrow> ws_client" where
  "send_frame f w =
     (if closing w then w
      else if max_outbox w = 0 then w
      else let w = w\<lparr>outbox := push_while (max_outbox w) f (outbox w)\<rparr>
           in if opened w then start_write w else w)"

definition send_text :: "string \<Rightarrow> ws_client \<Rightarrow> ws_client" where
  "send_text text = send_frame (text, False)"

definition send_binary :: "string \<Rightarrow> ws_client \<Rightarrow> ws_client" where
  "send_binary data = send_frame (data, True)"

section \<open>Connecting and reading\<close>

definition ws_connect :: "string \<Rightarrow> string \<Rightarrow> string \<Rightarrow> ws_client \<Rightarrow> ws_client" where
  "ws_connect host port tgt w =
     (let w = disarm_connect_deadline (stop_ping_loop w);
          w = ws_emit CloseSocket w;
          w = w\<lparr>closing := False, opened := False, close_notified := False, outbox := [], write_in_flight := False,
                wc_host := host, wc_port := port, wc_target := tgt\<rparr>
      in ws_emit (StartResolve host port) (arm_connect_deadline w))"

definition resolved :: "bool \<Rightarrow> ws_client \<Rightarrow> ws_client" where
  "resolved ec w = (if closing w then w else if ec then ws_fail w else ws_emit StartTcpConnect w)"

text \<open>The second argument: setting the server name for TLS has failed.\<close>

definition tcp_connected :: "bool \<Rightarrow> bool \<Rightarrow> ws_client \<Rightarrow> ws_client" where
  "tcp_connected ec sni_failed w =
     (if closing w then w else if ec then ws_fail w else if sni_failed then ws_fail w
      else ws_emit StartTlsHandshake w)"

definition tls_done :: "bool \<Rightarrow> ws_client \<Rightarrow> ws_client" where
  "tls_done ec w = (if closing w then w else if ec then ws_fail w
     else ws_emit (StartWsHandshake (wc_host w) (wc_target w)) w)"

definition handshake_done :: "bool \<Rightarrow> ws_client \<Rightarrow> ws_client" where
  "handshake_done ec w =
     (if closing w then w else if ec then ws_fail w
      else let w = start_write ((disarm_connect_deadline w)\<lparr>opened := True\<rparr>)
           in ws_emit StartRead (start_ping_loop (ws_emit CallOpen w)))"

datatype read_result = ReadClosed | ReadError | ReadMessage string

fun read_done :: "read_result \<Rightarrow> ws_client \<Rightarrow> ws_client" where
  "read_done ReadClosed w =
     notify_close_once (close_socket_hard (disarm_connect_deadline (stop_ping_loop (w\<lparr>closing := True\<rparr>))))"
| "read_done ReadError w = ws_fail w"
| "read_done (ReadMessage m) w = ws_emit StartRead (ws_emit (CallMessage m) w)"

definition ws_close :: "ws_client \<Rightarrow> ws_client" where
  "ws_close w =
     (if closing w then w
      else let w = stop_ping_loop (w\<lparr>closing := True\<rparr>)
           in if \<not> opened w then notify_close_once (close_socket_hard w) else ws_emit StartClose w)"

definition close_done :: "ws_client \<Rightarrow> ws_client" where
  "close_done w = notify_close_once (close_socket_hard w)"

definition ws_cancel :: "ws_client \<Rightarrow> ws_client" where
  "ws_cancel w =
     (if closing w then w
      else notify_close_once (close_socket_hard (stop_ping_loop (w\<lparr>closing := True\<rparr>))))"

section \<open>Events on the strand\<close>

datatype ws_event =
  Connect string string string | Resolved bool | TcpConnected bool bool | TlsDone bool | HandshakeDone bool
| ReadDone read_result | WriteDone bool | SendText string | SendBinary string | CloseCall | CloseDone
| CancelCall | DeadlineExpired | PingTick | PingDone bool

fun ws_step :: "ws_event \<Rightarrow> ws_client \<Rightarrow> ws_client" where
  "ws_step (Connect h p t) = ws_connect h p t"
| "ws_step (Resolved ec) = resolved ec"
| "ws_step (TcpConnected ec sni) = tcp_connected ec sni"
| "ws_step (TlsDone ec) = tls_done ec"
| "ws_step (HandshakeDone ec) = handshake_done ec"
| "ws_step (ReadDone r) = read_done r"
| "ws_step (WriteDone ec) = write_done ec"
| "ws_step (SendText s) = send_text s"
| "ws_step (SendBinary s) = send_binary s"
| "ws_step CloseCall = ws_close"
| "ws_step CloseDone = close_done"
| "ws_step CancelCall = ws_cancel"
| "ws_step DeadlineExpired = deadline_expired"
| "ws_step PingTick = ping_tick"
| "ws_step (PingDone ec) = ping_done ec"

lemmas ws_queue_defs = ws_emit_def arm_connect_deadline_def disarm_connect_deadline_def start_ping_loop_def
  stop_ping_loop_def close_socket_hard_def notify_close_once_def ws_fail_def deadline_expired_def
  ping_tick_def ping_done_def write_done_def send_frame_def send_text_def
  send_binary_def ws_connect_def resolved_def tcp_connected_def tls_done_def handshake_done_def
  ws_close_def close_done_def ws_cancel_def Let_def

lemmas ws_defs = ws_queue_defs do_write_def start_write_def

section \<open>One close notification per connection\<close>

text \<open>The effects since the last \<open>connect\<close>.\<close>

fun is_connect :: "ws_effect \<Rightarrow> bool" where
  "is_connect (StartResolve h p) = True"
| "is_connect _ = False"

definition since_connect :: "ws_effect list \<Rightarrow> ws_effect list" where
  "since_connect es = rev (takeWhile (\<lambda>e. \<not> is_connect e) (rev es))"

definition close_inv :: "ws_client \<Rightarrow> bool" where
  "close_inv w \<longleftrightarrow> count_list (since_connect (ws_log w)) CallClose = (if close_notified w then 1 else 0) \<and>
     (closing w \<longrightarrow> close_notified w \<or> StartClose \<in> set (since_connect (ws_log w)))"

lemma since_connect_append [simp]:
  "since_connect (es @ fs) = (if list_ex is_connect fs then since_connect fs else since_connect es @ fs)"
  by (auto simp: since_connect_def takeWhile_append list_ex_iff)

lemma since_connect_Cons [simp]:
  "since_connect [] = []"
  "since_connect (e # es) =
     (if list_ex is_connect es then since_connect es else if is_connect e then es else e # es)"
  using since_connect_append [of "[e]" es] by (auto simp: since_connect_def simp del: since_connect_append)

lemma close_inv_step: "close_inv w \<Longrightarrow> close_inv (ws_step e w)"
proof (cases e)
  case (ReadDone r)
  then show "close_inv w \<Longrightarrow> close_inv (ws_step e w)"
    by (cases r) (auto simp: close_inv_def ws_defs)
qed (auto simp: close_inv_def ws_defs split: list.splits)

interpretation close_notification: steps ws_step close_inv
  by unfold_locales (rule close_inv_step)

text \<open>C28: Over any sequence of calls and completions, in any order, the close callback of a client runs at
  most once per connection; and a connection that is closing has run it, unless an orderly closing
  handshake was started.\<close>

theorem close_callback_once_per_connection:
  "let w = fold ws_step evs new_WsClient; es = since_connect (ws_log w)
   in count_list es CallClose \<le> 1 \<and> (closing w \<longrightarrow> CallClose \<in> set es \<or> StartClose \<in> set es)"
proof -
  have "close_inv (fold ws_step evs new_WsClient)"
    by (rule close_notification.always) (simp add: close_inv_def new_WsClient_def)
  then show ?thesis
    using count_list_0_iff [of "since_connect (ws_log (fold ws_step evs new_WsClient))" CallClose]
    by (auto simp: close_inv_def Let_def split: if_splits)
qed

theorem close_callback_once_per_connection_witness:
  "count_list (since_connect (ws_log (fold ws_step
     [Connect ''h'' ''443'' ''/'', Resolved True, CancelCall, CloseCall] new_WsClient))) CallClose \<le> 1"
  using close_callback_once_per_connection [of "[Connect ''h'' ''443'' ''/'', Resolved True, CancelCall, CloseCall]"]
  by (simp only: Let_def)

section \<open>The outbox\<close>

interpretation ws_outbox: drop_oldest_queue 10000 "push_while 10000"
  by (rule push_while_queue) simp

lemma start_write_frame [simp]:
  "outbox (start_write w) = outbox w" "max_outbox (start_write w) = max_outbox w"
  by (simp_all add: start_write_def do_write_def ws_emit_def split: list.split)

lemma outbox_step:
  "max_outbox (ws_step e w) = max_outbox w \<and>
   (max_outbox w = 10000 \<longrightarrow> length (outbox w) \<le> 10000 \<longrightarrow> length (outbox (ws_step e w)) \<le> 10000)"
proof (cases e)
  case (ReadDone r)
  then show ?thesis by (cases r) (auto simp: ws_defs)
qed (auto simp: ws_queue_defs ws_outbox.push_bound)

lemma outbox_bounded:
  "length (outbox (fold ws_step evs new_WsClient)) \<le> 10000"
proof -
  have "max_outbox (fold ws_step evs w) = 10000 \<and> length (outbox (fold ws_step evs w)) \<le> 10000"
    if "max_outbox w = 10000" and "length (outbox w) \<le> 10000" for w
    using that outbox_step by (induction evs arbitrary: w) auto
  then show ?thesis by (simp add: new_WsClient_def)
qed

text \<open>When the outbox is full while a frame is being written, \<open>send_text\<close> evicts exactly that frame from
  the queue; the completion of its write then removes the following frame, which is never handed to
  the socket: the next frame written is the one after it.\<close>

theorem full_outbox_loses_unsent_frame:
  assumes "write_in_flight w" and "opened w" and "\<not> closing w"
    and "outbox w = being_written # unsent # later # rest" and "length (outbox w) = max_outbox w"
  shows "let w' = write_done False (send_text s w)
    in outbox w' = later # rest @ [(s, False)] \<and> ws_log w' = ws_log w @ [StartWrite later]"
  using assms by (simp add: ws_defs push_while_def)

theorem full_outbox_loses_unsent_frame_witness:
  "let w = fold ws_step [Connect ''h'' ''443'' ''/'', HandshakeDone False, SendText ''a'', SendText ''b'', SendText ''c'']
             (set_max_outbox 3 new_WsClient)
   in outbox (write_done False (send_text ''d'' w)) = [(''c'', False), (''d'', False)]"
proof -
  let ?w = "fold ws_step [Connect ''h'' ''443'' ''/'', HandshakeDone False, SendText ''a'', SendText ''b'', SendText ''c'']
             (set_max_outbox 3 new_WsClient)"
  have "write_in_flight ?w" "opened ?w" "\<not> closing ?w"
    "outbox ?w = (''a'', False) # (''b'', False) # (''c'', False) # []" "length (outbox ?w) = max_outbox ?w"
    by (simp_all add: ws_defs push_while_def new_WsClient_def set_max_outbox_def)
  from full_outbox_loses_unsent_frame [OF this, of "''d''"] show ?thesis by (simp only: Let_def append_Nil)
qed

end
