(* ===== verification/FeedHandler.thy ===== *)
theory FeedHandler
  imports VenueAdapters WsClient
begin

text \<open>
  The feed handler of one venue and symbol, \<^verbatim>\<open>feed/include/md/GenericFeedHandler.hpp\<close> and
  \<^verbatim>\<open>feed/src/md/GenericFeedHandler.cpp\<close>: the synchronisation state machine over the WebSocket client,
  the REST client, the venue adapter and the book controller. The handler runs on the one thread of
  its \<^verbatim>\<open>io_context\<close>; calls into the WebSocket client run at once, and a close notification made inside
  \<^verbatim>\<open>cancel()\<close> re-enters the handler there. A REST request in flight is an entry of \<open>h_rest\<close>, a timer that
  waits is the value it captured, and their completions are events. The system clock, the steady clock
  and the jitter of the backoff are the environment of an event. Published and persisted messages are
  an effect log. An exception that leaves a callback is swallowed by the client that made the call:
  the handler keeps what it had done before. Log output is left out. Before the first \<open>init\<close> the
  controller pointer is null; the model then holds an arbitrary controller, which \<open>init\<close> replaces.
\<close>

section \<open>State\<close>

datatype FeedSyncState = DISCONNECTED | CONNECTING | BOOTSTRAPPING | WAIT_REST_SNAPSHOT
  | WAIT_WS_SNAPSHOT | WAIT_BRIDGE | SYNCED

fun sync_state_to_string :: "FeedSyncState \<Rightarrow> string" where
  "sync_state_to_string DISCONNECTED = ''DISCONNECTED''"
| "sync_state_to_string CONNECTING = ''CONNECTING''"
| "sync_state_to_string BOOTSTRAPPING = ''BOOTSTRAPPING''"
| "sync_state_to_string WAIT_REST_SNAPSHOT = ''WAIT_REST_SNAPSHOT''"
| "sync_state_to_string WAIT_WS_SNAPSHOT = ''WAIT_WS_SNAPSHOT''"
| "sync_state_to_string WAIT_BRIDGE = ''WAIT_BRIDGE''"
| "sync_state_to_string SYNCED = ''SYNCED''"

record RuntimeResolved =
  rt_venue :: VenueId
  rt_depth :: nat
  rt_ws :: EndPoint
  rt_rest :: EndPoint
  rt_wsSubscribeFrame :: string
  rt_restSnapshotTarget :: string
  rt_caps :: VenueCaps
  rt_ws_ping_interval_ms :: int
  rt_ws_ping_timeout_ms :: int
  rt_ws_stale_after_ms :: int

text \<open>A brain sink with the arguments of its constructor; the messages it publishes.\<close>

record brain_sink =
  bs_host :: string
  bs_port :: string
  bs_path :: string
  bs_insecure :: bool
  bs_venue :: string
  bs_symbol :: string
  bs_certfile :: string
  bs_keyfile :: string

datatype pub_event =
  PubStatus string string | PubSnapshot GenericSnapshotFormat string
| PubIncremental GenericIncrementalFormat string | PubBook order_book u64 nat string i64

datatype feed_effect =
  Publish brain_sink pub_event | Persist string pub_event | SinkStart brain_sink | SinkStop brain_sink
| RestGet string string string | RestPost string string string string | RestCancel

datatype rest_wait = SnapshotGet | BootstrapPost

datatype reconnect_wait = ReconnectWait u64 int | SnapshotRetry

record env =
  env_now :: i64
  env_steady_ms :: int
  env_jitter :: double

record gfh =
  h_ws :: ws_client
  h_rest :: "rest_wait list"
  h_connect_id :: string
  h_ctl :: controller
  h_persist :: "string option"
  h_sinks :: "brain_sink list"
  h_cfg :: "FeedHandlerConfig option"
  h_rt :: RuntimeResolved
  h_adapter :: adapter
  h_running :: bool
  h_state :: FeedSyncState
  h_buffer :: "(string \<times> i64) list"
  h_reconnect_timer :: "reconnect_wait option"
  h_watchdog_timer :: "u64 option"
  h_heartbeat_timer :: bool
  h_reconnect_gen :: u64
  h_ws_watchdog_gen :: u64
  h_reconnect_scheduled :: bool
  h_reconnect_delay_ms :: int
  h_closing_for_restart :: bool
  h_ws_watchdog_announced :: bool
  h_last_ws_message_ns :: i64
  h_persist_book_every :: nat
  h_persist_book_top :: nat
  h_updates_since_book :: nat
  h_rest_request_start_ns :: i64
  h_msgs_received :: u64
  h_resyncs :: u64
  h_book_updates :: u64
  h_log :: "feed_effect list"

definition max_buffer :: nat where
  "max_buffer = 10000"

definition kReconnectInitMs :: int where
  "kReconnectInitMs = 1000"

definition kReconnectMaxMs :: int where
  "kReconnectMaxMs = 60000"

definition kDefaultWsPingIntervalMs :: int where
  "kDefaultWsPingIntervalMs = 15000"

definition kMinWsStaleAfterMs :: int where
  "kMinWsStaleAfterMs = 30000"

definition empty_rt :: RuntimeResolved where
  "empty_rt = \<lparr>rt_venue = BINANCE, rt_depth = 0, rt_ws = \<lparr>ep_host = [], ep_port = [], ep_target = []\<rparr>,
     rt_rest = \<lparr>ep_host = [], ep_port = [], ep_target = []\<rparr>, rt_wsSubscribeFrame = [], rt_restSnapshotTarget = [],
     rt_caps = default_caps, rt_ws_ping_interval_ms = 0, rt_ws_ping_timeout_ms = 0, rt_ws_stale_after_ms = 0\<rparr>"

definition new_GenericFeedHandler :: "controller \<Rightarrow> gfh" where
  "new_GenericFeedHandler null = \<lparr>h_ws = new_WsClient, h_rest = [], h_connect_id = [], h_ctl = null,
     h_persist = None, h_sinks = [], h_cfg = None, h_rt = empty_rt, h_adapter = BinanceAdapter,
     h_running = False, h_state = DISCONNECTED, h_buffer = [], h_reconnect_timer = None,
     h_watchdog_timer = None, h_heartbeat_timer = False, h_reconnect_gen = 0, h_ws_watchdog_gen = 0,
     h_reconnect_scheduled = False, h_reconnect_delay_ms = 1000, h_closing_for_restart = False,
     h_ws_watchdog_announced = False, h_last_ws_message_ns = 0, h_persist_book_every = 0,
     h_persist_book_top = 0, h_updates_since_book = 0, h_rest_request_start_ns = 0, h_msgs_received = 0,
     h_resyncs = 0, h_book_updates = 0, h_log = []\<rparr>"

definition makeConnectId :: "env \<Rightarrow> string" where
  "makeConnectId v = int_str (env_steady_ms v)"

section \<open>Publishing\<close>

definition publish :: "pub_event \<Rightarrow> gfh \<Rightarrow> gfh" where
  "publish p h = h\<lparr>h_log := h_log h @ map (\<lambda>s. Publish s p) (h_sinks h)\<rparr>"

definition persist_event :: "pub_event \<Rightarrow> gfh \<Rightarrow> gfh" where
  "persist_event p h = (case h_persist h of None \<Rightarrow> h | Some path \<Rightarrow> h\<lparr>h_log := h_log h @ [Persist path p]\<rparr>)"

definition persist_snapshot :: "GenericSnapshotFormat \<Rightarrow> string \<Rightarrow> gfh \<Rightarrow> gfh" where
  "persist_snapshot snap source h = publish (PubSnapshot snap source) (persist_event (PubSnapshot snap source) h)"

definition persist_incremental :: "GenericIncrementalFormat \<Rightarrow> string \<Rightarrow> gfh \<Rightarrow> gfh" where
  "persist_incremental inc source h = publish (PubIncremental inc source) (persist_event (PubIncremental inc source) h)"

definition maybe_persist_book :: "env \<Rightarrow> string \<Rightarrow> gfh \<Rightarrow> gfh" where
  "maybe_persist_book v source h =
     (if h_persist h = None \<and> h_sinks h = [] then h
      else if h_persist_book_every h = 0 \<or> h_persist_book_top h = 0 then h
      else if \<not> isSynced (h_ctl h) then h
      else let h = h\<lparr>h_updates_since_book := h_updates_since_book h + 1\<rparr>
           in if h_updates_since_book h < h_persist_book_every h then h
              else let h = h\<lparr>h_updates_since_book := 0\<rparr>;
                       p = PubBook (c_book (h_ctl h)) (c_last_seq (h_ctl h)) (h_persist_book_top h) source (env_now v)
                   in publish p (persist_event p h))"

section \<open>State changes, backoff, timers\<close>

definition reset_reconnect_delay :: "gfh \<Rightarrow> gfh" where
  "reset_reconnect_delay h = h\<lparr>h_reconnect_delay_ms := kReconnectInitMs\<rparr>"

fun feed_state :: "FeedSyncState \<Rightarrow> string" where
  "feed_state DISCONNECTED = ''disconnected''"
| "feed_state SYNCED = ''synced''"
| "feed_state _ = ''resyncing''"

definition set_state :: "FeedSyncState \<Rightarrow> string \<Rightarrow> gfh \<Rightarrow> gfh" where
  "set_state nxt reason h =
     (if h_state h = nxt then h
      else let h = h\<lparr>h_state := nxt\<rparr>;
               h = (if nxt = SYNCED then reset_reconnect_delay h else h)
           in if h_sinks h \<noteq> [] then publish (PubStatus (feed_state nxt) reason) h else h)"

text \<open>\<^verbatim>\<open>static_cast<int>\<close> of a double: truncation towards zero.\<close>

fun trunc_int :: "double \<Rightarrow> int" where
  "trunc_int (Fin x) = (if 0 \<le> x then \<lfloor>x\<rfloor> else \<lceil>x\<rceil>)"
| "trunc_int _ = 0"

definition next_reconnect_delay :: "env \<Rightarrow> gfh \<Rightarrow> int \<times> gfh" where
  "next_reconnect_delay v h =
     (let base = h_reconnect_delay_ms h;
          jittered = trunc_int (of_i64 base * (Fin 1 + env_jitter v))
      in (max 100 jittered, h\<lparr>h_reconnect_delay_ms := min (base * 2) kReconnectMaxMs\<rparr>))"

definition schedule_ws_reconnect :: "int \<Rightarrow> gfh \<Rightarrow> gfh" where
  "schedule_ws_reconnect delay h =
     (let my_gen = h_reconnect_gen h + 1
      in h\<lparr>h_reconnect_gen := my_gen, h_reconnect_scheduled := True,
           h_reconnect_timer := Some (ReconnectWait my_gen delay)\<rparr>)"

definition arm_ws_watchdog :: "gfh \<Rightarrow> gfh" where
  "arm_ws_watchdog h =
     (if rt_ws_stale_after_ms (h_rt h) \<le> 0 then h
      else let my_gen = h_ws_watchdog_gen h + 1
           in h\<lparr>h_ws_watchdog_gen := my_gen, h_ws_watchdog_announced := True, h_watchdog_timer := Some my_gen\<rparr>)"

definition disarm_ws_watchdog :: "gfh \<Rightarrow> gfh" where
  "disarm_ws_watchdog h = h\<lparr>h_ws_watchdog_gen := h_ws_watchdog_gen h + 1, h_ws_watchdog_announced := False,
     h_watchdog_timer := None\<rparr>"

text \<open>\<^verbatim>\<open>onWSClose_\<close> when the handler has initiated the close itself.\<close>

definition close_during_restart :: "gfh \<Rightarrow> gfh" where
  "close_during_restart h = (disarm_ws_watchdog h)\<lparr>h_closing_for_restart := False\<rparr>"

definition cancel_ws :: "gfh \<Rightarrow> gfh" where
  "cancel_ws h =
     (let w = ws_cancel (h_ws h); h' = h\<lparr>h_ws := w\<rparr>
      in if close_notified w \<and> \<not> close_notified (h_ws h) then close_during_restart h' else h')"

definition restartSync :: "env \<Rightarrow> string \<Rightarrow> gfh \<Rightarrow> gfh" where
  "restartSync v reason h =
     (if \<not> h_running h then h
      else let h = h\<lparr>h_resyncs := h_resyncs h + 1\<rparr>;
               h = disarm_ws_watchdog h;
               h = h\<lparr>h_buffer := [], h_ctl := resetBook (h_ctl h)\<rparr>;
               h = set_state CONNECTING ''restart_sync'' h;
               h = h\<lparr>h_connect_id := makeConnectId v, h_closing_for_restart := True\<rparr>;
               h = cancel_ws h;
               (delay, h) = next_reconnect_delay v h
           in schedule_ws_reconnect delay h)"

definition onWSClose :: "env \<Rightarrow> gfh \<Rightarrow> gfh" where
  "onWSClose v h =
     (if h_closing_for_restart h then close_during_restart h
      else restartSync v ''unexpected_ws_close'' (disarm_ws_watchdog h))"

section \<open>Connecting\<close>

definition connectWS :: "gfh \<Rightarrow> gfh" where
  "connectWS h =
     (let ping = (if rt_ws_ping_interval_ms (h_rt h) > 0 then rt_ws_ping_interval_ms (h_rt h) else 0);
          ep = rt_ws (h_rt h)
      in h\<lparr>h_ws := ws_connect (ep_host ep) (ep_port ep) (ep_target ep) (set_idle_ping ping (h_ws h))\<rparr>)"

definition bootstrapWS :: "env \<Rightarrow> gfh \<Rightarrow> gfh" where
  "bootstrapWS v h =
     (if \<not> h_running h then h
      else case h_cfg h of None \<Rightarrow> h
        | Some cfg \<Rightarrow>
            (let tgt = wsBootstrapTarget (h_adapter h) cfg
             in if tgt = [] then restartSync v ''bootstrap_missing_target'' h
                else h\<lparr>h_rest := h_rest h @ [BootstrapPost],
                       h_log := h_log h @ [RestPost (ep_host (rt_rest (h_rt h))) (ep_port (rt_rest (h_rt h))) tgt
                                             (wsBootstrapBody (h_adapter h) cfg)]\<rparr>))"

definition on_bootstrap_response :: "'j json_api \<Rightarrow> env \<Rightarrow> bool \<Rightarrow> string \<Rightarrow> gfh \<Rightarrow> gfh" where
  "on_bootstrap_response J v ec resp_body h =
     (if ec then restartSync v ''ws_bootstrap_transport_error'' h
      else case parseWsBootstrap J (h_adapter h) resp_body (h_connect_id h) of
        Threw \<Rightarrow> h
      | Rejected \<Rightarrow> restartSync v ''ws_bootstrap_parse_failed'' h
      | Parsed info \<Rightarrow>
          connectWS (h\<lparr>h_rt := (h_rt h)\<lparr>rt_ws := bi_ws info, rt_ws_ping_interval_ms := ping_interval_ms info,
                                rt_ws_ping_timeout_ms := ping_timeout_ms info\<rparr>\<rparr>))"

definition requestSnapshot :: "env \<Rightarrow> gfh \<Rightarrow> gfh" where
  "requestSnapshot v h =
     (let h = set_state WAIT_REST_SNAPSHOT ''request_snapshot'' h;
          ep = rt_rest (h_rt h)
      in h\<lparr>h_rest_request_start_ns := env_now v, h_rest := h_rest h @ [SnapshotGet],
           h_log := h_log h @ [RestGet (ep_host ep) (ep_port ep) (rt_restSnapshotTarget (h_rt h))]\<rparr>)"

definition onWSOpen :: "env \<Rightarrow> gfh \<Rightarrow> gfh" where
  "onWSOpen v h =
     (if \<not> h_running h then h
      else let h = arm_ws_watchdog (h\<lparr>h_last_ws_message_ns := env_now v\<rparr>);
               h = (if rt_wsSubscribeFrame (h_rt h) \<noteq> []
                    then h\<lparr>h_ws := send_text (rt_wsSubscribeFrame (h_rt h)) (h_ws h)\<rparr> else h)
           in if sync_mode (rt_caps (h_rt h)) = RestAnchored
              then requestSnapshot v (set_state WAIT_REST_SNAPSHOT ''ws_open_rest_anchored'' h)
              else set_state WAIT_WS_SNAPSHOT ''ws_open_ws_authoritative'' h)"

section \<open>Messages\<close>

text \<open>The result of a filter followed by a parser; \<open>drain_loop\<close> has the flag of an exception as second
  result. The buffered message that a throwing parser was given has been moved from: its text is
  empty and it is still in front.\<close>

definition filtered :: "bool \<Rightarrow> 'a parsed \<Rightarrow> 'a parsed" where
  "filtered is_kind r = (if is_kind then r else Rejected)"

fun drain_loop :: "'j json_api \<Rightarrow> env \<Rightarrow> (string \<times> i64) list \<Rightarrow> gfh \<Rightarrow> gfh \<times> bool" where
  "drain_loop J v [] h = (h\<lparr>h_buffer := []\<rparr>, False)"
| "drain_loop J v ((payload, ts) # rest) h =
     (case filtered (isIncremental (h_adapter h) payload) (parseIncremental J (h_adapter h) payload) of
        Threw \<Rightarrow> (h\<lparr>h_buffer := ([], ts) # rest\<rparr>, True)
      | Rejected \<Rightarrow> drain_loop J v rest (h\<lparr>h_buffer := rest\<rparr>)
      | Parsed inc0 \<Rightarrow>
          (let inc = inc0\<lparr>inc_ts_recv_ns := ts\<rparr>;
               (action, c) = onIncrement inc (h_ctl h);
               h = persist_incremental inc ''ws_incremental'' (h\<lparr>h_buffer := rest, h_ctl := c\<rparr>)
           in if action = NeedResync then (restartSync v ''buffered_incremental_need_resync'' h, False)
              else drain_loop J v rest (maybe_persist_book v ''incremental_applied'' h)))"

definition drainBufferedIncrementals :: "'j json_api \<Rightarrow> env \<Rightarrow> gfh \<Rightarrow> gfh \<times> bool" where
  "drainBufferedIncrementals J v h = drain_loop J v (h_buffer h) h"

text \<open>Draining followed by the promotion to \<open>SYNCED\<close>.\<close>

definition drain_and_sync :: "'j json_api \<Rightarrow> env \<Rightarrow> string \<Rightarrow> gfh \<Rightarrow> gfh" where
  "drain_and_sync J v reason h =
     (let (h, threw) = drainBufferedIncrementals J v h
      in if threw then h else if isSynced (h_ctl h) then set_state SYNCED reason h else h)"

definition onSnapshotResponse :: "'j json_api \<Rightarrow> env \<Rightarrow> string \<Rightarrow> gfh \<Rightarrow> gfh" where
  "onSnapshotResponse J v body h =
     (if \<not> h_running h then h
      else case parseSnapshot J (h_adapter h) body of
        Threw \<Rightarrow> h
      | Rejected \<Rightarrow> restartSync v ''rest_snapshot_parse_failed'' h
      | Parsed snap0 \<Rightarrow>
          (let snap = snap0\<lparr>snap_ts_recv_ns := env_now v\<rparr>;
               h = persist_snapshot snap ''rest_snapshot'' h;
               kind = (if sync_mode (rt_caps (h_rt h)) = RestAnchored then RestAnchoredBaseline else WsAuthoritativeBaseline);
               (action, c) = onSnapshot snap kind (h_ctl h);
               h = h\<lparr>h_ctl := c\<rparr>
           in if action = NeedResync then restartSync v ''rest_snapshot_rejected'' h
              else let h = maybe_persist_book v ''snapshot_applied'' h;
                       h = set_state WAIT_BRIDGE ''snapshot_applied'' h
                   in drain_and_sync J v ''post_snapshot_bridge_complete'' h))"

definition on_snapshot_reply :: "'j json_api \<Rightarrow> env \<Rightarrow> bool \<Rightarrow> int \<Rightarrow> string \<Rightarrow> gfh \<Rightarrow> gfh" where
  "on_snapshot_reply J v ec status body h =
     (if \<not> h_running h then h
      else if ec then restartSync v ''rest_snapshot_transport_error'' h
      else if status = 429 \<or> status = 418 then h\<lparr>h_reconnect_timer := Some SnapshotRetry\<rparr>
      else if status < 200 \<or> status \<ge> 300 then restartSync v ''rest_snapshot_http_error'' h
      else onSnapshotResponse J v body h)"

text \<open>Lines 503--509, 544--550 and 598--604: an incremental is kept, or overflows the buffer.\<close>

definition buffer_incremental :: "env \<Rightarrow> string \<Rightarrow> string \<Rightarrow> gfh \<Rightarrow> gfh \<times> bool" where
  "buffer_incremental v reason msg h =
     (if length (h_buffer h) < max_buffer then (h\<lparr>h_buffer := h_buffer h @ [(msg, env_now v)]\<rparr>, True)
      else (restartSync v reason h, False))"

definition on_ws_baseline :: "'j json_api \<Rightarrow> env \<Rightarrow> GenericSnapshotFormat \<Rightarrow> gfh \<Rightarrow> gfh" where
  "on_ws_baseline J v snap0 h =
     (let snap = snap0\<lparr>snap_ts_recv_ns := env_now v\<rparr>;
          h = persist_snapshot snap ''ws_snapshot'' h;
          (action, c) = onSnapshot snap WsAuthoritativeBaseline (h_ctl h);
          h = h\<lparr>h_ctl := c\<rparr>
      in if action = NeedResync then restartSync v ''ws_snapshot_rejected'' h
         else let h = maybe_persist_book v ''snapshot_applied'' h
              in drain_and_sync J v ''ws_snapshot_baseline_ready'' (h\<lparr>h_state := WAIT_BRIDGE\<rparr>))"

definition on_interrupting_snapshot :: "env \<Rightarrow> GenericSnapshotFormat \<Rightarrow> gfh \<Rightarrow> gfh" where
  "on_interrupting_snapshot v snap0 h =
     (let snap = snap0\<lparr>snap_ts_recv_ns := env_now v\<rparr>;
          h = persist_snapshot snap ''ws_snapshot'' h;
          (action, c) = onSnapshot snap WsAuthoritativeBaseline (h_ctl h);
          h = h\<lparr>h_ctl := c\<rparr>
      in if action = NeedResync then restartSync v ''interrupting_ws_snapshot_rejected'' h
         else let h = maybe_persist_book v ''snapshot_applied'' h;
                  h = h\<lparr>h_buffer := []\<rparr>
              in set_state (if isSynced (h_ctl h) then SYNCED else WAIT_BRIDGE) ''interrupting_ws_snapshot'' h)"

definition on_steady_incremental :: "env \<Rightarrow> FeedSyncState \<Rightarrow> GenericIncrementalFormat \<Rightarrow> gfh \<Rightarrow> gfh" where
  "on_steady_incremental v st inc0 h =
     (let inc = inc0\<lparr>inc_ts_recv_ns := env_now v\<rparr>;
          (action, c) = onIncrement inc (h_ctl h);
          h = persist_incremental inc ''ws_incremental'' (h\<lparr>h_ctl := c\<rparr>)
      in if action = NeedResync then restartSync v ''steady_state_incremental_need_resync'' h
         else let h = maybe_persist_book v ''incremental_applied'' (h\<lparr>h_book_updates := h_book_updates h + 1\<rparr>)
              in if st = WAIT_BRIDGE \<and> isSynced (h_ctl h)
                 then set_state SYNCED ''steady_state_bridge_complete'' h else h)"

text \<open>Lines 587--643: incrementals in \<open>WAIT_BRIDGE\<close> and \<open>SYNCED\<close>.\<close>

definition on_live_message :: "'j json_api \<Rightarrow> env \<Rightarrow> FeedSyncState \<Rightarrow> string \<Rightarrow> gfh \<Rightarrow> gfh" where
  "on_live_message J v st msg h =
     (if sync_mode (rt_caps (h_rt h)) = RestAnchored \<and> st = WAIT_BRIDGE then
        (if \<not> isIncremental (h_adapter h) msg then h
         else let (h, kept) = buffer_incremental v ''buffer_overflow_wait_bridge'' msg h
              in if \<not> kept then h else drain_and_sync J v ''ws_buffered_bridge_complete'' h)
      else case filtered (isIncremental (h_adapter h) msg) (parseIncremental J (h_adapter h) msg) of
        Threw \<Rightarrow> h
      | Rejected \<Rightarrow> h
      | Parsed inc \<Rightarrow> on_steady_incremental v st inc h)"

text \<open>Lines 496--647: what a message does in each state.\<close>

definition dispatch_message :: "'j json_api \<Rightarrow> env \<Rightarrow> string \<Rightarrow> gfh \<Rightarrow> gfh" where
  "dispatch_message J v msg h =
     (let st = h_state h;
          snap = filtered (isSnapshot (h_adapter h) msg) (parseWsSnapshot J (h_adapter h) msg)
      in if st = WAIT_REST_SNAPSHOT then
           (if isIncremental (h_adapter h) msg
            then fst (buffer_incremental v ''buffer_overflow_wait_rest_snapshot'' msg h) else h)
         else if st = WAIT_WS_SNAPSHOT then
           (case snap of
              Threw \<Rightarrow> h
            | Parsed s \<Rightarrow> on_ws_baseline J v s h
            | Rejected \<Rightarrow>
                (if isIncremental (h_adapter h) msg
                 then fst (buffer_incremental v ''buffer_overflow_wait_ws_snapshot'' msg h) else h))
         else if st = WAIT_BRIDGE \<or> st = SYNCED then
           (if ws_sends_snapshot (rt_caps (h_rt h)) then
              (case snap of
                 Threw \<Rightarrow> h
               | Parsed s \<Rightarrow> on_interrupting_snapshot v s h
               | Rejected \<Rightarrow> on_live_message J v st msg h)
            else on_live_message J v st msg h)
         else h)"

definition onWSMessage :: "'j json_api \<Rightarrow> env \<Rightarrow> string \<Rightarrow> gfh \<Rightarrow> gfh" where
  "onWSMessage J v msg h =
     (if \<not> h_running h \<or> msg = [] then h
      else dispatch_message J v msg
        (arm_ws_watchdog (h\<lparr>h_msgs_received := h_msgs_received h + 1, h_last_ws_message_ns := env_now v\<rparr>)))"

section \<open>Timer handlers\<close>

definition reconnect_expired :: "env \<Rightarrow> gfh \<Rightarrow> gfh" where
  "reconnect_expired v h =
     (case h_reconnect_timer h of None \<Rightarrow> h
      | Some SnapshotRetry \<Rightarrow>
          (let h = h\<lparr>h_reconnect_timer := None\<rparr> in if \<not> h_running h then h else requestSnapshot v h)
      | Some (ReconnectWait my_gen delay) \<Rightarrow>
          (let h = h\<lparr>h_reconnect_timer := None\<rparr>
           in if \<not> h_running h then h
              else if my_gen \<noteq> h_reconnect_gen h then h
              else let h = h\<lparr>h_reconnect_scheduled := False\<rparr>
                   in if requires_ws_bootstrap (rt_caps (h_rt h))
                      then bootstrapWS v (set_state BOOTSTRAPPING ''scheduled_rebootstrap'' h)
                      else connectWS (set_state CONNECTING ''scheduled_reconnect'' h)))"

definition watchdog_expired :: "env \<Rightarrow> gfh \<Rightarrow> gfh" where
  "watchdog_expired v h =
     (case h_watchdog_timer h of None \<Rightarrow> h
      | Some my_gen \<Rightarrow>
          (let h = h\<lparr>h_watchdog_timer := None\<rparr>
           in if \<not> h_running h then h
              else if my_gen \<noteq> h_ws_watchdog_gen h then h
              else if h_state h = DISCONNECTED \<or> h_state h = CONNECTING \<or> h_state h = BOOTSTRAPPING then h
              else if h_last_ws_message_ns h > 0 \<and>
                      env_now v - h_last_ws_message_ns h \<ge> rt_ws_stale_after_ms (h_rt h) * 1000000
                   then restartSync v ''stale_ws_feed'' h
              else h))"

definition arm_heartbeat :: "gfh \<Rightarrow> gfh" where
  "arm_heartbeat h = h\<lparr>h_heartbeat_timer := True\<rparr>"

definition emit_heartbeat :: "gfh \<Rightarrow> gfh" where
  "emit_heartbeat h = h\<lparr>h_msgs_received := 0, h_book_updates := 0\<rparr>"

definition heartbeat_expired :: "gfh \<Rightarrow> gfh" where
  "heartbeat_expired h =
     (if \<not> h_heartbeat_timer h then h
      else let h = h\<lparr>h_heartbeat_timer := False\<rparr>
           in if \<not> h_running h then h else arm_heartbeat (emit_heartbeat h))"

section \<open>Life cycle\<close>

datatype FeedOpResult = OK | ERROR

fun makeAdapter :: "VenueId \<Rightarrow> adapter" where
  "makeAdapter BINANCE = BinanceAdapter"
| "makeAdapter OKX = OKXAdapter"
| "makeAdapter BITGET = BitgetAdapter"
| "makeAdapter BYBIT = BybitAdapter"
| "makeAdapter KUCOIN = KucoinAdapter"
| "makeAdapter UNKNOWN = BinanceAdapter"

definition resolve_rt :: "'j json_api \<Rightarrow> FeedHandlerConfig \<Rightarrow> RuntimeResolved \<Rightarrow> RuntimeResolved" where
  "resolve_rt J cfg rt =
     (let a = makeAdapter (venue_name cfg); re = restEndpoint a cfg;
          re = (if rest_host cfg \<noteq> [] then re\<lparr>ep_host := rest_host cfg\<rparr> else re);
          re = (if rest_port cfg \<noteq> [] then re\<lparr>ep_port := rest_port cfg\<rparr> else re);
          stale = (if rt_ws_ping_timeout_ms rt > 0 then max (rt_ws_ping_timeout_ms rt) kMinWsStaleAfterMs
                   else if kDefaultWsPingIntervalMs > 0 then max (kDefaultWsPingIntervalMs * 3) kMinWsStaleAfterMs
                   else kMinWsStaleAfterMs)
      in rt\<lparr>rt_caps := caps a, rt_venue := venue_name cfg, rt_depth := depthLevel cfg,
            rt_ws := wsEndpoint a cfg, rt_rest := re, rt_wsSubscribeFrame := wsSubscribeFrame J a cfg,
            rt_restSnapshotTarget := (if rest_path cfg \<noteq> [] then rest_path cfg else restSnapshotTarget a cfg),
            rt_ws_ping_interval_ms := kDefaultWsPingIntervalMs, rt_ws_stale_after_ms := stale\<rparr>)"

definition configure_controller :: "FeedHandlerConfig \<Rightarrow> VenueCaps \<Rightarrow> controller \<Rightarrow> controller" where
  "configure_controller cfg cp c =
     (let c = setHasChecksum (has_checksum cp) (configureChecksum (caps_checksum_fn cp) (caps_checksum_top_n cp) c);
          c = (if cfg_require_checksum cfg then setRequireChecksum True c else c);
          c = setAllowSequenceGap (allow_seq_gap cp) c
      in if validate_every cfg > 0 then setValidatePeriod (nat (validate_every cfg)) c else c)"

definition brain_sinks_of :: "FeedHandlerConfig \<Rightarrow> brain_sink list" where
  "brain_sinks_of cfg =
     (if brain_ws_host cfg \<noteq> [] then [\<lparr>bs_host = brain_ws_host cfg, bs_port = brain_ws_port cfg,
        bs_path = brain_ws_path cfg, bs_insecure = brain_ws_insecure cfg,
        bs_venue = venue_to_string (venue_name cfg), bs_symbol = cfg_symbol cfg,
        bs_certfile = brain_ws_certfile cfg, bs_keyfile = brain_ws_keyfile cfg\<rparr>] else []) @
     (if brain2_ws_host cfg \<noteq> [] then [\<lparr>bs_host = brain2_ws_host cfg, bs_port = brain2_ws_port cfg,
        bs_path = brain2_ws_path cfg, bs_insecure = brain2_ws_insecure cfg,
        bs_venue = venue_to_string (venue_name cfg), bs_symbol = cfg_symbol cfg,
        bs_certfile = brain2_ws_certfile cfg, bs_keyfile = brain2_ws_keyfile cfg\<rparr>] else [])"

text \<open>Whether the persistence file can be opened is an argument.\<close>

definition init :: "'j json_api \<Rightarrow> (string \<Rightarrow> bool) \<Rightarrow> FeedHandlerConfig \<Rightarrow> gfh \<Rightarrow> FeedOpResult \<times> gfh" where
  "init J can_open cfg h =
     (if h_running h then (ERROR, h)
      else if depthLevel cfg = 0 then (ERROR, h)
      else let rt = resolve_rt J cfg (h_rt h)
           in case new_OrderBookController (rt_depth rt) of Inl _ \<Rightarrow> (ERROR, h)
              | Inr c0 \<Rightarrow>
                  (let h = h\<lparr>h_cfg := Some cfg, h_adapter := makeAdapter (venue_name cfg), h_rt := rt,
                         h_ctl := configure_controller cfg (rt_caps rt) c0,
                         h_persist_book_every := cfg_persist_book_every_updates cfg,
                         h_persist_book_top := (if cfg_persist_book_top cfg > 0 then cfg_persist_book_top cfg else rt_depth rt),
                         h_updates_since_book := 0,
                         h_persist := (if persist_path cfg \<noteq> [] \<and> can_open (persist_path cfg) then Some (persist_path cfg) else None),
                         h_sinks := brain_sinks_of cfg, h_buffer := []\<rparr>;
                       h = set_state DISCONNECTED ''init'' h
                   in (OK, h\<lparr>h_last_ws_message_ns := 0, h_ws_watchdog_gen := 0, h_ws_watchdog_announced := False\<rparr>)))"

definition start :: "env \<Rightarrow> gfh \<Rightarrow> FeedOpResult \<times> gfh" where
  "start v h =
     (if h_running h then (ERROR, h)
      else let h = set_state CONNECTING ''start'' (h\<lparr>h_running := True\<rparr>);
               h = h\<lparr>h_connect_id := makeConnectId v, h_log := h_log h @ map SinkStart (h_sinks h)\<rparr>
           in if requires_ws_bootstrap (rt_caps (h_rt h))
              then (OK, bootstrapWS v (set_state BOOTSTRAPPING ''venue_bootstrap_required'' h))
              else (OK, connectWS (arm_heartbeat h)))"

definition stop :: "gfh \<Rightarrow> FeedOpResult \<times> gfh" where
  "stop h =
     (let h = h\<lparr>h_running := False, h_log := h_log h @ [RestCancel], h_ws := ws_close (h_ws h)\<rparr>;
          h = h\<lparr>h_log := h_log h @ map SinkStop (h_sinks h)\<rparr>;
          h = (disarm_ws_watchdog h)\<lparr>h_heartbeat_timer := False\<rparr>;
          h = set_state DISCONNECTED ''stop'' h
      in (OK, h\<lparr>h_buffer := [], h_ctl := resetBook (h_ctl h), h_persist := None, h_sinks := [],
                h_persist_book_every := 0, h_persist_book_top := 0, h_updates_since_book := 0,
                h_last_ws_message_ns := 0, h_ws_watchdog_announced := False\<rparr>))"

section \<open>Events\<close>

text \<open>The callbacks that a step of the WebSocket client makes are run after the step, in their order.\<close>

fun run_callback :: "'j json_api \<Rightarrow> env \<Rightarrow> ws_effect \<Rightarrow> gfh \<Rightarrow> gfh" where
  "run_callback J v CallOpen h = onWSOpen v h"
| "run_callback J v (CallMessage m) h = onWSMessage J v m h"
| "run_callback J v CallClose h = (if \<not> h_running h then h else onWSClose v h)"
| "run_callback J v _ h = h"

definition ws_happens :: "'j json_api \<Rightarrow> env \<Rightarrow> ws_event \<Rightarrow> gfh \<Rightarrow> gfh" where
  "ws_happens J v e h =
     (let w = ws_step e (h_ws h)
      in fold (run_callback J v) (drop (length (ws_log (h_ws h))) (ws_log w)) (h\<lparr>h_ws := w\<rparr>))"

datatype feed_event =
  WsHappens ws_event | SnapshotReply bool int string | BootstrapReply bool string
| ReconnectTimer | WatchdogTimer | HeartbeatTimer | StopCall

fun feed_step :: "'j json_api \<Rightarrow> env \<times> feed_event \<Rightarrow> gfh \<Rightarrow> gfh" where
  "feed_step J (v, WsHappens e) h = ws_happens J v e h"
| "feed_step J (v, SnapshotReply ec status body) h =
     (if SnapshotGet \<in> set (h_rest h)
      then on_snapshot_reply J v ec status body (h\<lparr>h_rest := remove1 SnapshotGet (h_rest h)\<rparr>) else h)"
| "feed_step J (v, BootstrapReply ec body) h =
     (if BootstrapPost \<in> set (h_rest h)
      then on_bootstrap_response J v ec body (h\<lparr>h_rest := remove1 BootstrapPost (h_rest h)\<rparr>) else h)"
| "feed_step J (v, ReconnectTimer) h = reconnect_expired v h"
| "feed_step J (v, WatchdogTimer) h = watchdog_expired v h"
| "feed_step J (v, HeartbeatTimer) h = heartbeat_expired h"
| "feed_step J (v, StopCall) h = snd (stop h)"


section \<open>Frame lemmas\<close>

lemma publish_frame [simp]:
  "h_state (publish p h) = h_state h" "h_running (publish p h) = h_running h" "h_ctl (publish p h) = h_ctl h"
  "h_buffer (publish p h) = h_buffer h" "h_reconnect_delay_ms (publish p h) = h_reconnect_delay_ms h"
  "h_reconnect_timer (publish p h) = h_reconnect_timer h" "h_sinks (publish p h) = h_sinks h"
  "h_rt (publish p h) = h_rt h" "h_adapter (publish p h) = h_adapter h"
  "h_closing_for_restart (publish p h) = h_closing_for_restart h" "h_rest (publish p h) = h_rest h"
  "h_cfg (publish p h) = h_cfg h" "h_ws (publish p h) = h_ws h" "h_persist (publish p h) = h_persist h"
  by (simp_all add: publish_def)

lemma persist_event_frame [simp]:
  "h_state (persist_event p h) = h_state h" "h_running (persist_event p h) = h_running h"
  "h_ctl (persist_event p h) = h_ctl h" "h_buffer (persist_event p h) = h_buffer h"
  "h_reconnect_delay_ms (persist_event p h) = h_reconnect_delay_ms h"
  "h_reconnect_timer (persist_event p h) = h_reconnect_timer h" "h_sinks (persist_event p h) = h_sinks h"
  "h_rt (persist_event p h) = h_rt h" "h_adapter (persist_event p h) = h_adapter h"
  "h_closing_for_restart (persist_event p h) = h_closing_for_restart h" "h_rest (persist_event p h) = h_rest h"
  "h_cfg (persist_event p h) = h_cfg h" "h_ws (persist_event p h) = h_ws h"
  "h_persist (persist_event p h) = h_persist h"
  by (simp_all add: persist_event_def split: option.split)

lemma persist_snapshot_frame [simp]:
  "h_state (persist_snapshot sn src h) = h_state h" "h_running (persist_snapshot sn src h) = h_running h"
  "h_ctl (persist_snapshot sn src h) = h_ctl h" "h_buffer (persist_snapshot sn src h) = h_buffer h"
  "h_reconnect_delay_ms (persist_snapshot sn src h) = h_reconnect_delay_ms h"
  "h_reconnect_timer (persist_snapshot sn src h) = h_reconnect_timer h"
  "h_sinks (persist_snapshot sn src h) = h_sinks h" "h_rt (persist_snapshot sn src h) = h_rt h"
  "h_adapter (persist_snapshot sn src h) = h_adapter h"
  "h_closing_for_restart (persist_snapshot sn src h) = h_closing_for_restart h"
  "h_rest (persist_snapshot sn src h) = h_rest h" "h_cfg (persist_snapshot sn src h) = h_cfg h"
  "h_ws (persist_snapshot sn src h) = h_ws h" "h_persist (persist_snapshot sn src h) = h_persist h"
  by (simp_all add: persist_snapshot_def)

lemma persist_incremental_frame [simp]:
  "h_state (persist_incremental inc src h) = h_state h"
  "h_running (persist_incremental inc src h) = h_running h" "h_ctl (persist_incremental inc src h) = h_ctl h"
  "h_buffer (persist_incremental inc src h) = h_buffer h"
  "h_reconnect_delay_ms (persist_incremental inc src h) = h_reconnect_delay_ms h"
  "h_reconnect_timer (persist_incremental inc src h) = h_reconnect_timer h"
  "h_sinks (persist_incremental inc src h) = h_sinks h" "h_rt (persist_incremental inc src h) = h_rt h"
  "h_adapter (persist_incremental inc src h) = h_adapter h"
  "h_closing_for_restart (persist_incremental inc src h) = h_closing_for_restart h"
  "h_rest (persist_incremental inc src h) = h_rest h" "h_cfg (persist_incremental inc src h) = h_cfg h"
  "h_ws (persist_incremental inc src h) = h_ws h" "h_persist (persist_incremental inc src h) = h_persist h"
  by (simp_all add: persist_incremental_def)

lemma maybe_persist_book_frame [simp]:
  "h_state (maybe_persist_book v src h) = h_state h" "h_running (maybe_persist_book v src h) = h_running h"
  "h_ctl (maybe_persist_book v src h) = h_ctl h" "h_buffer (maybe_persist_book v src h) = h_buffer h"
  "h_reconnect_delay_ms (maybe_persist_book v src h) = h_reconnect_delay_ms h"
  "h_reconnect_timer (maybe_persist_book v src h) = h_reconnect_timer h"
  "h_sinks (maybe_persist_book v src h) = h_sinks h" "h_rt (maybe_persist_book v src h) = h_rt h"
  "h_adapter (maybe_persist_book v src h) = h_adapter h"
  "h_closing_for_restart (maybe_persist_book v src h) = h_closing_for_restart h"
  "h_rest (maybe_persist_book v src h) = h_rest h" "h_cfg (maybe_persist_book v src h) = h_cfg h"
  "h_ws (maybe_persist_book v src h) = h_ws h" "h_persist (maybe_persist_book v src h) = h_persist h"
  by (simp_all add: maybe_persist_book_def Let_def)

lemma disarm_ws_watchdog_frame [simp]:
  "h_state (disarm_ws_watchdog h) = h_state h" "h_running (disarm_ws_watchdog h) = h_running h"
  "h_ctl (disarm_ws_watchdog h) = h_ctl h" "h_buffer (disarm_ws_watchdog h) = h_buffer h"
  "h_reconnect_delay_ms (disarm_ws_watchdog h) = h_reconnect_delay_ms h"
  "h_reconnect_timer (disarm_ws_watchdog h) = h_reconnect_timer h" "h_sinks (disarm_ws_watchdog h) = h_sinks h"
  "h_rt (disarm_ws_watchdog h) = h_rt h" "h_adapter (disarm_ws_watchdog h) = h_adapter h"
  "h_closing_for_restart (disarm_ws_watchdog h) = h_closing_for_restart h"
  "h_rest (disarm_ws_watchdog h) = h_rest h" "h_cfg (disarm_ws_watchdog h) = h_cfg h"
  "h_ws (disarm_ws_watchdog h) = h_ws h" "h_persist (disarm_ws_watchdog h) = h_persist h"
  by (simp_all add: disarm_ws_watchdog_def)

lemma arm_ws_watchdog_frame [simp]:
  "h_state (arm_ws_watchdog h) = h_state h" "h_running (arm_ws_watchdog h) = h_running h"
  "h_ctl (arm_ws_watchdog h) = h_ctl h" "h_buffer (arm_ws_watchdog h) = h_buffer h"
  "h_reconnect_delay_ms (arm_ws_watchdog h) = h_reconnect_delay_ms h"
  "h_reconnect_timer (arm_ws_watchdog h) = h_reconnect_timer h" "h_sinks (arm_ws_watchdog h) = h_sinks h"
  "h_rt (arm_ws_watchdog h) = h_rt h" "h_adapter (arm_ws_watchdog h) = h_adapter h"
  "h_closing_for_restart (arm_ws_watchdog h) = h_closing_for_restart h" "h_rest (arm_ws_watchdog h) = h_rest h"
  "h_cfg (arm_ws_watchdog h) = h_cfg h" "h_ws (arm_ws_watchdog h) = h_ws h"
  "h_persist (arm_ws_watchdog h) = h_persist h"
  by (simp_all add: arm_ws_watchdog_def Let_def)

text \<open>The status that the brain was last told.\<close>

fun status_of :: "feed_effect \<Rightarrow> string option" where
  "status_of (Publish s (PubStatus st reason)) = Some st"
| "status_of _ = None"

definition newer :: "string option \<Rightarrow> feed_effect \<Rightarrow> string option" where
  "newer r e = (case status_of e of None \<Rightarrow> r | Some st \<Rightarrow> Some st)"

definition last_status :: "feed_effect list \<Rightarrow> string option" where
  "last_status es = foldl newer None es"

fun is_status :: "pub_event \<Rightarrow> bool" where
  "is_status (PubStatus st reason) = True"
| "is_status _ = False"

lemma foldl_newer: "foldl newer r es = (case last_status es of None \<Rightarrow> r | Some st \<Rightarrow> Some st)"
  by (induction es rule: rev_induct) (auto simp: last_status_def newer_def split: option.splits)

lemma last_status_append [simp]:
  "last_status (es @ fs) = (case last_status fs of None \<Rightarrow> last_status es | Some st \<Rightarrow> Some st)"
  using foldl_newer [of "last_status es" fs] unfolding last_status_def by simp

lemma last_status_single [simp]: "last_status [] = None" "last_status [e] = status_of e"
  by (simp_all add: last_status_def newer_def split: option.split)

lemma last_status_map_None:
  "(\<And>x. status_of (f x) = None) \<Longrightarrow> last_status (map f xs) = None"
  by (induction xs rule: rev_induct) auto

lemma status_of_None: "\<not> is_status p \<Longrightarrow> status_of (Publish s p) = None"
  by (cases p) auto

lemma last_status_publish [simp]:
  "\<not> is_status p \<Longrightarrow> last_status (h_log (publish p h)) = last_status (h_log h)"
  by (simp add: publish_def last_status_map_None status_of_None)

lemma last_status_persist [simp]: "last_status (h_log (persist_event p h)) = last_status (h_log h)"
  by (simp add: persist_event_def split: option.split)

lemma last_status_frame [simp]:
  "last_status (h_log (persist_snapshot sn src h)) = last_status (h_log h)"
  "last_status (h_log (persist_incremental inc src h)) = last_status (h_log h)"
  "last_status (h_log (maybe_persist_book v src h)) = last_status (h_log h)"
  "last_status (h_log (disarm_ws_watchdog h)) = last_status (h_log h)"
  "last_status (h_log (arm_ws_watchdog h)) = last_status (h_log h)"
  by (simp_all add: persist_snapshot_def persist_incremental_def maybe_persist_book_def Let_def
      disarm_ws_watchdog_def arm_ws_watchdog_def)

lemma last_status_status:
  "h_sinks h \<noteq> [] \<Longrightarrow> last_status (h_log (publish (PubStatus st reason) h)) = Some st"
  by (cases "h_sinks h" rule: rev_cases) (simp_all add: publish_def)


section \<open>The backoff\<close>

definition env_ok :: "env \<Rightarrow> bool" where
  "env_ok v \<longleftrightarrow> (\<exists>j. env_jitter v = Fin j \<and> - (1 / 4) \<le> j \<and> j \<le> 1 / 4)"

definition delay_ok :: "int \<Rightarrow> bool" where
  "delay_ok d \<longleftrightarrow> kReconnectInitMs \<le> d \<and> d \<le> kReconnectMaxMs \<and> 4 dvd d"

lemma delay_ok_step: "delay_ok d \<Longrightarrow> delay_ok (min (d * 2) kReconnectMaxMs)"
  by (auto simp: delay_ok_def min_def kReconnectInitMs_def kReconnectMaxMs_def)

lemma delay_ok_init: "delay_ok kReconnectInitMs"
  by (simp add: delay_ok_def kReconnectInitMs_def kReconnectMaxMs_def)

lemma jittered_bounds:
  assumes "\<bar>k\<bar> < 2 ^ 50" and "- (1 / 4) \<le> j" and "j \<le> 1 / 4" and "0 \<le> k"
  shows "3 * k \<le> trunc_int (of_i64 (4 * k) * (Fin 1 + Fin j))" and "trunc_int (of_i64 (4 * k) * (Fin 1 + Fin j)) \<le> 5 * k"
proof -
  have exact: "rnd (3 / 4) = Fin (3 / 4)" "rnd (5 / 4) = Fin (5 / 4)"
    using rnd_quarter [of 3] rnd_quarter [of 5] by simp_all
  have ints: "rnd (of_int (3 * k)) = Fin (of_int (3 * k))" "rnd (of_int (5 * k)) = Fin (of_int (5 * k))"
    "of_i64 (4 * k) = Fin (of_int (4 * k))"
    using assms(1) of_i64_exact [of "3 * k"] of_i64_exact [of "5 * k"] of_i64_exact [of "4 * k"]
    by (simp_all add: of_i64_def)
  obtain s where s: "rnd (1 + j) = Fin s" "3 / 4 \<le> s" "s \<le> 5 / 4"
    by (rule rnd_squeeze [of "3 / 4" "1 + j" "5 / 4"]) (use assms exact in simp_all)
  have k0: "(0 :: rat) \<le> of_int (4 * k)" using assms(4) by simp
  have le: "of_int (3 * k) \<le> of_int (4 * k) * s" "of_int (4 * k) * s \<le> of_int (5 * k)"
    using mult_left_mono [OF s(2) k0] mult_left_mono [OF s(3) k0] by simp_all
  obtain y where y: "rnd (of_int (4 * k) * s) = Fin y" "of_int (3 * k) \<le> y" "y \<le> of_int (5 * k)"
    using rnd_squeeze [OF le ints(1,2)] by blast
  have "(0 :: rat) \<le> of_int (3 * k)" using assms(4) by simp
  then have "0 \<le> y" using y(2) by (rule order_trans)
  then have t: "trunc_int (of_i64 (4 * k) * (Fin 1 + Fin j)) = \<lfloor>y\<rfloor>"
    using s y ints by (simp add: double_ops)
  show "3 * k \<le> trunc_int (of_i64 (4 * k) * (Fin 1 + Fin j))" unfolding t using y(2) by (simp only: le_floor_iff)
  show "trunc_int (of_i64 (4 * k) * (Fin 1 + Fin j)) \<le> 5 * k" unfolding t using y(3) by (simp only: floor_le_iff of_int_add)
qed

lemma delay_in_range:
  assumes "env_ok v" and "delay_ok (h_reconnect_delay_ms h)"
  shows "3 * h_reconnect_delay_ms h \<le> 4 * fst (next_reconnect_delay v h)"
    and "4 * fst (next_reconnect_delay v h) \<le> 5 * h_reconnect_delay_ms h"
    and "750 \<le> fst (next_reconnect_delay v h)" and "fst (next_reconnect_delay v h) \<le> 75000"
proof -
  obtain j where j: "env_jitter v = Fin j" "- (1 / 4) \<le> j" "j \<le> 1 / 4" using assms(1) by (auto simp: env_ok_def)
  obtain k where k: "h_reconnect_delay_ms h = 4 * k" "250 \<le> k" "k \<le> 15000"
    using assms(2) by (auto simp: delay_ok_def kReconnectInitMs_def kReconnectMaxMs_def elim!: dvdE)
  have "\<bar>k\<bar> < 2 ^ 50" and "0 \<le> k" using k by simp_all
  note b = jittered_bounds [OF this(1) j(2,3) this(2)]
  define d where "d = trunc_int (of_i64 (4 * k) * (Fin 1 + Fin j))"
  have "fst (next_reconnect_delay v h) = max 100 d"
    by (simp add: next_reconnect_delay_def Let_def j k d_def)
  then show "3 * h_reconnect_delay_ms h \<le> 4 * fst (next_reconnect_delay v h)"
    "4 * fst (next_reconnect_delay v h) \<le> 5 * h_reconnect_delay_ms h"
    "750 \<le> fst (next_reconnect_delay v h)" "fst (next_reconnect_delay v h) \<le> 75000"
    using b k unfolding d_def [symmetric] by simp_all
qed


section \<open>The invariant of a handler\<close>

lemma set_state_frame [simp]:
  "h_state (set_state n r h) = n" "h_running (set_state n r h) = h_running h" "h_ctl (set_state n r h) = h_ctl h"
  "h_buffer (set_state n r h) = h_buffer h" "h_reconnect_timer (set_state n r h) = h_reconnect_timer h"
  "h_sinks (set_state n r h) = h_sinks h" "h_rt (set_state n r h) = h_rt h" "h_adapter (set_state n r h) = h_adapter h"
  "h_rest (set_state n r h) = h_rest h" "h_cfg (set_state n r h) = h_cfg h" "h_ws (set_state n r h) = h_ws h"
  "h_closing_for_restart (set_state n r h) = h_closing_for_restart h"
  "h_watchdog_timer (set_state n r h) = h_watchdog_timer h" "h_reconnect_gen (set_state n r h) = h_reconnect_gen h"
  "h_connect_id (set_state n r h) = h_connect_id h"
  by (simp_all add: set_state_def Let_def reset_reconnect_delay_def publish_def)

lemma set_state_delay [simp]:
  "h_reconnect_delay_ms (set_state n r h) =
    (if h_state h \<noteq> n \<and> n = SYNCED then kReconnectInitMs else h_reconnect_delay_ms h)"
  by (simp add: set_state_def Let_def reset_reconnect_delay_def)

definition status_ok :: "gfh \<Rightarrow> bool" where
  "status_ok h \<longleftrightarrow> (h_running h \<and> h_sinks h \<noteq> [] \<longrightarrow> last_status (h_log h) = Some (feed_state (h_state h)))"

lemma status_ok_set_state: "status_ok h \<Longrightarrow> status_ok (set_state n r h)"
  by (auto simp: status_ok_def set_state_def Let_def reset_reconnect_delay_def last_status_status)

definition timer_ok :: "reconnect_wait option \<Rightarrow> bool" where
  "timer_ok t = (case t of Some (ReconnectWait g d) \<Rightarrow> 750 \<le> d \<and> d \<le> 75000 | _ \<Rightarrow> True)"

definition feed_base :: "gfh \<Rightarrow> bool" where
  "feed_base h \<longleftrightarrow> ctl_inv (h_ctl h) \<and> length (h_buffer h) \<le> max_buffer \<and> delay_ok (h_reconnect_delay_ms h) \<and>
     timer_ok (h_reconnect_timer h) \<and> status_ok h"

definition feed_inv :: "gfh \<Rightarrow> bool" where
  "feed_inv h \<longleftrightarrow> feed_base h \<and> (h_state h = SYNCED \<longrightarrow> isSynced (h_ctl h) \<and> h_running h)"

text \<open>What the two notions depend on.\<close>

definition core :: "gfh \<Rightarrow> _" where
  "core h = (h_state h, h_running h, h_ctl h, h_buffer h, h_reconnect_delay_ms h, h_reconnect_timer h,
     h_sinks h, last_status (h_log h))"

lemma feed_inv_core: "core h = core h' \<Longrightarrow> feed_inv h = feed_inv h' \<and> feed_base h = feed_base h'"
  by (auto simp: core_def feed_inv_def feed_base_def status_ok_def)

lemma core_frame [simp]:
  "\<not> is_status p \<Longrightarrow> core (publish p h) = core h" "core (persist_event p h) = core h"
  "core (persist_snapshot sn src h) = core h" "core (persist_incremental inc src h) = core h"
  "core (maybe_persist_book v src h) = core h" "core (disarm_ws_watchdog h) = core h"
  "core (arm_ws_watchdog h) = core h" "core (h\<lparr>h_ws := w\<rparr>) = core h" "core (h\<lparr>h_rest := rs\<rparr>) = core h"
  "core (h\<lparr>h_closing_for_restart := b\<rparr>) = core h" "core (h\<lparr>h_connect_id := i\<rparr>) = core h"
  "core (h\<lparr>h_resyncs := n\<rparr>) = core h" "core (h\<lparr>h_book_updates := n\<rparr>) = core h"
  "core (h\<lparr>h_rt := rt\<rparr>) = core h" "core (h\<lparr>h_watchdog_timer := wt\<rparr>) = core h"
  "core (h\<lparr>h_reconnect_scheduled := b\<rparr>) = core h" "core (h\<lparr>h_heartbeat_timer := b\<rparr>) = core h"
  "core (h\<lparr>h_msgs_received := n\<rparr>) = core h" "core (h\<lparr>h_last_ws_message_ns := t\<rparr>) = core h"
  by (simp_all add: core_def)

lemma core_cancel_ws [simp]: "core (cancel_ws h) = core h"
  by (simp add: cancel_ws_def Let_def close_during_restart_def)

lemma restart_unfold:
  assumes "h_running h"
  obtains h1 where "restartSync v r h = schedule_ws_reconnect (fst (next_reconnect_delay v h1)) (snd (next_reconnect_delay v h1))"
    and "core h1 = core (set_state CONNECTING ''restart_sync''
      ((disarm_ws_watchdog (h\<lparr>h_resyncs := h_resyncs h + 1\<rparr>))\<lparr>h_buffer := [], h_ctl := resetBook (h_ctl h)\<rparr>))"
proof -
  let ?h0 = "set_state CONNECTING ''restart_sync''
      ((disarm_ws_watchdog (h\<lparr>h_resyncs := h_resyncs h + 1\<rparr>))\<lparr>h_buffer := [], h_ctl := resetBook (h_ctl h)\<rparr>)"
  let ?h1 = "cancel_ws (?h0\<lparr>h_connect_id := makeConnectId v, h_closing_for_restart := True\<rparr>)"
  have "restartSync v r h = schedule_ws_reconnect (fst (next_reconnect_delay v ?h1)) (snd (next_reconnect_delay v ?h1))"
    using assms by (simp add: restartSync_def Let_def case_prod_beta)
  moreover have "core ?h1 = core ?h0" unfolding core_cancel_ws by (simp add: core_def)
  ultimately show ?thesis by (rule that)
qed


lemma restart_fields:
  assumes "env_ok v" and "h_running h" and "delay_ok (h_reconnect_delay_ms h)" and "status_ok h"
  shows "h_state (restartSync v r h) = CONNECTING" and "h_running (restartSync v r h)"
    and "h_ctl (restartSync v r h) = resetBook (h_ctl h)" and "h_buffer (restartSync v r h) = []"
    and "delay_ok (h_reconnect_delay_ms (restartSync v r h))"
    and "\<exists>g d. h_reconnect_timer (restartSync v r h) = Some (ReconnectWait g d) \<and>
      g = h_reconnect_gen (restartSync v r h) \<and> 750 \<le> d \<and> d \<le> 75000 \<and>
      3 * h_reconnect_delay_ms h \<le> 4 * d \<and> 4 * d \<le> 5 * h_reconnect_delay_ms h"
    and "status_ok (restartSync v r h)"
proof -
  obtain h1 where r: "restartSync v r h = schedule_ws_reconnect (fst (next_reconnect_delay v h1)) (snd (next_reconnect_delay v h1))"
    and c: "core h1 = core (set_state CONNECTING ''restart_sync''
      ((disarm_ws_watchdog (h\<lparr>h_resyncs := h_resyncs h + 1\<rparr>))\<lparr>h_buffer := [], h_ctl := resetBook (h_ctl h)\<rparr>))"
    using assms(2) by (rule restart_unfold)
  let ?h0 = "(disarm_ws_watchdog (h\<lparr>h_resyncs := h_resyncs h + 1\<rparr>))\<lparr>h_buffer := [], h_ctl := resetBook (h_ctl h)\<rparr>"
  have f: "h_state h1 = CONNECTING" "h_running h1" "h_ctl h1 = resetBook (h_ctl h)" "h_buffer h1 = []"
    "h_reconnect_delay_ms h1 = h_reconnect_delay_ms h" "h_sinks h1 = h_sinks h"
    "last_status (h_log h1) = last_status (h_log (set_state CONNECTING ''restart_sync'' ?h0))"
    using c assms(2) by (auto simp: core_def)
  have "status_ok (set_state CONNECTING ''restart_sync'' ?h0)"
    by (rule status_ok_set_state) (use assms(4) in \<open>simp add: status_ok_def\<close>)
  then have s: "status_ok h1" using f assms(2) by (simp add: status_ok_def)
  have "delay_ok (h_reconnect_delay_ms h1)" using f assms(3) by simp
  note d = delay_in_range [OF assms(1) this]
  have n: "snd (next_reconnect_delay v h1) = h1\<lparr>h_reconnect_delay_ms := min (h_reconnect_delay_ms h1 * 2) kReconnectMaxMs\<rparr>"
    by (simp add: next_reconnect_delay_def Let_def)
  show "h_state (restartSync v r h) = CONNECTING" "h_running (restartSync v r h)"
    "h_ctl (restartSync v r h) = resetBook (h_ctl h)" "h_buffer (restartSync v r h) = []"
    "delay_ok (h_reconnect_delay_ms (restartSync v r h))" "status_ok (restartSync v r h)"
    unfolding r n schedule_ws_reconnect_def
    using f s assms(3) by (simp_all add: Let_def delay_ok_step status_ok_def)
  show "\<exists>g d. h_reconnect_timer (restartSync v r h) = Some (ReconnectWait g d) \<and>
      g = h_reconnect_gen (restartSync v r h) \<and> 750 \<le> d \<and> d \<le> 75000 \<and>
      3 * h_reconnect_delay_ms h \<le> 4 * d \<and> 4 * d \<le> 5 * h_reconnect_delay_ms h"
    unfolding r n schedule_ws_reconnect_def using d f by (simp add: Let_def)
qed

lemma restart_inv:
  assumes "env_ok v" and "feed_base h" and "h_running h"
  shows "feed_inv (restartSync v r h)"
proof -
  have "delay_ok (h_reconnect_delay_ms h)" and "status_ok h" and "ctl_inv (h_ctl h)"
    using assms(2) by (simp_all add: feed_base_def)
  note rs = restart_fields [OF assms(1,3) this(1,2), of r]
  have "timer_ok (h_reconnect_timer (restartSync v r h))" using rs(6) by (auto simp: timer_ok_def)
  with rs(1-5,7) \<open>ctl_inv (h_ctl h)\<close> show ?thesis
    by (simp add: feed_inv_def feed_base_def ctl_inv_reset ctl_inv_depth)
qed

lemma feed_base_ctl: "feed_base h \<Longrightarrow> ctl_inv c \<Longrightarrow> feed_base (h\<lparr>h_ctl := c\<rparr>)"
  by (simp add: feed_base_def status_ok_def)

lemma feed_base_buffer: "feed_base h \<Longrightarrow> length b \<le> max_buffer \<Longrightarrow> feed_base (h\<lparr>h_buffer := b\<rparr>)"
  by (simp add: feed_base_def status_ok_def)

lemma feed_base_set_state: "feed_base h \<Longrightarrow> feed_base (set_state n r h)"
  by (simp add: feed_base_def status_ok_set_state delay_ok_init)

lemma feed_base_I: "feed_inv h \<Longrightarrow> feed_base h"
  by (simp add: feed_inv_def)

text \<open>A drained handler is not promoted yet, and still runs.\<close>

definition drained :: "gfh \<Rightarrow> bool" where
  "drained h \<longleftrightarrow> feed_base h \<and> h_running h \<and> h_state h \<noteq> SYNCED"

lemma drain_loop_drained:
  "env_ok v \<Longrightarrow> drained h \<Longrightarrow> length buf \<le> max_buffer \<Longrightarrow> drained (fst (drain_loop J v buf h))"
proof (induction J v buf h rule: drain_loop.induct)
  case (1 J v h)
  then show ?case by (simp add: drained_def feed_base_buffer)
next
  case (2 J v payload ts rest h)
  show ?case
  proof (cases "filtered (isIncremental (h_adapter h) payload) (parseIncremental J (h_adapter h) payload)")
    case (Parsed inc0)
    obtain action c where oi: "onIncrement (inc0\<lparr>inc_ts_recv_ns := ts\<rparr>) (h_ctl h) = (action, c)" by fastforce
    have "ctl_inv c" using ctl_inv_increment [of "h_ctl h" "inc0\<lparr>inc_ts_recv_ns := ts\<rparr>"] 2(4) oi
      by (simp add: drained_def feed_base_def)
    then have b: "drained (h\<lparr>h_buffer := rest, h_ctl := c\<rparr>)"
      using 2(4,5) by (simp add: drained_def feed_base_def status_ok_def)
    let ?h = "persist_incremental (inc0\<lparr>inc_ts_recv_ns := ts\<rparr>) ''ws_incremental'' (h\<lparr>h_buffer := rest, h_ctl := c\<rparr>)"
    have b1: "drained ?h" using b feed_inv_core [of ?h "h\<lparr>h_buffer := rest, h_ctl := c\<rparr>"] by (simp add: drained_def)
    show ?thesis
    proof (cases "action = NeedResync")
      case True
      have "feed_inv (restartSync v ''buffered_incremental_need_resync'' ?h)"
        using b1 2(3) by (intro restart_inv) (auto simp: drained_def)
      moreover have "h_state (restartSync v ''buffered_incremental_need_resync'' ?h) = CONNECTING"
        "h_running (restartSync v ''buffered_incremental_need_resync'' ?h)"
        using restart_fields [OF 2(3), of ?h] b1 by (auto simp: drained_def feed_base_def)
      ultimately show ?thesis using Parsed oi True by (simp add: drained_def feed_inv_def Let_def)
    next
      case False
      let ?h2 = "maybe_persist_book v ''incremental_applied'' ?h"
      have "drained ?h2" using b1 feed_inv_core [of ?h2 ?h] by (simp add: drained_def)
      then show ?thesis using Parsed oi False 2(1) [OF Parsed refl oi [symmetric] refl refl] 2(3,5)
        by (simp add: Let_def)
    qed
  next
    case Rejected
    have "drained (h\<lparr>h_buffer := rest\<rparr>)" using 2(4,5) by (simp add: drained_def feed_base_buffer)
    then show ?thesis using Rejected 2(2) [OF Rejected] 2(3,5) by simp
  next
    case Threw
    then show ?thesis using 2(4,5) by (simp add: drained_def feed_base_buffer)
  qed
qed


lemma set_state_inv:
  assumes "feed_base h" and "n = SYNCED \<Longrightarrow> isSynced (h_ctl h) \<and> h_running h"
  shows "feed_inv (set_state n r h)"
  using assms feed_base_set_state by (simp add: feed_inv_def)

lemma drain_and_sync_inv:
  assumes "env_ok v" and "drained h"
  shows "feed_inv (drain_and_sync J v r h)"
proof -
  obtain h' t where d: "drain_loop J v (h_buffer h) h = (h', t)" by fastforce
  have "drained h'"
    using drain_loop_drained [OF assms, of "h_buffer h" J] assms(2) d by (simp add: drained_def feed_base_def)
  then show ?thesis using d
    by (auto simp: drain_and_sync_def drainBufferedIncrementals_def drained_def feed_inv_def intro!: feed_base_set_state)
qed

lemma synced_after_snapshot:
  "onSnapshot m k c = (NoAction, c') \<Longrightarrow> isSynced c' \<longleftrightarrow> k = WsAuthoritativeBaseline"
  by (auto simp: onSnapshot_def Let_def need_resync_def isSynced_def split: if_splits)

lemma synced_after_increment:
  "onIncrement m c = (NoAction, c') \<Longrightarrow> isSynced c \<Longrightarrow> isSynced c'"
  by (rule onIncrement_outcome [of m c]) (auto simp: isSynced_def accept_step_def Let_def)

text \<open>Loading a snapshot or an incremental into the controller of a handler.\<close>

lemma snapshot_base:
  assumes "feed_base h" and "onSnapshot sn k (h_ctl h) = (action, c)"
  shows "feed_base ((persist_snapshot sn src h)\<lparr>h_ctl := c\<rparr>)"
proof (rule feed_base_ctl)
  show "feed_base (persist_snapshot sn src h)" using assms(1) feed_inv_core [of "persist_snapshot sn src h" h] by simp
  show "ctl_inv c" using ctl_inv_snapshot [of "h_ctl h" sn k] assms by (simp add: feed_base_def)
qed

lemma increment_base:
  assumes "feed_base h" and "onIncrement inc (h_ctl h) = (action, c)"
  shows "feed_base (persist_incremental inc src (h\<lparr>h_ctl := c\<rparr>))"
proof -
  have "feed_base (h\<lparr>h_ctl := c\<rparr>)"
    using ctl_inv_increment [of "h_ctl h" inc] assms by (intro feed_base_ctl) (simp_all add: feed_base_def)
  then show ?thesis using feed_inv_core [of "persist_incremental inc src (h\<lparr>h_ctl := c\<rparr>)" "h\<lparr>h_ctl := c\<rparr>"] by simp
qed

lemma onSnapshotResponse_inv:
  assumes "env_ok v" and "feed_inv h"
  shows "feed_inv (onSnapshotResponse J v body h)"
proof (cases "h_running h")
  case running: True
  show ?thesis
  proof (cases "parseSnapshot J (h_adapter h) body")
    case (Parsed snap0)
    let ?sn = "snap0\<lparr>snap_ts_recv_ns := env_now v\<rparr>"
    let ?k = "if sync_mode (rt_caps (h_rt h)) = RestAnchored then RestAnchoredBaseline else WsAuthoritativeBaseline"
    obtain action c where os: "onSnapshot ?sn ?k (h_ctl h) = (action, c)" by fastforce
    let ?h = "(persist_snapshot ?sn ''rest_snapshot'' h)\<lparr>h_ctl := c\<rparr>"
    have b: "feed_base ?h" using assms(2) os by (intro snapshot_base feed_base_I)
    have b2: "feed_base (maybe_persist_book v ''snapshot_applied'' ?h)"
      using b feed_inv_core [of "maybe_persist_book v ''snapshot_applied'' ?h" ?h] by simp
    have "feed_inv (restartSync v ''rest_snapshot_rejected'' ?h)"
      by (rule restart_inv [OF assms(1) b]) (simp add: running)
    moreover have "feed_inv (drain_and_sync J v ''post_snapshot_bridge_complete''
        (set_state WAIT_BRIDGE ''snapshot_applied'' (maybe_persist_book v ''snapshot_applied'' ?h)))"
      by (rule drain_and_sync_inv [OF assms(1)]) (simp add: drained_def running feed_base_set_state b2)
    ultimately show ?thesis using Parsed running os by (simp add: onSnapshotResponse_def Let_def)
  qed (use running assms in \<open>simp_all add: onSnapshotResponse_def restart_inv feed_base_I\<close>)
qed (use assms in \<open>simp add: onSnapshotResponse_def\<close>)

lemma feed_inv_timer: "feed_inv h \<Longrightarrow> timer_ok t \<Longrightarrow> feed_inv (h\<lparr>h_reconnect_timer := t\<rparr>)"
  by (simp add: feed_inv_def feed_base_def status_ok_def)

lemma on_snapshot_reply_inv:
  assumes "env_ok v" and "feed_inv h"
  shows "feed_inv (on_snapshot_reply J v ec status body h)"
  using assms
  by (auto simp: on_snapshot_reply_def restart_inv feed_base_I onSnapshotResponse_inv timer_ok_def intro!: feed_inv_timer)

lemma connectWS_inv [simp]: "feed_inv (connectWS h) = feed_inv h"
  using feed_inv_core [of "connectWS h" h] by (simp add: connectWS_def Let_def)

lemma on_bootstrap_response_inv:
  assumes "env_ok v" and "feed_inv h"
  shows "feed_inv (on_bootstrap_response J v ec body h)"
proof -
  have "feed_inv (restartSync v r h)" for r
  proof (cases "h_running h")
    case True
    then show ?thesis using assms by (intro restart_inv feed_base_I)
  qed (use assms in \<open>simp add: restartSync_def\<close>)
  moreover have "feed_inv (h\<lparr>h_rt := rt\<rparr>)" for rt
    using assms(2) feed_inv_core [of "h\<lparr>h_rt := rt\<rparr>" h] by simp
  ultimately show ?thesis using assms by (simp add: on_bootstrap_response_def split: parsed.split)
qed

lemma feed_inv_log:
  "feed_inv h \<Longrightarrow> last_status es = None \<Longrightarrow> feed_inv (h\<lparr>h_log := h_log h @ es\<rparr>)"
  by (simp add: feed_inv_def feed_base_def status_ok_def)

lemma requestSnapshot_inv:
  assumes "feed_inv h"
  shows "feed_inv (requestSnapshot v h)"
proof -
  have "feed_inv (set_state WAIT_REST_SNAPSHOT ''request_snapshot'' h)"
    using assms by (intro set_state_inv feed_base_I) auto
  then show ?thesis
    by (simp add: requestSnapshot_def Let_def feed_inv_def feed_base_def status_ok_def)
qed

lemma bootstrapWS_inv:
  assumes "env_ok v" and "feed_inv h"
  shows "feed_inv (bootstrapWS v h)"
  using assms
  by (auto simp: bootstrapWS_def Let_def restart_inv feed_base_I split: option.split)
    (simp add: feed_inv_def feed_base_def status_ok_def)

lemma onWSOpen_inv:
  assumes "feed_inv h"
  shows "feed_inv (onWSOpen v h)"
proof -
  let ?h = "arm_ws_watchdog (h\<lparr>h_last_ws_message_ns := env_now v\<rparr>)"
  have "core ?h = core h" by simp
  then have a: "feed_inv ?h" using feed_inv_core assms by blast
  then have b: "feed_inv (?h\<lparr>h_ws := w\<rparr>)" for w using feed_inv_core [of "?h\<lparr>h_ws := w\<rparr>" ?h] by simp
  show ?thesis using a b assms
    by (auto simp: onWSOpen_def Let_def intro!: requestSnapshot_inv set_state_inv feed_base_I)
qed


lemma buffer_incremental_cases:
  assumes "env_ok v" and "feed_inv h" and "h_running h"
  shows "feed_inv (fst (buffer_incremental v r msg h))"
    and "snd (buffer_incremental v r msg h) \<Longrightarrow>
      h_state (fst (buffer_incremental v r msg h)) = h_state h \<and> h_running (fst (buffer_incremental v r msg h))"
  using assms restart_inv [OF assms(1) feed_base_I [OF assms(2)] assms(3), of r]
  by (auto simp: buffer_incremental_def feed_inv_def feed_base_def status_ok_def)

lemma on_ws_baseline_inv:
  assumes "env_ok v" and "feed_inv h" and "h_running h" and "h_state h = WAIT_WS_SNAPSHOT"
  shows "feed_inv (on_ws_baseline J v snap0 h)"
proof -
  let ?sn = "snap0\<lparr>snap_ts_recv_ns := env_now v\<rparr>"
  obtain action c where os: "onSnapshot ?sn WsAuthoritativeBaseline (h_ctl h) = (action, c)" by fastforce
  let ?h = "(persist_snapshot ?sn ''ws_snapshot'' h)\<lparr>h_ctl := c\<rparr>"
  have b: "feed_base ?h" using assms(2) os by (intro snapshot_base feed_base_I)
  let ?h2 = "maybe_persist_book v ''snapshot_applied'' ?h"
  have "feed_base ?h2" using b feed_inv_core [of ?h2 ?h] by simp
  then have "drained (?h2\<lparr>h_state := WAIT_BRIDGE\<rparr>)"
    using assms(3,4) by (simp add: drained_def feed_base_def status_ok_def)
  then have "feed_inv (drain_and_sync J v ''ws_snapshot_baseline_ready'' (?h2\<lparr>h_state := WAIT_BRIDGE\<rparr>))"
    by (rule drain_and_sync_inv [OF assms(1)])
  moreover have "feed_inv (restartSync v ''ws_snapshot_rejected'' ?h)"
    by (rule restart_inv [OF assms(1) b]) (simp add: assms(3))
  ultimately show ?thesis using os by (simp add: on_ws_baseline_def Let_def)
qed

lemma on_interrupting_snapshot_inv:
  assumes "env_ok v" and "feed_inv h" and "h_running h"
  shows "feed_inv (on_interrupting_snapshot v snap0 h)"
proof -
  let ?sn = "snap0\<lparr>snap_ts_recv_ns := env_now v\<rparr>"
  obtain action c where os: "onSnapshot ?sn WsAuthoritativeBaseline (h_ctl h) = (action, c)" by fastforce
  let ?h = "(persist_snapshot ?sn ''ws_snapshot'' h)\<lparr>h_ctl := c\<rparr>"
  have b: "feed_base ?h" using assms(2) os by (intro snapshot_base feed_base_I)
  let ?h2 = "maybe_persist_book v ''snapshot_applied'' ?h"
  have "feed_base ?h2" using b feed_inv_core [of ?h2 ?h] by simp
  then have "feed_inv (set_state (if isSynced c then SYNCED else WAIT_BRIDGE) ''interrupting_ws_snapshot'' (?h2\<lparr>h_buffer := []\<rparr>))"
    using assms(3) by (intro set_state_inv feed_base_buffer) (simp_all split: if_splits)
  moreover have "feed_inv (restartSync v ''interrupting_ws_snapshot_rejected'' ?h)"
    by (rule restart_inv [OF assms(1) b]) (simp add: assms(3))
  ultimately show ?thesis using os by (simp add: on_interrupting_snapshot_def Let_def)
qed

lemma on_steady_incremental_inv:
  assumes "env_ok v" and "feed_inv h" and "h_running h"
  shows "feed_inv (on_steady_incremental v st inc0 h)"
proof -
  let ?inc = "inc0\<lparr>inc_ts_recv_ns := env_now v\<rparr>"
  obtain action c where oi: "onIncrement ?inc (h_ctl h) = (action, c)" by fastforce
  let ?h = "persist_incremental ?inc ''ws_incremental'' (h\<lparr>h_ctl := c\<rparr>)"
  have b: "feed_base ?h" using assms(2) oi by (intro increment_base feed_base_I)
  let ?h2 = "maybe_persist_book v ''incremental_applied'' (?h\<lparr>h_book_updates := h_book_updates ?h + 1\<rparr>)"
  have b2: "feed_base ?h2" using b feed_inv_core [of ?h2 ?h] by simp
  have r: "feed_inv (restartSync v ''steady_state_incremental_need_resync'' ?h)"
    by (rule restart_inv [OF assms(1) b]) (simp add: assms(3))
  show ?thesis
  proof (cases "action = NeedResync")
    case True
    then show ?thesis using r oi by (simp add: on_steady_incremental_def Let_def)
  next
    case False
    then have "action = NoAction" by (cases action) auto
    then have "isSynced (h_ctl h) \<Longrightarrow> isSynced c" using oi synced_after_increment by blast
    then have "feed_inv ?h2" using b2 assms(2) by (simp add: feed_inv_def)
    moreover have "feed_inv (set_state SYNCED ''steady_state_bridge_complete'' ?h2)" if "isSynced c"
      using that b2 assms(3) by (intro set_state_inv) simp_all
    ultimately show ?thesis using False oi by (simp add: on_steady_incremental_def Let_def)
  qed
qed

lemma on_live_message_inv:
  assumes "env_ok v" and "feed_inv h" and "h_running h" and "h_state h = st"
  shows "feed_inv (on_live_message J v st msg h)"
proof -
  note buf = buffer_incremental_cases [OF assms(1-3), of "''buffer_overflow_wait_bridge''" msg]
  have "feed_inv (drain_and_sync J v r (fst (buffer_incremental v ''buffer_overflow_wait_bridge'' msg h)))"
    if "snd (buffer_incremental v ''buffer_overflow_wait_bridge'' msg h)" and "st = WAIT_BRIDGE" for r
    using buf that assms(1,4) by (intro drain_and_sync_inv) (auto simp: drained_def feed_inv_def)
  with buf(1) assms show ?thesis
    by (auto simp: on_live_message_def case_prod_beta Let_def on_steady_incremental_inv split: parsed.split)
qed

lemma dispatch_message_inv:
  assumes "env_ok v" and "feed_inv h" and "h_running h"
  shows "feed_inv (dispatch_message J v msg h)"
  using assms(2)
  by (auto simp: dispatch_message_def Let_def split: parsed.split
      intro!: buffer_incremental_cases(1) [OF assms] on_ws_baseline_inv [OF assms]
        on_interrupting_snapshot_inv [OF assms] on_live_message_inv [OF assms])

lemma onWSMessage_inv:
  assumes "env_ok v" and "feed_inv h"
  shows "feed_inv (onWSMessage J v msg h)"
proof (cases "\<not> h_running h \<or> msg = []")
  case False
  let ?h = "arm_ws_watchdog (h\<lparr>h_msgs_received := h_msgs_received h + 1, h_last_ws_message_ns := env_now v\<rparr>)"
  have "core ?h = core h" by simp
  then have "feed_inv ?h" using feed_inv_core assms(2) by blast
  moreover have "h_running ?h" using False by simp
  ultimately have "feed_inv (dispatch_message J v msg ?h)" by (rule dispatch_message_inv [OF assms(1)])
  then show ?thesis using False by (simp add: onWSMessage_def)
qed (use assms in \<open>simp add: onWSMessage_def\<close>)

lemma onWSClose_inv:
  assumes "env_ok v" and "feed_inv h" and "h_running h"
  shows "feed_inv (onWSClose v h)"
proof -
  have "feed_inv (disarm_ws_watchdog h)" using assms(2) feed_inv_core [of "disarm_ws_watchdog h" h] by simp
  moreover have "feed_inv (close_during_restart h)"
    using assms(2) feed_inv_core [of "close_during_restart h" h] by (simp add: close_during_restart_def)
  ultimately show ?thesis using assms by (simp add: onWSClose_def restart_inv feed_base_I)
qed

lemma run_callback_inv: "env_ok v \<Longrightarrow> feed_inv h \<Longrightarrow> feed_inv (run_callback J v e h)"
  by (cases e) (simp_all add: onWSOpen_inv onWSMessage_inv onWSClose_inv)

lemma run_callbacks_inv: "env_ok v \<Longrightarrow> feed_inv h \<Longrightarrow> feed_inv (fold (run_callback J v) es h)"
  by (induction es arbitrary: h) (simp_all add: run_callback_inv)

lemma reconnect_expired_inv:
  assumes "env_ok v" and "feed_inv h"
  shows "feed_inv (reconnect_expired v h)"
proof -
  let ?h = "h\<lparr>h_reconnect_timer := None\<rparr>"
  have a: "feed_inv ?h" using assms(2) by (simp add: feed_inv_timer timer_ok_def)
  then have b: "feed_inv (?h\<lparr>h_reconnect_scheduled := False\<rparr>)"
    using feed_inv_core [of "?h\<lparr>h_reconnect_scheduled := False\<rparr>" ?h] by simp
  then have "feed_inv (set_state n r (?h\<lparr>h_reconnect_scheduled := False\<rparr>))" if "n \<noteq> SYNCED" for n r
    using that by (intro set_state_inv feed_base_I) auto
  with a b assms show ?thesis
    by (simp add: reconnect_expired_def Let_def requestSnapshot_inv bootstrapWS_inv split: option.split reconnect_wait.split)
qed

lemma watchdog_expired_inv:
  assumes "env_ok v" and "feed_inv h"
  shows "feed_inv (watchdog_expired v h)"
proof -
  have "feed_inv (h\<lparr>h_watchdog_timer := None\<rparr>)"
    using assms(2) feed_inv_core [of "h\<lparr>h_watchdog_timer := None\<rparr>" h] by simp
  with assms show ?thesis
    by (simp add: watchdog_expired_def Let_def restart_inv feed_base_I split: option.split)
qed

lemma heartbeat_expired_inv: "feed_inv h \<Longrightarrow> feed_inv (heartbeat_expired h)"
  by (auto simp: heartbeat_expired_def Let_def arm_heartbeat_def emit_heartbeat_def feed_inv_def feed_base_def status_ok_def)

lemma stop_inv:
  assumes "feed_inv h"
  shows "feed_inv (snd (stop h))"
  using assms by (simp add: stop_def Let_def feed_inv_def feed_base_def status_ok_def ctl_inv_reset ctl_inv_depth)

lemma feed_step_inv:
  assumes "env_ok (fst ve)" and "feed_inv h"
  shows "feed_inv (feed_step J ve h)"
proof -
  have core: "feed_inv (h\<lparr>h_ws := w\<rparr>)" "feed_inv (h\<lparr>h_rest := rs\<rparr>)" for w rs
    using assms(2) feed_inv_core [of "h\<lparr>h_ws := w\<rparr>" h] feed_inv_core [of "h\<lparr>h_rest := rs\<rparr>" h] by simp_all
  obtain v e where ve: "ve = (v, e)" by fastforce
  show ?thesis using assms core unfolding ve
    by (cases e) (simp_all add: ws_happens_def Let_def run_callbacks_inv on_snapshot_reply_inv
        on_bootstrap_response_inv reconnect_expired_inv watchdog_expired_inv heartbeat_expired_inv stop_inv)
qed


section \<open>Started handlers\<close>

text \<open>A handler as \<^verbatim>\<open>main\<close> creates it: constructed, initialised and started with success.\<close>

definition started :: "'j json_api \<Rightarrow> gfh \<Rightarrow> bool" where
  "started J h \<longleftrightarrow> (\<exists>null can_open cfg h0 v. init J can_open cfg (new_GenericFeedHandler null) = (OK, h0) \<and>
     env_ok v \<and> start v h0 = (OK, h))"

lemma configure_controller_inv: "ctl_inv c \<Longrightarrow> ctl_inv (configure_controller cfg cp c)"
  by (simp add: configure_controller_def Let_def ctl_inv_config)

lemma init_base:
  assumes "init J can_open cfg (new_GenericFeedHandler null) = (OK, h)"
  shows "feed_inv h" and "\<not> h_running h" and "h_state h = DISCONNECTED"
proof -
  let ?rt = "resolve_rt J cfg empty_rt"
  have d: "depthLevel cfg \<noteq> 0" using assms by (auto simp: init_def split: if_splits)
  obtain c0 where c0: "new_OrderBookController (rt_depth ?rt) = Inr c0"
    using assms d by (auto simp: init_def new_GenericFeedHandler_def Let_def split: sum.splits)
  have "ctl_inv (configure_controller cfg (rt_caps ?rt) c0)" using c0 by (intro configure_controller_inv ctl_inv_new)
  moreover have "delay_ok 1000" using delay_ok_init by (simp add: kReconnectInitMs_def)
  ultimately show "feed_inv h" and "\<not> h_running h" and "h_state h = DISCONNECTED"
    using assms d c0
    by (auto simp: init_def new_GenericFeedHandler_def Let_def set_state_def feed_inv_def feed_base_def
        status_ok_def timer_ok_def)
qed

lemma start_inv:
  assumes "feed_inv h" and "\<not> h_running h" and "h_state h = DISCONNECTED" and "env_ok v"
  shows "feed_inv (snd (start v h))"
proof -
  let ?h = "set_state CONNECTING ''start'' (h\<lparr>h_running := True\<rparr>)"
  have "status_ok ?h"
    using assms(3) by (simp add: status_ok_def set_state_def Let_def last_status_status)
  then have a: "feed_inv ?h" using assms(1) by (simp add: feed_inv_def feed_base_def)
  let ?h1 = "?h\<lparr>h_connect_id := makeConnectId v, h_log := h_log ?h @ map SinkStart (h_sinks ?h)\<rparr>"
  have b: "feed_inv ?h1" using a by (simp add: feed_inv_def feed_base_def status_ok_def last_status_map_None)
  then have "feed_inv (arm_heartbeat ?h1)" using feed_inv_core [of "arm_heartbeat ?h1" ?h1] by (simp add: arm_heartbeat_def)
  moreover have "feed_inv (set_state BOOTSTRAPPING r ?h1)" for r using b by (intro set_state_inv feed_base_I) simp_all
  ultimately show ?thesis using assms(2,4) by (simp add: start_def Let_def bootstrapWS_inv)
qed


lemma run_inv: "feed_inv h \<Longrightarrow> list_all (\<lambda>e. env_ok (fst e)) evs \<Longrightarrow> feed_inv (fold (feed_step J) evs h)"
  by (induction evs arbitrary: h) (auto intro: feed_step_inv)

lemma started_run_inv:
  assumes "started J h" and "list_all (\<lambda>e. env_ok (fst e)) evs"
  shows "feed_inv (fold (feed_step J) evs h)"
proof -
  obtain null can_open cfg h0 v where i: "init J can_open cfg (new_GenericFeedHandler null) = (OK, h0)"
    and v: "env_ok v" and s: "start v h0 = (OK, h)"
    using assms(1) by (auto simp: started_def)
  from start_inv [OF init_base [OF i] v] s have "feed_inv h" by simp
  then show ?thesis using assms(2) by (rule run_inv)
qed

text \<open>C5: For every venue and every sequence of socket, REST and timer events: a handler in state SYNCED runs
  and has a synchronised controller; its book always passes \<open>validate\<close>; and it never buffers more
  than 10000 messages.\<close>

theorem synced_handler_has_synced_book:
  assumes "started J h" and "list_all (\<lambda>e. env_ok (fst e)) evs"
  shows "let h' = fold (feed_step J) evs h
    in (h_state h' = SYNCED \<longrightarrow> isSynced (h_ctl h') \<and> h_running h') \<and>
       validate (c_book (h_ctl h')) \<and> length (h_buffer h') \<le> 10000"
  using started_run_inv [OF assms]
  by (simp add: feed_inv_def feed_base_def ctl_inv_def validate_iff max_buffer_def Let_def)

text \<open>C25: The status last published to the brain is always that of the current state, so that a brain
  that was told \<^verbatim>\<open>synced\<close> by a running handler faces a synchronised controller.\<close>

theorem brain_is_told_the_current_status:
  assumes "started J h" and "list_all (\<lambda>e. env_ok (fst e)) evs"
    and "h_running (fold (feed_step J) evs h)" and "h_sinks (fold (feed_step J) evs h) \<noteq> []"
  shows "let h' = fold (feed_step J) evs h
    in last_status (h_log h') = Some (feed_state (h_state h')) \<and>
       (last_status (h_log h') = Some ''synced'' \<longrightarrow> isSynced (h_ctl h'))"
proof -
  have syn: "feed_state s = ''synced'' \<Longrightarrow> s = SYNCED" for s by (cases s) auto
  show ?thesis using started_run_inv [OF assms(1,2)] assms(3,4) syn
    by (auto simp: feed_inv_def feed_base_def status_ok_def Let_def)
qed

section \<open>Restarts\<close>

text \<open>Restarts with no successful synchronisation between them.\<close>

fun restarts :: "env list \<Rightarrow> gfh \<Rightarrow> gfh" where
  "restarts [] h = h"
| "restarts (v # vs) h = restarts vs (restartSync v ''retry'' h)"

lemma restart_delay:
  assumes "h_running h"
  shows "h_reconnect_delay_ms (restartSync v r h) = min (h_reconnect_delay_ms h * 2) kReconnectMaxMs"
proof -
  obtain h1 where "restartSync v r h = schedule_ws_reconnect (fst (next_reconnect_delay v h1)) (snd (next_reconnect_delay v h1))"
    and "core h1 = core (set_state CONNECTING ''restart_sync''
      ((disarm_ws_watchdog (h\<lparr>h_resyncs := h_resyncs h + 1\<rparr>))\<lparr>h_buffer := [], h_ctl := resetBook (h_ctl h)\<rparr>))"
    using assms by (rule restart_unfold)
  then show ?thesis by (simp add: schedule_ws_reconnect_def next_reconnect_delay_def Let_def core_def)
qed

lemma restarts_delay:
  "h_running h \<Longrightarrow> feed_base h \<Longrightarrow> list_all env_ok vs \<Longrightarrow>
   h_running (restarts vs h) \<and> feed_base (restarts vs h) \<and>
   h_reconnect_delay_ms (restarts vs h) = min (h_reconnect_delay_ms h * 2 ^ length vs) kReconnectMaxMs"
proof (induction vs arbitrary: h)
  case Nil
  then show ?case by (simp add: feed_base_def delay_ok_def)
next
  case (Cons v vs)
  let ?h = "restartSync v ''retry'' h"
  have b: "delay_ok (h_reconnect_delay_ms h)" "status_ok h" and v: "env_ok v" using Cons.prems by (auto simp: feed_base_def)
  have "h_running ?h" using restart_fields(2) [OF v Cons.prems(1) b] .
  moreover have "feed_base ?h" using restart_inv [OF v Cons.prems(2,1)] by (rule feed_base_I)
  ultimately have "h_running (restarts vs ?h) \<and> feed_base (restarts vs ?h) \<and>
      h_reconnect_delay_ms (restarts vs ?h) = min (h_reconnect_delay_ms ?h * 2 ^ length vs) kReconnectMaxMs"
    using Cons.prems(3) by (intro Cons.IH) auto
  moreover have "min (min (d * 2) K * 2 ^ n) K = min (d * 2 ^ Suc n) K" if "0 < K" for d K :: int and n
  proof -
    have K: "K \<le> K * 2 ^ n" using that by (simp add: mult_le_cancel_left1)
    show ?thesis
    proof (cases "d * 2 \<le> K")
      case False
      then have "K * 2 ^ n \<le> d * 2 * 2 ^ n" by (intro mult_right_mono) simp_all
      from order_trans [OF K this] have "K \<le> d * 2 ^ Suc n" by (simp add: mult.assoc)
      then show ?thesis using False K by (simp add: min_absorb2)
    qed (simp add: min_absorb1 mult.assoc)
  qed
  ultimately show ?case using restart_delay [OF Cons.prems(1)] by (simp add: kReconnectMaxMs_def)
qed


text \<open>C27: Exponential backoff: the delay armed by the last of \<open>n + 1\<close> successive restarts of a handler lies
  within a quarter of \<open>1000 * 2 ^ n\<close> milliseconds, capped at a minute; the wait captures the current
  generation, the handler is CONNECTING with an empty buffer, and its book is empty.\<close>

theorem restarts_back_off_exponentially:
  assumes "h_running h" and "feed_base h" and "h_reconnect_delay_ms h = kReconnectInitMs"
    and "list_all env_ok (vs @ [v])"
  shows "let h' = restarts (vs @ [v]) h; base = min (1000 * 2 ^ length vs) 60000
    in h_state h' = CONNECTING \<and> h_buffer h' = [] \<and> side_vec S (c_book (h_ctl h')) = [] \<and>
       (\<exists>d. h_reconnect_timer h' = Some (ReconnectWait (h_reconnect_gen h') d) \<and> 3 * base \<le> 4 * d \<and> 4 * d \<le> 5 * base)"
proof -
  let ?h = "restarts vs h"
  have v: "env_ok v" and "list_all env_ok vs" using assms(4) by simp_all
  note r = restarts_delay [OF assms(1,2) this(2)]
  then have "delay_ok (h_reconnect_delay_ms ?h)" "status_ok ?h" by (auto simp: feed_base_def)
  note f = restart_fields [OF v conjunct1 [OF r] this, of "''retry''"]
  have e: "restarts (vs @ [v]) h = restartSync v ''retry'' ?h" by (induction vs arbitrary: h) simp_all
  have "side_vec S (c_book (resetBook c)) = []" for c :: controller
    using ctl.reset_empty [of S c] by simp
  moreover have "h_reconnect_delay_ms ?h = min (1000 * 2 ^ length vs) 60000"
    using r assms(3) by (simp add: kReconnectInitMs_def kReconnectMaxMs_def)
  ultimately show ?thesis unfolding e Let_def using f by fastforce
qed

section \<open>The second unexpected close\<close>

text \<open>A handler that nothing will wake: no timer waits, no request is in flight, and the client has reported
  the close of its connection.\<close>

definition dead :: "gfh \<Rightarrow> bool" where
  "dead h \<longleftrightarrow> h_running h \<and> h_state h \<in> {CONNECTING, BOOTSTRAPPING} \<and> h_reconnect_timer h = None \<and> h_watchdog_timer h = None \<and>
     h_rest h = [] \<and> closing (h_ws h) \<and> close_notified (h_ws h)"

text \<open>The completions that can still arrive on a closed connection: everything except calls of the handler
  itself and data on the socket.\<close>

fun completion :: "feed_event \<Rightarrow> bool" where
  "completion (WsHappens (Connect h p t)) = False"
| "completion (WsHappens (SendText s)) = False"
| "completion (WsHappens (SendBinary s)) = False"
| "completion (WsHappens CloseCall) = False"
| "completion (WsHappens CancelCall) = False"
| "completion (WsHappens (ReadDone (ReadMessage m))) = False"
| "completion StopCall = False"
| "completion _ = True"

fun is_callback :: "ws_effect \<Rightarrow> bool" where
  "is_callback CallOpen = True"
| "is_callback (CallMessage m) = True"
| "is_callback CallClose = True"
| "is_callback _ = False"

lemma closed_ws_step:
  assumes "closing w" and "close_notified w" and "completion (WsHappens e)"
  obtains es where "ws_log (ws_step e w) = ws_log w @ es" and "list_all (\<lambda>x. \<not> is_callback x) es"
    and "closing (ws_step e w)" and "close_notified (ws_step e w)"
proof -
  have "\<exists>es. ws_log (ws_step e w) = ws_log w @ es \<and> list_all (\<lambda>x. \<not> is_callback x) es \<and>
      closing (ws_step e w) \<and> close_notified (ws_step e w)"
  proof (cases e)
    case (ReadDone r)
    then show ?thesis using assms by (cases r) (auto simp: ws_defs)
  qed (use assms in \<open>auto simp: ws_defs split: list.splits\<close>)
  then show thesis using that by blast
qed

lemma run_no_callbacks: "list_all (\<lambda>x. \<not> is_callback x) es \<Longrightarrow> fold (run_callback J v) es h = h"
proof (induction es arbitrary: h)
  case (Cons e es)
  then show ?case by (cases e) simp_all
qed simp

lemma dead_step:
  assumes "dead h" and "completion e"
  shows "dead (feed_step J (v, e) h)"
proof (cases e)
  case (WsHappens w)
  obtain es where "ws_log (ws_step w (h_ws h)) = ws_log (h_ws h) @ es" "list_all (\<lambda>x. \<not> is_callback x) es"
    "closing (ws_step w (h_ws h))" "close_notified (ws_step w (h_ws h))"
    by (rule closed_ws_step [of "h_ws h" w]) (use assms WsHappens in \<open>auto simp: dead_def\<close>)
  then show ?thesis using assms(1) WsHappens
    by (simp add: ws_happens_def Let_def run_no_callbacks dead_def)
qed (use assms in \<open>auto simp: dead_def reconnect_expired_def watchdog_expired_def heartbeat_expired_def
      arm_heartbeat_def emit_heartbeat_def Let_def\<close>)


interpretation dead_feed: guarded_steps "feed_step J" "\<lambda>e. completion (snd e)" dead for J
proof unfold_locales
  fix h and e :: "env \<times> feed_event"
  assume "dead h" and "completion (snd e)"
  then show "dead (feed_step J e h)" using dead_step [of h "snd e" J "fst e"] by simp
qed

text \<open>The outcomes that end a connection or a connection attempt, and those of an attempt that goes on.\<close>

fun drops :: "ws_event \<Rightarrow> bool" where
  "drops (Resolved ec) = ec"
| "drops (TcpConnected ec sni_failed) = (ec \<or> sni_failed)"
| "drops (TlsDone ec) = ec"
| "drops (HandshakeDone ec) = ec"
| "drops (ReadDone r) = (r = ReadClosed \<or> r = ReadError)"
| "drops (WriteDone ec) = ec"
| "drops (PingDone ec) = ec"
| "drops DeadlineExpired = True"
| "drops _ = False"

fun proceeds :: "ws_event \<Rightarrow> bool" where
  "proceeds (Resolved ec) = (\<not> ec)"
| "proceeds (TcpConnected ec sni_failed) = (\<not> ec \<and> \<not> sni_failed)"
| "proceeds (TlsDone ec) = (\<not> ec)"
| "proceeds _ = False"

lemma dropped:
  assumes "drops e" and "\<not> closing w" and "\<not> close_notified w" and "e = DeadlineExpired \<Longrightarrow> deadline_armed w"
  shows "closing (ws_step e w)" and "close_notified (ws_step e w)" and "ws_log (ws_step e w) = ws_log w @ [CloseSocket, CallClose]"
  using assms by (cases e; auto simp: ws_defs)+

lemma unexpected_close:
  assumes "h_running h" and "\<not> h_closing_for_restart h" and "\<not> closing (h_ws h)" and "\<not> close_notified (h_ws h)"
    and "drops e" and "e = DeadlineExpired \<Longrightarrow> deadline_armed (h_ws h)"
  obtains h1 d where "feed_step J (v, WsHappens e) h = h1"
    and "h_running h1" and "h_state h1 = CONNECTING" and "h_closing_for_restart h1" and "h_watchdog_timer h1 = None"
    and "h_reconnect_timer h1 = Some (ReconnectWait (h_reconnect_gen h1) d)" and "h_rest h1 = h_rest h"
    and "h_rt h1 = h_rt h" and "h_adapter h1 = h_adapter h" and "h_cfg h1 = h_cfg h" and "h_connect_id h1 = makeConnectId v"
proof -
  let ?w = "ws_step e (h_ws h)"
  note f = dropped [OF assms(5,3,4,6)]
  let ?h = "disarm_ws_watchdog (h\<lparr>h_ws := ?w\<rparr>)"
  have s: "feed_step J (v, WsHappens e) h = restartSync v ''unexpected_ws_close'' ?h"
    using assms(1,2) f by (simp add: ws_happens_def Let_def onWSClose_def)
  let ?h2 = "(set_state CONNECTING ''restart_sync'' ((disarm_ws_watchdog (?h\<lparr>h_resyncs := h_resyncs ?h + 1\<rparr>))
      \<lparr>h_buffer := [], h_ctl := resetBook (h_ctl ?h)\<rparr>))\<lparr>h_connect_id := makeConnectId v, h_closing_for_restart := True\<rparr>"
  have c: "cancel_ws ?h2 = ?h2" using f by (simp add: cancel_ws_def ws_cancel_def Let_def)
  have "restartSync v ''unexpected_ws_close'' ?h =
      schedule_ws_reconnect (fst (next_reconnect_delay v ?h2)) (snd (next_reconnect_delay v ?h2))"
    using assms(1) c by (simp add: restartSync_def Let_def case_prod_beta)
  moreover have "h_watchdog_timer ?h2 = None" by (simp add: disarm_ws_watchdog_def)
  ultimately show thesis using assms(1)
    by (intro that [OF s]) (simp_all add: schedule_ws_reconnect_def next_reconnect_delay_def Let_def)
qed

text \<open>A handler that is connecting with its flag still set, and the connection attempt that fails.\<close>

definition flagged :: "gfh \<Rightarrow> bool" where
  "flagged h \<longleftrightarrow> h_running h \<and> h_state h \<in> {CONNECTING, BOOTSTRAPPING} \<and> h_closing_for_restart h \<and> h_watchdog_timer h = None \<and>
     h_reconnect_timer h = None \<and> h_rest h = [] \<and> \<not> closing (h_ws h) \<and> \<not> close_notified (h_ws h) \<and> deadline_armed (h_ws h)"

lemma flagged_connect:
  "h_running h \<Longrightarrow> h_state h \<in> {CONNECTING, BOOTSTRAPPING} \<Longrightarrow> h_closing_for_restart h \<Longrightarrow> h_watchdog_timer h = None \<Longrightarrow>
    h_reconnect_timer h = None \<Longrightarrow> h_rest h = [] \<Longrightarrow> flagged (connectWS h)"
  by (simp add: flagged_def connectWS_def Let_def ws_connect_def ws_emit_def arm_connect_deadline_def)

lemma flagged_proceeds: "flagged h \<Longrightarrow> proceeds e \<Longrightarrow> flagged (ws_happens J v e h)"
  by (cases e) (simp_all add: flagged_def ws_happens_def ws_defs)

lemma flagged_attempt:
  "flagged h \<Longrightarrow> list_all (proceeds \<circ> snd) att \<Longrightarrow> flagged (fold (feed_step J) (map (\<lambda>(v, e). (v, WsHappens e)) att) h)"
  by (induction att arbitrary: h) (simp_all add: case_prod_beta flagged_proceeds)

lemma flagged_drops: "flagged h \<Longrightarrow> drops e \<Longrightarrow> dead (feed_step J (v, WsHappens e) h)"
  using dropped [of e "h_ws h"]
  by (auto simp: flagged_def dead_def ws_happens_def Let_def onWSClose_def close_during_restart_def disarm_ws_watchdog_def)

text \<open>C26: A feed does not survive a failed reconnect. Take a running handler that is not in a restart and has no REST request in
  flight, and let its connection end in any way: read error, remote close, failed write or ping, a failure or the deadline while
  it connects. The handler schedules one reconnect and keeps its self-initiated-close flag set, because the
  cancelled client has already reported its close. The timer fires; for a venue with a bootstrap, KuCoin,
  the bootstrap request succeeds. When the connection attempt then fails, at whatever stage up to the
  WebSocket handshake, the close is taken for the expected one: no timer is armed, no request is made, and no
  completion that can still arrive ever wakes the running handler again.\<close>

theorem second_close_is_swallowed:
  assumes "h_running h" and "\<not> h_closing_for_restart h" and "\<not> closing (h_ws h)" and "\<not> close_notified (h_ws h)"
    and "h_rest h = []" and "drops e1" and "e1 = DeadlineExpired \<longrightarrow> deadline_armed (h_ws h)"
    and "if requires_ws_bootstrap (rt_caps (h_rt h))
      then h_cfg h \<noteq> None \<and> h_adapter h = KucoinAdapter \<and> boot = [(v3, BootstrapReply False body)] \<and>
        parseWsBootstrap J KucoinAdapter body (makeConnectId v1) = Parsed info
      else boot = []"
    and "list_all (proceeds \<circ> snd) att" and "drops e2" and "list_all (\<lambda>e. completion (snd e)) evs"
  shows "dead (fold (feed_step J) ([(v1, WsHappens e1), (v2, ReconnectTimer)] @ boot @
    map (\<lambda>(v, e). (v, WsHappens e)) att @ [(v4, WsHappens e2)] @ evs) h)"
proof -
  obtain h1 d where h1: "feed_step J (v1, WsHappens e1) h = h1" "h_running h1"
    "h_state h1 = CONNECTING" "h_closing_for_restart h1" "h_watchdog_timer h1 = None"
    "h_reconnect_timer h1 = Some (ReconnectWait (h_reconnect_gen h1) d)" "h_rest h1 = h_rest h" "h_rt h1 = h_rt h"
    "h_adapter h1 = h_adapter h" "h_cfg h1 = h_cfg h" "h_connect_id h1 = makeConnectId v1"
    by (rule unexpected_close [OF assms(1-4,6), of J v1]) (use assms(7) in auto)
  let ?h2 = "fold (feed_step J) ((v2, ReconnectTimer) # boot) h1"
  have "flagged ?h2"
  proof (cases "requires_ws_bootstrap (rt_caps (h_rt h))")
    case True
    then obtain cfg where "h_cfg h = Some cfg" "h_adapter h = KucoinAdapter" "boot = [(v3, BootstrapReply False body)]"
      "parseWsBootstrap J KucoinAdapter body (makeConnectId v1) = Parsed info"
      using assms(8) by auto
    then show ?thesis
      using True h1(2-) assms(5) by (auto simp: reconnect_expired_def bootstrapWS_def on_bootstrap_response_def kucoin_wsBootstrapTarget_def Let_def
          intro!: flagged_connect)
  next
    case False
    then show ?thesis
      using h1(2-) assms(5,8) by (auto simp: reconnect_expired_def Let_def intro!: flagged_connect)
  qed
  from flagged_drops [OF flagged_attempt [OF this assms(9)] assms(10)]
  have "dead (fold (feed_step J) evs (feed_step J (v4, WsHappens e2) (fold (feed_step J) (map (\<lambda>(v, e). (v, WsHappens e)) att) ?h2)))"
    using assms(11) by (rule dead_feed.keeps_run)
  then show ?thesis using h1(1) by simp
qed

section \<open>A concrete handler\<close>

definition demo_cfg :: FeedHandlerConfig where
  "demo_cfg = \<lparr>venue_name = BYBIT, cfg_symbol = ''BTCUSDT'', base_ccy = ''BTC'', quote_ccy = ''USDT'', ws_host = [],
     ws_port = [], ws_path = [], rest_host = [], rest_port = [], rest_path = [], brain_ws_host = ''brain'',
     brain_ws_port = ''443'', brain_ws_path = ''/'', brain_ws_insecure = False, brain_ws_certfile = [],
     brain_ws_keyfile = [], brain2_ws_host = [], brain2_ws_port = [], brain2_ws_path = [],
     brain2_ws_insecure = False, brain2_ws_certfile = [], brain2_ws_keyfile = [], persist_path = [],
     cfg_persist_book_every_updates = 1, cfg_persist_book_top = 5, rest_timeout_ms = 8000,
     max_msg_rate_per_sec = 0, validate_every = 0, cfg_require_checksum = False, depthLevel = 50\<rparr>"

definition demo_env :: env where
  "demo_env = \<lparr>env_now = 1, env_steady_ms = 2, env_jitter = Fin 0\<rparr>"

definition demo_ctl :: controller where
  "demo_ctl = \<lparr>c_book = \<lparr>ob_depth = 50, ob_bids = [], ob_asks = []\<rparr>, c_state = WaitingSnapshot, c_last_seq = 0,
     c_expected_seq = 0, c_checksum_fn = None, c_checksum_topN = 25, c_allow_seq_gap = False,
     c_validate_period = 0, c_validate_counter = 0, c_has_checksum = False, c_require_checksum = False\<rparr>"

definition demo_started :: gfh where
  "demo_started = snd (start demo_env (snd (init tree_api (\<lambda>_. False) demo_cfg (new_GenericFeedHandler demo_ctl))))"

lemma demo_env_ok: "env_ok demo_env"
  by (simp add: env_ok_def demo_env_def)

lemmas demo_defs = demo_started_def start_def init_def resolve_rt_def new_OrderBookController_def new_OrderBook_def
  demo_cfg_def new_GenericFeedHandler_def set_state_def brain_sinks_of_def bybit_caps_def default_caps_def
  connectWS_def publish_def ws_connect_def ws_emit_def new_WsClient_def

lemma demo_started: "started tree_api demo_started"
proof -
  let ?i = "init tree_api (\<lambda>_. False) demo_cfg (new_GenericFeedHandler demo_ctl)"
  have "fst ?i = OK" "fst (start demo_env (snd ?i)) = OK"
    by (simp_all add: demo_defs Let_def)
  then have "?i = (OK, snd ?i)" "start demo_env (snd ?i) = (OK, demo_started)"
    by (metis prod.collapse, metis prod.collapse demo_started_def)
  then show ?thesis using demo_env_ok unfolding started_def by blast
qed

lemma demo_fields:
  "h_running demo_started" "h_sinks demo_started \<noteq> []" "\<not> h_closing_for_restart demo_started"
  "\<not> closing (h_ws demo_started)" "\<not> close_notified (h_ws demo_started)" "h_rest demo_started = []"
  "\<not> requires_ws_bootstrap (rt_caps (h_rt demo_started))" "h_reconnect_delay_ms demo_started = kReconnectInitMs"
  by (simp_all add: demo_defs Let_def arm_connect_deadline_def disarm_connect_deadline_def stop_ping_loop_def
      set_idle_ping_def arm_heartbeat_def kReconnectInitMs_def)

theorem synced_handler_has_synced_book_witness:
  "validate (c_book (h_ctl (fold (feed_step tree_api)
     [(demo_env, WsHappens (HandshakeDone False)), (demo_env, WsHappens (ReadDone ReadError))] demo_started)))"
  using synced_handler_has_synced_book [OF demo_started, of
      "[(demo_env, WsHappens (HandshakeDone False)), (demo_env, WsHappens (ReadDone ReadError))]"] demo_env_ok
  by (simp only: Let_def list.pred_inject fst_conv)

theorem brain_is_told_the_current_status_witness:
  "last_status (h_log demo_started) = Some (feed_state (h_state demo_started))"
  using brain_is_told_the_current_status [OF demo_started, of "[]"] demo_fields by simp

theorem restarts_back_off_exponentially_witness:
  "h_state (restarts ([demo_env, demo_env] @ [demo_env]) demo_started) = CONNECTING"
proof -
  have "feed_base demo_started" using started_run_inv [OF demo_started, of "[]"] by (simp add: feed_inv_def)
  from restarts_back_off_exponentially [OF demo_fields(1) this demo_fields(8), of "[demo_env, demo_env]" demo_env]
  show ?thesis using demo_env_ok by (simp only: Let_def list.pred_inject append_Cons append_Nil)
qed

theorem second_close_is_swallowed_witness:
  "dead (fold (feed_step tree_api)
    [(demo_env, WsHappens (ReadDone ReadClosed)), (demo_env, ReconnectTimer), (demo_env, WsHappens (Resolved False)),
     (demo_env, WsHappens (TcpConnected True False)), (demo_env, WsHappens DeadlineExpired), (demo_env, ReconnectTimer),
     (demo_env, WatchdogTimer)] demo_started)"
  using second_close_is_swallowed [OF demo_fields(1,3,4,5,6), of "ReadDone ReadClosed" "[]" undefined undefined tree_api demo_env undefined
      "[(demo_env, Resolved False)]" "TcpConnected True False"
      "[(demo_env, WsHappens DeadlineExpired), (demo_env, ReconnectTimer), (demo_env, WatchdogTimer)]" demo_env demo_env]
    demo_fields(7)
  by simp

end
