(* ===== verification/Sinks.thy ===== *)
theory Sinks
  imports FeedHandler UnifiedBook
begin

text \<open>
  Where a feed handler's events go: the publisher to the brain,
  \<^verbatim>\<open>feed/src/postprocess/WsPublishSink.cpp\<close>, and the line file, \<^verbatim>\<open>feed/src/postprocess/FilePersistSink.cpp\<close>.
  The publisher owns a WebSocket client of its own; its reconnect timer is the value it captured. The
  writer thread of the file sink is a step that takes one line from the queue; files are a map from
  names to contents, and a gzip file stands for the text it unpacks to. The lemmas show that what a
  publisher sends is what the parsers of the brain read, and that a published book is the book the
  brain then holds.
\<close>

section \<open>Events as JSON\<close>

definition level_json :: "'j json_api \<Rightarrow> level \<Rightarrow> 'j" where
  "level_json J lvl = mk_obj J [(''price'', mk_str J (price lvl)), (''quantity'', mk_str J (quantity lvl)),
     (''priceTick'', mk_i64 J (priceTick lvl)), (''quantityLot'', mk_i64 J (quantityLot lvl))]"

definition levels_to_json :: "'j json_api \<Rightarrow> level list \<Rightarrow> 'j" where
  "levels_to_json J levels = mk_arr J (map (level_json J) levels)"

text \<open>The loop over the book: up to \<open>n\<close> levels from position \<open>i\<close>, ending at a null pointer.\<close>

fun ptr_levels :: "(nat \<Rightarrow> level option) \<Rightarrow> nat \<Rightarrow> nat \<Rightarrow> level list" where
  "ptr_levels ptr i 0 = []"
| "ptr_levels ptr i (Suc n) = (case ptr i of None \<Rightarrow> [] | Some lvl \<Rightarrow> lvl # ptr_levels ptr (Suc i) n)"

definition levels_from_book :: "'j json_api \<Rightarrow> order_book \<Rightarrow> nat \<Rightarrow> side \<Rightarrow> 'j" where
  "levels_from_book J book top_n sd =
     mk_arr J (map (level_json J) (ptr_levels (case sd of BID \<Rightarrow> bid_ptr book | ASK \<Rightarrow> ask_ptr book) 0 top_n))"

definition status_json :: "'j json_api \<Rightarrow> string \<Rightarrow> string \<Rightarrow> i64 \<Rightarrow> string \<Rightarrow> string \<Rightarrow> 'j" where
  "status_json J vn sy now fs reason = mk_obj J [(''schema_version'', mk_i64 J 1), (''event_type'', mk_str J ''status''),
     (''venue'', mk_str J vn), (''symbol'', mk_str J sy), (''feed_state'', mk_str J fs),
     (''reason'', mk_str J reason), (''ts_ns'', mk_i64 J now)]"

definition snapshot_json :: "'j json_api \<Rightarrow> string \<Rightarrow> string \<Rightarrow> u64 \<Rightarrow> i64 \<Rightarrow> GenericSnapshotFormat \<Rightarrow> string \<Rightarrow> 'j" where
  "snapshot_json J vn sy seq now snap source = mk_obj J [(''schema_version'', mk_i64 J 1),
     (''event_type'', mk_str J ''snapshot''), (''source'', mk_str J source), (''venue'', mk_str J vn),
     (''symbol'', mk_str J sy), (''persist_seq'', mk_u64 J seq), (''ts_recv_ns'', mk_i64 J (snap_ts_recv_ns snap)),
     (''ts_persist_ns'', mk_i64 J now), (''seq_first'', mk_u64 J (lastUpdateId snap)),
     (''seq_last'', mk_u64 J (lastUpdateId snap)), (''checksum'', mk_i64 J (snap_checksum snap)),
     (''bids'', levels_to_json J (snap_bids snap)), (''asks'', levels_to_json J (snap_asks snap))]"

definition incremental_json :: "'j json_api \<Rightarrow> string \<Rightarrow> string \<Rightarrow> u64 \<Rightarrow> i64 \<Rightarrow> GenericIncrementalFormat \<Rightarrow> string \<Rightarrow> 'j" where
  "incremental_json J vn sy seq now inc source = mk_obj J [(''schema_version'', mk_i64 J 1),
     (''event_type'', mk_str J ''incremental''), (''source'', mk_str J source), (''venue'', mk_str J vn),
     (''symbol'', mk_str J sy), (''persist_seq'', mk_u64 J seq), (''ts_recv_ns'', mk_i64 J (inc_ts_recv_ns inc)),
     (''ts_persist_ns'', mk_i64 J now), (''seq_first'', mk_u64 J (first_seq inc)),
     (''seq_last'', mk_u64 J (last_seq inc)), (''prev_last'', mk_u64 J (prev_last inc)),
     (''checksum'', mk_i64 J (inc_checksum inc)),
     (''bids'', levels_to_json J (inc_bids inc)), (''asks'', levels_to_json J (inc_asks inc))]"

definition book_state_json ::
  "'j json_api \<Rightarrow> string \<Rightarrow> string \<Rightarrow> u64 \<Rightarrow> i64 \<Rightarrow> order_book \<Rightarrow> u64 \<Rightarrow> nat \<Rightarrow> string \<Rightarrow> i64 \<Rightarrow> 'j" where
  "book_state_json J vn sy seq now book applied_seq top_n source ts_book = mk_obj J [(''schema_version'', mk_i64 J 1),
     (''event_type'', mk_str J ''book_state''), (''source'', mk_str J source), (''venue'', mk_str J vn),
     (''symbol'', mk_str J sy), (''persist_seq'', mk_u64 J seq), (''ts_recv_ns'', mk_i64 J 0),
     (''ts_book_ns'', mk_i64 J ts_book), (''ts_persist_ns'', mk_i64 J now),
     (''applied_seq'', mk_u64 J applied_seq), (''top_n'', mk_u64 J (word_of_nat top_n)),
     (''bids'', levels_from_book J book top_n BID), (''asks'', levels_from_book J book top_n ASK)]"

section \<open>The publisher to the brain\<close>

definition kReconnectDelayMinMs :: int where
  "kReconnectDelayMinMs = 1000"

definition kReconnectDelayMaxMs :: int where
  "kReconnectDelayMaxMs = 30000"

definition kDefaultMaxOutbox :: nat where
  "kDefaultMaxOutbox = 5000"

record ws_sink =
  sk_args :: brain_sink
  sk_ws :: ws_client
  sk_running :: bool
  sk_reconnect_scheduled :: bool
  sk_reconnect_delay_ms :: int
  sk_reconnect_gen :: u64
  sk_timer :: "(u64 \<times> int) option"
  sk_persist_seq :: u64

definition new_WsPublishSink :: "brain_sink \<Rightarrow> ws_sink" where
  "new_WsPublishSink args = \<lparr>sk_args = args, sk_ws = set_max_outbox kDefaultMaxOutbox new_WsClient, sk_running = False,
     sk_reconnect_scheduled = False, sk_reconnect_delay_ms = 1000, sk_reconnect_gen = 0, sk_timer = None,
     sk_persist_seq = 0\<rparr>"

definition sink_connect :: "ws_sink \<Rightarrow> ws_sink" where
  "sink_connect s =
     (if \<not> sk_running s then s
      else s\<lparr>sk_ws := ws_connect (bs_host (sk_args s)) (bs_port (sk_args s)) (bs_path (sk_args s)) (sk_ws s)\<rparr>)"

text \<open>Loading the client certificate may fail, which is an argument.\<close>

definition sink_start :: "bool \<Rightarrow> ws_sink \<Rightarrow> ws_sink" where
  "sink_start cert_fails s =
     (if sk_running s then s
      else let s = s\<lparr>sk_running := True, sk_reconnect_delay_ms := kReconnectDelayMinMs, sk_reconnect_scheduled := False,
                      sk_reconnect_gen := sk_reconnect_gen s + 1\<rparr>
           in if bs_certfile (sk_args s) \<noteq> [] \<and> bs_keyfile (sk_args s) \<noteq> [] \<and> cert_fails then s\<lparr>sk_running := False\<rparr>
              else sink_connect s)"

definition sink_stop :: "ws_sink \<Rightarrow> ws_sink" where
  "sink_stop s = s\<lparr>sk_running := False, sk_reconnect_scheduled := False, sk_reconnect_gen := sk_reconnect_gen s + 1,
     sk_timer := None, sk_ws := ws_close (sk_ws s)\<rparr>"

definition schedule_reconnect :: "env \<Rightarrow> ws_sink \<Rightarrow> ws_sink" where
  "schedule_reconnect v s =
     (if \<not> sk_running s then s
      else if sk_reconnect_scheduled s then s
      else let gen = sk_reconnect_gen s + 1;
               base = sk_reconnect_delay_ms s;
               jittered = trunc_int (of_i64 base * (Fin 1 + env_jitter v));
               delay = max 100 jittered
           in s\<lparr>sk_reconnect_scheduled := True, sk_reconnect_gen := gen,
                sk_reconnect_delay_ms := min (base * 2) kReconnectDelayMaxMs, sk_timer := Some (gen, delay)\<rparr>)"

definition sink_timer_expired :: "ws_sink \<Rightarrow> ws_sink" where
  "sink_timer_expired s =
     (case sk_timer s of None \<Rightarrow> s
      | Some (gen, delay) \<Rightarrow>
          (let s = s\<lparr>sk_timer := None\<rparr>
           in if \<not> sk_running s then s
              else if gen \<noteq> sk_reconnect_gen s then s
              else sink_connect (s\<lparr>sk_reconnect_scheduled := False\<rparr>)))"

fun sink_callback :: "env \<Rightarrow> ws_effect \<Rightarrow> ws_sink \<Rightarrow> ws_sink" where
  "sink_callback v CallOpen s = s\<lparr>sk_reconnect_delay_ms := kReconnectDelayMinMs, sk_reconnect_scheduled := False\<rparr>"
| "sink_callback v CallClose s = (if \<not> sk_running s then s else schedule_reconnect v s)"
| "sink_callback v _ s = s"

definition sink_ws_happens :: "env \<Rightarrow> ws_event \<Rightarrow> ws_sink \<Rightarrow> ws_sink" where
  "sink_ws_happens v e s =
     (let w = ws_step e (sk_ws s)
      in fold (sink_callback v) (drop (length (ws_log (sk_ws s))) (ws_log w)) (s\<lparr>sk_ws := w\<rparr>))"

definition send_json :: "'j json_api \<Rightarrow> 'j \<Rightarrow> ws_sink \<Rightarrow> ws_sink" where
  "send_json J j s = s\<lparr>sk_ws := send_binary (j_to_msgpack J j) (sk_ws s)\<rparr>"

definition publish_status :: "'j json_api \<Rightarrow> i64 \<Rightarrow> string \<Rightarrow> string \<Rightarrow> ws_sink \<Rightarrow> ws_sink" where
  "publish_status J now fs reason s =
     (if \<not> sk_running s then s
      else send_json J (status_json J (bs_venue (sk_args s)) (bs_symbol (sk_args s)) now fs reason) s)"

definition publish_snapshot :: "'j json_api \<Rightarrow> i64 \<Rightarrow> GenericSnapshotFormat \<Rightarrow> string \<Rightarrow> ws_sink \<Rightarrow> ws_sink" where
  "publish_snapshot J now snap source s =
     (if \<not> sk_running s then s
      else let s = s\<lparr>sk_persist_seq := sk_persist_seq s + 1\<rparr>
           in send_json J (snapshot_json J (bs_venue (sk_args s)) (bs_symbol (sk_args s)) (sk_persist_seq s) now snap source) s)"

definition publish_incremental :: "'j json_api \<Rightarrow> i64 \<Rightarrow> GenericIncrementalFormat \<Rightarrow> string \<Rightarrow> ws_sink \<Rightarrow> ws_sink" where
  "publish_incremental J now inc source s =
     (if \<not> sk_running s then s
      else let s = s\<lparr>sk_persist_seq := sk_persist_seq s + 1\<rparr>
           in send_json J (incremental_json J (bs_venue (sk_args s)) (bs_symbol (sk_args s)) (sk_persist_seq s) now inc source) s)"

definition publish_book_state ::
  "'j json_api \<Rightarrow> i64 \<Rightarrow> order_book \<Rightarrow> u64 \<Rightarrow> nat \<Rightarrow> string \<Rightarrow> i64 \<Rightarrow> ws_sink \<Rightarrow> ws_sink" where
  "publish_book_state J now book applied_seq top_n source ts_book s =
     (if \<not> sk_running s then s
      else let s = s\<lparr>sk_persist_seq := sk_persist_seq s + 1\<rparr>
           in send_json J (book_state_json J (bs_venue (sk_args s)) (bs_symbol (sk_args s)) (sk_persist_seq s) now
                book applied_seq top_n source ts_book) s)"

fun publish_event :: "'j json_api \<Rightarrow> i64 \<Rightarrow> pub_event \<Rightarrow> ws_sink \<Rightarrow> ws_sink" where
  "publish_event J now (PubStatus fs reason) s = publish_status J now fs reason s"
| "publish_event J now (PubSnapshot snap source) s = publish_snapshot J now snap source s"
| "publish_event J now (PubIncremental inc source) s = publish_incremental J now inc source s"
| "publish_event J now (PubBook book applied_seq top_n source ts) s = publish_book_state J now book applied_seq top_n source ts s"

section \<open>The line file\<close>

definition has_gzip_suffix :: "string \<Rightarrow> bool" where
  "has_gzip_suffix path \<longleftrightarrow> length path \<ge> 3 \<and> drop (length path - 3) path = ''.gz''"

text \<open>The file sink has functions of its own for the arrays of levels. They build what the publisher's build, so the line
  formats below are stated with the publisher's.\<close>

definition file_level_json :: "'j json_api \<Rightarrow> level \<Rightarrow> 'j" where
  "file_level_json J lvl = mk_obj J [(''price'', mk_str J (price lvl)), (''quantity'', mk_str J (quantity lvl)),
     (''priceTick'', mk_i64 J (priceTick lvl)), (''quantityLot'', mk_i64 J (quantityLot lvl))]"

definition file_levels_to_json :: "'j json_api \<Rightarrow> level list \<Rightarrow> 'j" where
  "file_levels_to_json J levels = mk_arr J (foldl (\<lambda>arr lvl. arr @ [file_level_json J lvl]) [] levels)"

function file_book_loop :: "'j json_api \<Rightarrow> (nat \<Rightarrow> level option) \<Rightarrow> nat \<Rightarrow> nat \<Rightarrow> 'j list \<Rightarrow> 'j list" where
  "file_book_loop J ptr i top_n arr =
     (if i < top_n
      then (case ptr i of None \<Rightarrow> arr | Some lvl \<Rightarrow> file_book_loop J ptr (i + 1) top_n (arr @ [file_level_json J lvl]))
      else arr)"
  by pat_completeness auto
termination by (relation "measure (\<lambda>(_, _, i, top_n, _). top_n - i)") auto

declare file_book_loop.simps [simp del]

definition file_levels_from_book :: "'j json_api \<Rightarrow> order_book \<Rightarrow> nat \<Rightarrow> side \<Rightarrow> 'j" where
  "file_levels_from_book J book top_n sd =
     mk_arr J (file_book_loop J (\<lambda>i. if sd = BID then bid_ptr book i else ask_ptr book i) 0 top_n [])"

definition persist_queue_cap :: nat where
  "persist_queue_cap = 10000"

record file_sink =
  fs_path :: string
  fs_venue :: string
  fs_symbol :: string
  fs_persist_seq :: u64
  fs_max_file_bytes :: u64
  fs_bytes_written :: u64
  fs_rotate_seq :: u32
  fs_gz :: bool
  fs_out_open :: bool
  fs_queue :: "string list"
  fs_files :: "string \<rightharpoonup> string"

definition append_file :: "string \<Rightarrow> string \<Rightarrow> (string \<rightharpoonup> string) \<Rightarrow> (string \<rightharpoonup> string)" where
  "append_file path text files = files(path \<mapsto> (case files path of None \<Rightarrow> [] | Some old \<Rightarrow> old) @ text)"

definition new_FilePersistSink ::
  "bool \<Rightarrow> (string \<rightharpoonup> string) \<Rightarrow> string \<Rightarrow> string \<Rightarrow> string \<Rightarrow> u64 \<Rightarrow> file_sink" where
  "new_FilePersistSink can_open files path vn sy max_bytes =
     \<lparr>fs_path = path, fs_venue = vn, fs_symbol = sy, fs_persist_seq = 0, fs_max_file_bytes = max_bytes,
      fs_bytes_written = 0, fs_rotate_seq = 0, fs_gz = (has_gzip_suffix path \<and> can_open),
      fs_out_open = (\<not> has_gzip_suffix path \<and> can_open), fs_queue = [],
      fs_files = (if can_open then append_file path [] files else files)\<rparr>"

definition rotate :: "file_sink \<Rightarrow> file_sink" where
  "rotate f =
     (if fs_gz f \<or> \<not> fs_out_open f then f
      else let f = f\<lparr>fs_rotate_seq := fs_rotate_seq f + 1\<rparr>;
               rotated = fs_path f @ ''.'' @ nat_str (unat (fs_rotate_seq f))
           in f\<lparr>fs_files := (fs_files f)(rotated := fs_files f (fs_path f), fs_path f \<mapsto> []), fs_bytes_written := 0\<rparr>)"

definition enqueue_line :: "string \<Rightarrow> file_sink \<Rightarrow> file_sink" where
  "enqueue_line line f = f\<lparr>fs_queue := push_while persist_queue_cap line (fs_queue f)\<rparr>"

text \<open>One round of \<^verbatim>\<open>writer_loop_\<close> on a non-empty queue; the destructor runs it until the queue is empty.\<close>

definition writer_round :: "file_sink \<Rightarrow> file_sink" where
  "writer_round f =
     (case fs_queue f of [] \<Rightarrow> f
      | line # rest \<Rightarrow>
          (let f = f\<lparr>fs_queue := rest\<rparr>
           in if fs_gz f then f\<lparr>fs_files := append_file (fs_path f) line (fs_files f)\<rparr>
              else if fs_out_open f then
                (let f = f\<lparr>fs_files := append_file (fs_path f) line (fs_files f),
                           fs_bytes_written := fs_bytes_written f + word_of_nat (length line)\<rparr>
                 in if fs_max_file_bytes f > 0 \<and> fs_bytes_written f \<ge> fs_max_file_bytes f then rotate f else f)
              else f))"

definition close_file_sink :: "file_sink \<Rightarrow> file_sink" where
  "close_file_sink f = ((writer_round ^^ length (fs_queue f)) f)\<lparr>fs_gz := False, fs_out_open := False\<rparr>"

definition newline :: string where
  "newline = [CHR 0x0A]"

definition write_snapshot :: "'j json_api \<Rightarrow> i64 \<Rightarrow> GenericSnapshotFormat \<Rightarrow> string \<Rightarrow> file_sink \<Rightarrow> file_sink" where
  "write_snapshot J now snap source f =
     (let f = f\<lparr>fs_persist_seq := fs_persist_seq f + 1\<rparr>
      in enqueue_line (j_dump J (snapshot_json J (fs_venue f) (fs_symbol f) (fs_persist_seq f) now snap source) @ newline) f)"

definition write_incremental :: "'j json_api \<Rightarrow> i64 \<Rightarrow> GenericIncrementalFormat \<Rightarrow> string \<Rightarrow> file_sink \<Rightarrow> file_sink" where
  "write_incremental J now inc source f =
     (let f = f\<lparr>fs_persist_seq := fs_persist_seq f + 1\<rparr>
      in enqueue_line (j_dump J (incremental_json J (fs_venue f) (fs_symbol f) (fs_persist_seq f) now inc source) @ newline) f)"

definition write_book_state ::
  "'j json_api \<Rightarrow> i64 \<Rightarrow> order_book \<Rightarrow> u64 \<Rightarrow> nat \<Rightarrow> string \<Rightarrow> i64 \<Rightarrow> file_sink \<Rightarrow> file_sink" where
  "write_book_state J now book applied_seq top_n source ts_book f =
     (let f = f\<lparr>fs_persist_seq := fs_persist_seq f + 1\<rparr>
      in enqueue_line (j_dump J (book_state_json J (fs_venue f) (fs_symbol f) (fs_persist_seq f) now
           book applied_seq top_n source ts_book) @ newline) f)"

interpretation persist_queue: drop_oldest_queue persist_queue_cap "push_while persist_queue_cap"
  by (rule push_while_queue) (simp add: persist_queue_cap_def)


section \<open>Both sinks build the same arrays\<close>

lemma file_level_same: "file_level_json J = level_json J"
  by (simp add: fun_eq_iff file_level_json_def level_json_def)

lemma file_levels_same: "file_levels_to_json J levels = levels_to_json J levels"
proof -
  have "foldl (\<lambda>arr lvl. arr @ [f lvl]) arr levels = arr @ map f levels" for f and arr :: "'a list"
    by (induction levels arbitrary: arr) simp_all
  then show ?thesis by (simp add: file_levels_to_json_def levels_to_json_def file_level_same)
qed

lemma file_book_loop_levels: "file_book_loop J ptr i (i + n) arr = arr @ map (level_json J) (ptr_levels ptr i n)"
proof (induction n arbitrary: i arr)
  case (Suc n)
  show ?case using Suc.IH [of "i + 1"] by (simp add: file_book_loop.simps [of J ptr i] file_level_same split: option.split)
qed (simp add: file_book_loop.simps)

lemma file_book_same: "file_levels_from_book J book top_n sd = levels_from_book J book top_n sd"
proof -
  have "(\<lambda>i. if sd = BID then bid_ptr book i else ask_ptr book i) = (case sd of BID \<Rightarrow> bid_ptr book | ASK \<Rightarrow> ask_ptr book)"
    by (cases sd) simp_all
  then show ?thesis using file_book_loop_levels [of J _ 0 top_n "[]"] by (simp add: file_levels_from_book_def levels_from_book_def)
qed

section \<open>The brain reads what was published\<close>

text \<open>Levels that the brain accepts; messages whose integers fit their width.\<close>

definition level_wire_ok :: "level \<Rightarrow> bool" where
  "level_wire_ok l \<longleftrightarrow> i64_ok (priceTick l) \<and> i64_ok (quantityLot l) \<and> 0 \<le> quantityLot l \<and>
     (0 < quantityLot l \<longrightarrow> 0 < priceTick l)"

definition snap_wire_ok :: "GenericSnapshotFormat \<Rightarrow> bool" where
  "snap_wire_ok m \<longleftrightarrow> i64_ok (snap_ts_recv_ns m) \<and> i64_ok (snap_checksum m) \<and>
     list_all level_wire_ok (snap_bids m) \<and> list_all level_wire_ok (snap_asks m)"

definition inc_wire_ok :: "GenericIncrementalFormat \<Rightarrow> bool" where
  "inc_wire_ok m \<longleftrightarrow> i64_ok (inc_ts_recv_ns m) \<and> i64_ok (inc_checksum m) \<and>
     list_all level_wire_ok (inc_bids m) \<and> list_all level_wire_ok (inc_asks m)"

text \<open>Reading one member of an object that denotes a built one.\<close>

lemma read_members:
  assumes "json_denotes J den" and "den j = den (mk_obj J kvs)" and "distinct (map fst kvs)"
  shows "map_of kvs k = Some (mk_str J s) \<Longrightarrow> j_value J (j_str J) j k ds = Some s"
    and "map_of kvs k = Some (mk_u64 J w) \<Longrightarrow> j_value J (j_u64 J) j k dw = Some w"
    and "map_of kvs k = Some (mk_i64 J n) \<Longrightarrow> i64_ok n \<Longrightarrow> j_value J (j_i64 J) j k dn = Some n"
    and "map_of kvs k = Some (mk_i64 J i) \<Longrightarrow> - (2 ^ 31) \<le> i \<Longrightarrow> i < 2 ^ 31 \<Longrightarrow> j_value J (j_int J) j k di = Some i"
    and "map_of kvs k = Some v \<Longrightarrow> \<exists>v'. j_at J j k = Some v' \<and> den v' = den v"
proof -
  have o: "is_tobj (den j)" and f: "t_find (den j) k = map_option den (map_of kvs k)" for k
    using den_obj [OF assms(1,3)] assms(2) by simp_all
  note v = den_value [OF assms(1) o]
  note g = den_get [OF assms(1)] and l = den_leaf [OF assms(1)]
  show "map_of kvs k = Some (mk_str J s) \<Longrightarrow> j_value J (j_str J) j k ds = Some s"
    by (rule v(2) [of k "TStr s"]) (simp_all add: f l g)
  show "map_of kvs k = Some (mk_u64 J w) \<Longrightarrow> j_value J (j_u64 J) j k dw = Some w"
    by (rule v(2) [of k "TNum (uint w)"]) (simp_all add: f l g)
  show "map_of kvs k = Some (mk_i64 J n) \<Longrightarrow> i64_ok n \<Longrightarrow> j_value J (j_i64 J) j k dn = Some n"
    by (rule v(2) [of k "TNum n"]) (simp_all add: f l g)
  show "map_of kvs k = Some (mk_i64 J i) \<Longrightarrow> - (2 ^ 31) \<le> i \<Longrightarrow> i < 2 ^ 31 \<Longrightarrow> j_value J (j_int J) j k di = Some i"
    by (rule v(2) [of k "TNum i"]) (simp_all add: f l g)
  show "map_of kvs k = Some v \<Longrightarrow> \<exists>v'. j_at J j k = Some v' \<and> den v' = den v"
    by (rule v(3)) (simp add: f)
qed

lemma parse_level_back:
  assumes "json_denotes J den" and "den e = den (level_json J l)" and "level_wire_ok l"
  shows "parse_level J e = Some l"
proof -
  note r = read_members [OF assms(1) assms(2) [unfolded level_json_def]]
  have "j_value J (j_i64 J) e ''priceTick'' 0 = Some (priceTick l)" "j_value J (j_i64 J) e ''quantityLot'' 0 = Some (quantityLot l)"
    "j_value J (j_str J) e ''price'' [] = Some (price l)" "j_value J (j_str J) e ''quantity'' [] = Some (quantity l)"
    using assms(3) by (simp_all add: r level_wire_ok_def)
  then show ?thesis using assms(3) by (auto simp: parse_level_def level_wire_ok_def)
qed

lemma those_map_back: "list_all2 (\<lambda>x y. f x = Some y) xs ys \<Longrightarrow> those (map f xs) = Some ys"
  by (induction xs ys rule: list_all2_induct) auto

lemma parse_levels_back:
  assumes "json_denotes J den" and "den v = den (mk_arr J (map (level_json J) ls))" and "list_all level_wire_ok ls"
  shows "parse_levels J v = Some ls"
proof -
  have "den v = TArr (map (\<lambda>l. den (level_json J l)) ls)" using assms(2) den_leaf [OF assms(1)] by simp
  from den_get(6) [OF assms(1) this] have a: "j_is_array J v" and e: "map den (j_elems J v) = map (\<lambda>l. den (level_json J l)) ls"
    by simp_all
  have "list_all2 (\<lambda>x l. parse_level J x = Some l) (j_elems J v) ls"
  proof (rule list_all2_all_nthI)
    show len: "length (j_elems J v) = length ls" using arg_cong [OF e, of length] by simp
    fix n assume n: "n < length (j_elems J v)"
    then have "den (j_elems J v ! n) = den (level_json J (ls ! n))" using nth_map [of n _ den] nth_map len
      arg_cong [OF e, of "\<lambda>xs. xs ! n"] by simp
    moreover have "level_wire_ok (ls ! n)" using assms(3) n len by (simp add: list_all_length)
    ultimately show "parse_level J (j_elems J v ! n) = Some (ls ! n)" by (rule parse_level_back [OF assms(1)])
  qed
  then show ?thesis using a by (simp add: parse_levels_def those_map_back)
qed


lemma parse_snapshot_back:
  assumes "json_denotes J den" and "den j = den (snapshot_json J vn sy seq now m src)" and "snap_wire_ok m"
  shows "parse_header J j = Some \<lparr>schema_version = 1, event_type = ''snapshot'', venue = vn, eh_symbol = sy\<rparr>"
    and "parse_snapshot J j = Some m"
proof -
  note r = read_members [OF assms(1) assms(2) [unfolded snapshot_json_def]]
  show "parse_header J j = Some \<lparr>schema_version = 1, event_type = ''snapshot'', venue = vn, eh_symbol = sy\<rparr>"
    by (simp add: parse_header_def r(1) r(4) [of _ 1])
  obtain jb ja where b: "j_at J j ''bids'' = Some jb" "den jb = den (levels_to_json J (snap_bids m))"
    and a: "j_at J j ''asks'' = Some ja" "den ja = den (levels_to_json J (snap_asks m))"
    using r(5) [of "''bids''" "levels_to_json J (snap_bids m)"] r(5) [of "''asks''" "levels_to_json J (snap_asks m)"] by auto
  have "parse_levels J jb = Some (snap_bids m)" "parse_levels J ja = Some (snap_asks m)"
    using a b assms(1,3) by (auto simp: levels_to_json_def snap_wire_ok_def intro: parse_levels_back)
  then show "parse_snapshot J j = Some m"
    using assms(3) a b by (simp add: parse_snapshot_def r(2) [of _ "lastUpdateId m"] r(3) snap_wire_ok_def)
qed

lemma parse_incremental_back:
  assumes "json_denotes J den" and "den j = den (incremental_json J vn sy seq now m src)" and "inc_wire_ok m"
  shows "parse_header J j = Some \<lparr>schema_version = 1, event_type = ''incremental'', venue = vn, eh_symbol = sy\<rparr>"
    and "parse_incremental J j = Some m"
proof -
  note r = read_members [OF assms(1) assms(2) [unfolded incremental_json_def]]
  show "parse_header J j = Some \<lparr>schema_version = 1, event_type = ''incremental'', venue = vn, eh_symbol = sy\<rparr>"
    by (simp add: parse_header_def r(1) r(4) [of _ 1])
  obtain jb ja where b: "j_at J j ''bids'' = Some jb" "den jb = den (levels_to_json J (inc_bids m))"
    and a: "j_at J j ''asks'' = Some ja" "den ja = den (levels_to_json J (inc_asks m))"
    using r(5) [of "''bids''" "levels_to_json J (inc_bids m)"] r(5) [of "''asks''" "levels_to_json J (inc_asks m)"] by auto
  have "parse_levels J jb = Some (inc_bids m)" "parse_levels J ja = Some (inc_asks m)"
    using a b assms(1,3) by (auto simp: levels_to_json_def inc_wire_ok_def intro: parse_levels_back)
  then show "parse_incremental J j = Some m"
    using assms(3) a b by (simp add: parse_incremental_def r(2,3) inc_wire_ok_def)
qed

text \<open>A publishing step sends one binary frame that the brain decodes to an event with property \<open>P\<close>.\<close>

definition frame_carries :: "'j json_api \<Rightarrow> ws_sink \<Rightarrow> ws_sink \<Rightarrow> string \<Rightarrow> ('j \<Rightarrow> bool) \<Rightarrow> bool" where
  "frame_carries J s s' et P \<longleftrightarrow>
     (\<exists>b j. sk_ws s' = send_binary b (sk_ws s) \<and> j_from_msgpack J b = Some j \<and> P j \<and>
        parse_header J j = Some \<lparr>schema_version = 1, event_type = et, venue = bs_venue (sk_args s),
          eh_symbol = bs_symbol (sk_args s)\<rparr>)"

lemma frame_carries_send:
  assumes "json_denotes J den" and "sk_ws s' = send_binary (j_to_msgpack J j) (sk_ws s)"
    and "\<And>j'. den j' = den j \<Longrightarrow> P j' \<and> parse_header J j' = Some \<lparr>schema_version = 1, event_type = et,
      venue = bs_venue (sk_args s), eh_symbol = bs_symbol (sk_args s)\<rparr>"
  shows "frame_carries J s s' et P"
  using den_msgpack [OF assms(1), of j] assms(2,3) unfolding frame_carries_def by metis

text \<open>C30: What a running publisher sends to the brain for a snapshot or an incremental is one binary frame
  which the brain's parsers read back as exactly that message, under the publisher's venue and
  symbol, provided its integers fit their width and its levels have positive ticks where they have
  a quantity.\<close>

theorem published_updates_are_read_back:
  assumes "json_denotes J den" and "sk_running s" and "snap_wire_ok m" and "inc_wire_ok i"
  shows "frame_carries J s (publish_snapshot J now m src s) ''snapshot'' (\<lambda>j. parse_snapshot J j = Some m) \<and>
    frame_carries J s (publish_incremental J now i src s) ''incremental'' (\<lambda>j. parse_incremental J j = Some i)"
proof
  let ?v = "bs_venue (sk_args s)" and ?y = "bs_symbol (sk_args s)" and ?q = "sk_persist_seq s + 1"
  show "frame_carries J s (publish_snapshot J now m src s) ''snapshot'' (\<lambda>j. parse_snapshot J j = Some m)"
    by (rule frame_carries_send [OF assms(1), of _ "snapshot_json J ?v ?y ?q now m src"])
      (use assms(2) parse_snapshot_back [OF assms(1) _ assms(3)] in
        \<open>auto simp: publish_snapshot_def send_json_def Let_def\<close>)
  show "frame_carries J s (publish_incremental J now i src s) ''incremental'' (\<lambda>j. parse_incremental J j = Some i)"
    by (rule frame_carries_send [OF assms(1), of _ "incremental_json J ?v ?y ?q now i src"])
      (use assms(2) parse_incremental_back [OF assms(1) _ assms(4)] in
        \<open>auto simp: publish_incremental_def send_json_def Let_def\<close>)
qed

definition okx_sink :: ws_sink where
  "okx_sink = sink_start False (new_WsPublishSink \<lparr>bs_host = ''brain'', bs_port = ''9443'', bs_path = ''/'', bs_insecure = False,
     bs_venue = ''okx'', bs_symbol = ''BTCUSDT'', bs_certfile = [], bs_keyfile = []\<rparr>)"

theorem published_updates_are_read_back_witness:
  "frame_carries tree_api okx_sink
     (publish_snapshot tree_api 5 \<lparr>lastUpdateId = 7, snap_ts_recv_ns = 3, snap_checksum = -1,
        snap_bids = [Level 100 5 ''100'' ''5''], snap_asks = []\<rparr> ''ws'' okx_sink) ''snapshot''
     (\<lambda>j. parse_snapshot tree_api j = Some \<lparr>lastUpdateId = 7, snap_ts_recv_ns = 3, snap_checksum = -1,
        snap_bids = [Level 100 5 ''100'' ''5''], snap_asks = []\<rparr>)"
proof -
  have r: "sk_running okx_sink"
    by (simp add: okx_sink_def sink_start_def new_WsPublishSink_def sink_connect_def Let_def)
  have m: "snap_wire_ok \<lparr>lastUpdateId = 7, snap_ts_recv_ns = 3, snap_checksum = -1,
      snap_bids = [Level 100 5 ''100'' ''5''], snap_asks = []\<rparr>"
    and i: "inc_wire_ok \<lparr>first_seq = 8, last_seq = 9, prev_last = 7, inc_ts_recv_ns = 4, inc_checksum = 0,
      inc_bids = [Level 100 0 ''100'' ''0''], inc_asks = []\<rparr>"
    by (simp_all add: snap_wire_ok_def inc_wire_ok_def level_wire_ok_def i64_ok_def)
  show ?thesis using published_updates_are_read_back [OF tree_api_denotes r m i, of 5 "''ws''"] by (rule conjunct1)
qed

section \<open>The brain holds what was published\<close>

lemma ptr_levels_take:
  "\<forall>k. ptr k = (if k < length vec then Some (vec ! k) else None) \<Longrightarrow> ptr_levels ptr i n = take n (drop i vec)"
proof (induction n arbitrary: i)
  case (Suc n)
  then show ?case by (cases "i < length vec") (simp_all add: Cons_nth_drop_Suc [symmetric])
qed simp

lemma book_side_levels:
  assumes "book_inv b"
  shows "ptr_levels (bid_ptr b) 0 n = take n (ob_bids b)" and "ptr_levels (ask_ptr b) 0 n = take n (ob_asks b)"
  using assms ptr_levels_take [of "bid_ptr b" "ob_bids b" 0 n] ptr_levels_take [of "ask_ptr b" "ob_asks b" 0 n]
  by (auto simp: bid_ptr_def ask_ptr_def inv_defs isEmpty_def list_all_length)

definition book_wire_ok :: "order_book \<Rightarrow> bool" where
  "book_wire_ok b \<longleftrightarrow> book_inv b \<and> list_all level_wire_ok (ob_bids b) \<and> list_all level_wire_ok (ob_asks b)"

lemma parse_book_state_back:
  assumes "json_denotes J den" and "den j = den (book_state_json J vn sy seq now b aseq n src ts)"
    and "book_wire_ok b" and "i64_ok ts"
  shows "parse_header J j = Some \<lparr>schema_version = 1, event_type = ''book_state'', venue = vn, eh_symbol = sy\<rparr>"
    and "extract_ts_book_ns J j = Some ts"
    and "parse_book_state_as_snapshot J j = Some \<lparr>lastUpdateId = aseq, snap_ts_recv_ns = ts, snap_checksum = 0,
      snap_bids = take n (ob_bids b), snap_asks = take n (ob_asks b)\<rparr>"
proof -
  note r = read_members [OF assms(1) assms(2) [unfolded book_state_json_def]]
  show "parse_header J j = Some \<lparr>schema_version = 1, event_type = ''book_state'', venue = vn, eh_symbol = sy\<rparr>"
    by (simp add: parse_header_def r(1) r(4) [of _ 1])
  show x: "extract_ts_book_ns J j = Some ts" using assms(4) by (simp add: extract_ts_book_ns_def r(3))
  obtain jb ja where jb: "j_at J j ''bids'' = Some jb" "den jb = den (levels_from_book J b n BID)"
    and ja: "j_at J j ''asks'' = Some ja" "den ja = den (levels_from_book J b n ASK)"
    using r(5) [of "''bids''" "levels_from_book J b n BID"] r(5) [of "''asks''" "levels_from_book J b n ASK"] by auto
  have "parse_levels J jb = Some (take n (ob_bids b))" "parse_levels J ja = Some (take n (ob_asks b))"
    using jb ja assms(1,3)
    by (auto simp: levels_from_book_def book_wire_ok_def book_side_levels list_all_length intro!: parse_levels_back [OF assms(1)])
  then show "parse_book_state_as_snapshot J j = Some \<lparr>lastUpdateId = aseq, snap_ts_recv_ns = ts, snap_checksum = 0,
      snap_bids = take n (ob_bids b), snap_asks = take n (ob_asks b)\<rparr>"
    using x jb ja by (simp add: parse_book_state_as_snapshot_def r(2) [of _ aseq] extract_ts_book_ns_def)
qed

text \<open>The brain's entry after a book-state event of a sorted book.\<close>

lemma sort_best_first:
  "sorted_wrt (better BID) (map priceTick ls) \<Longrightarrow> sort_bids ls = ls"
  "sorted_wrt (better ASK) (map priceTick ls) \<Longrightarrow> sort_asks ls = ls"
  unfolding sort_bids_def sort_asks_def
  by (rule sort_key_id_if_sorted, simp add: sorted_wrt_map, erule sorted_wrt_mono_rel [rotated], simp)+

lemma side_take_live:
  assumes "side_ok d S vec"
  shows "live_levels (take n vec) = take n vec" and "sorted_wrt (better S) (map priceTick (take n vec))"
    and "distinct (map priceTick (take n vec))"
proof -
  have s: "sorted_wrt (better S) (map priceTick vec)" and q: "\<forall>l \<in> set vec. quantityLot l \<noteq> 0"
    using assms by (auto simp: side_ok_def isEmpty_def)
  show "live_levels (take n vec) = take n vec" using q by (auto intro!: filter_True dest: in_set_takeD)
  show t: "sorted_wrt (better S) (map priceTick (take n vec))" using s by (simp add: take_map [symmetric] sorted_wrt_take)
  show "distinct (map priceTick (take n vec))"
    using t by (rule tick.sorted_distinct)
qed

lemma book_snapshot_loaded:
  assumes "book_inv b"
    and "onSnapshot \<lparr>lastUpdateId = aseq, snap_ts_recv_ns = ts, snap_checksum = 0,
      snap_bids = take n (ob_bids b), snap_asks = take n (ob_asks b)\<rparr> WsAuthoritativeBaseline c = (a, c')"
  shows "isSynced c' \<and> c_last_seq c' = aseq \<and> ob_bids (c_book c') = take (min n (ob_depth (c_book c))) (ob_bids b) \<and>
    ob_asks (c_book c') = take (min n (ob_depth (c_book c))) (ob_asks b)"
proof -
  let ?m = "\<lparr>lastUpdateId = aseq, snap_ts_recv_ns = ts, snap_checksum = 0,
      snap_bids = take n (ob_bids b), snap_asks = take n (ob_asks b)\<rparr>"
  have sd: "side_ok (ob_depth b) BID (ob_bids b)" "side_ok (ob_depth b) ASK (ob_asks b)"
    using assms(1) by (simp_all add: book_inv_def)
  note bs = side_take_live [OF sd(1), of n] and as = side_take_live [OF sd(2), of n]
  have v: "ob_bids (load_snapshot ?m (clear_book (c_book c))) = take (min n (ob_depth (c_book c))) (ob_bids b)"
    "ob_asks (load_snapshot ?m (clear_book (c_book c))) = take (min n (ob_depth (c_book c))) (ob_asks b)"
    using load_snapshot_views [of ?m "c_book c"] bs as
    by (simp_all add: sort_best_first min.commute)
  show ?thesis
    using assms(2) v by (cases rule: onSnapshot_outcome [of ?m WsAuthoritativeBaseline c]) (auto simp: isSynced_def)
qed

lemma entry_depth:
  assumes "lookup_book v y ub = Some vb \<or> lookup_book v y ub = None \<and> new_VenueBook v y (ub_depth ub) = Inr vb" and "ub_inv ub"
  shows "ob_depth (c_book (vb_controller vb)) = ub_depth ub"
proof -
  have "vb_ok (ub_depth ub) vb"
  proof (cases "lookup_book v y ub")
    case None
    then have "new_VenueBook v y (ub_depth ub) = Inr vb" using assms(1) by simp
    then show ?thesis using new_VenueBook_ok [of "ub_depth ub" v y] assms(2) by (fastforce simp: ub_inv_def)
  next
    case (Some vb')
    then have "vb \<in> set (ub_books ub)" using assms(1) by (auto simp: lookup_book_def dest: map_of_SomeD)
    then show ?thesis using assms(2) by (simp add: ub_inv_def)
  qed
  then show ?thesis by (simp add: vb_ok_def vb_book_def)
qed

text \<open>C7: The brain's book is the feed's book. When a running publisher publishes a book, the frame it
  sends makes the brain's unified book hold, under the publisher's venue and symbol, a synced book
  whose sides are exactly the best levels of the published one, as many as the publisher's
  \<^verbatim>\<open>top_n\<close> and the brain's depth allow, whatever the entry held before.\<close>

theorem published_book_reaches_brain:
  assumes "json_denotes J den" and "sk_running s" and "book_wire_ok b" and "i64_ok ts" and "ub_inv ub"
    and "bs_venue (sk_args s) \<noteq> []"
  shows "frame_carries J s (publish_book_state J now b aseq n src ts s) ''book_state''
    (\<lambda>j. \<exists>ub' vb. on_event J now' j ub = Inr (bs_venue (sk_args s), ub') \<and>
      lookup_book (bs_venue (sk_args s)) (bs_symbol (sk_args s)) ub' = Some vb \<and> synced vb \<and>
      c_last_seq (vb_controller vb) = aseq \<and> ts_book_ns vb = sanitize_ts ts now' \<and>
      ob_bids (vb_book vb) = take (min n (ub_depth ub)) (ob_bids b) \<and>
      ob_asks (vb_book vb) = take (min n (ub_depth ub)) (ob_asks b))"
proof (rule frame_carries_send [OF assms(1)])
  let ?v = "bs_venue (sk_args s)" and ?y = "bs_symbol (sk_args s)"
  let ?j = "book_state_json J ?v ?y (sk_persist_seq s + 1) now b aseq n src ts"
  show "sk_ws (publish_book_state J now b aseq n src ts s) = send_binary (j_to_msgpack J ?j) (sk_ws s)"
    using assms(2) by (simp add: publish_book_state_def send_json_def Let_def)
  fix j assume "den j = den ?j"
  note p = parse_book_state_back [OF assms(1) this assms(3,4)]
  let ?hdr = "\<lparr>schema_version = 1, event_type = ''book_state'', venue = ?v, eh_symbol = ?y\<rparr>"
  obtain vb0 ub' where e: "lookup_book ?v ?y ub = Some vb0 \<or> lookup_book ?v ?y ub = None \<and> new_VenueBook ?v ?y (ub_depth ub) = Inr vb0"
    "on_event J now' j ub = Inr (if snd (handle_event J now' ''book_state'' j vb0) = Handled then ?v else '''', ub')"
    "lookup_book ?v ?y ub' = Some (fst (handle_event J now' ''book_state'' j vb0))"
    by (rule on_event_entry [OF assms(5) p(1), of now']) (use assms(6) in \<open>simp_all cong: if_cong\<close>)
  have d: "ob_depth (c_book (vb_controller vb0)) = ub_depth ub"
    using e(1) assms(5) by (rule entry_depth)
  obtain a c' where c: "onSnapshot \<lparr>lastUpdateId = aseq, snap_ts_recv_ns = ts, snap_checksum = 0,
      snap_bids = take n (ob_bids b), snap_asks = take n (ob_asks b)\<rparr> WsAuthoritativeBaseline (vb_controller vb0) = (a, c')"
    by (rule prod.exhaust)
  have h: "handle_event J now' ''book_state'' j vb0 =
      (vb0\<lparr>ts_book_ns := sanitize_ts ts now', feed_healthy := True, vb_controller := c'\<rparr>, Handled)"
    using p(2,3) c by (simp add: handle_event_def on_book_state_event_def)
  have "book_inv b" using assms(3) by (simp add: book_wire_ok_def)
  from book_snapshot_loaded [OF this c] show "(\<exists>ub' vb. on_event J now' j ub = Inr (?v, ub') \<and>
      lookup_book ?v ?y ub' = Some vb \<and> synced vb \<and>
      c_last_seq (vb_controller vb) = aseq \<and> ts_book_ns vb = sanitize_ts ts now' \<and>
      ob_bids (vb_book vb) = take (min n (ub_depth ub)) (ob_bids b) \<and>
      ob_asks (vb_book vb) = take (min n (ub_depth ub)) (ob_asks b)) \<and> parse_header J j = Some ?hdr"
    using e(2,3) p(1) by (auto simp: h d synced_def vb_book_def)
qed


definition okx_book :: order_book where
  "okx_book = \<lparr>ob_depth = 5, ob_bids = [Level 100 5 ''100'' ''5'', Level 99 2 ''99'' ''2''],
     ob_asks = [Level 101 1 ''101'' ''1'']\<rparr>"

theorem published_book_reaches_brain_witness:
  "frame_carries tree_api okx_sink (publish_book_state tree_api 5 okx_book 42 1 ''ws'' 4 okx_sink) ''book_state''
    (\<lambda>j. \<exists>ub' vb. on_event tree_api 6 j (new_UnifiedBook 10) = Inr (''okx'', ub') \<and>
      lookup_book ''okx'' ''BTCUSDT'' ub' = Some vb \<and> synced vb \<and>
      c_last_seq (vb_controller vb) = 42 \<and> ts_book_ns vb = 4 \<and>
      ob_bids (vb_book vb) = [Level 100 5 ''100'' ''5''] \<and> ob_asks (vb_book vb) = [Level 101 1 ''101'' ''1''])"
proof -
  have s: "sk_running okx_sink" "bs_venue (sk_args okx_sink) = ''okx''" "bs_symbol (sk_args okx_sink) = ''BTCUSDT''"
    by (simp_all add: okx_sink_def sink_start_def new_WsPublishSink_def sink_connect_def Let_def)
  have b: "book_wire_ok okx_book"
    by (simp add: book_wire_ok_def okx_book_def inv_defs level_wire_ok_def i64_ok_def isEmpty_def)
  have "i64_ok 4" "ub_inv (new_UnifiedBook 10)" by (simp_all add: i64_ok_def ub_inv_new)
  from published_book_reaches_brain [OF tree_api_denotes s(1) b this, of 5 42 1 "''ws''" 6]
  show ?thesis by (simp add: s okx_book_def sanitize_ts_def kMaxFutureNs_def new_UnifiedBook_def)
qed

end
