(* ===== verification/BrainServers.thy ===== *)
theory BrainServers
  imports Zida_Prelude
begin

text \<open>
  The two WebSocket servers of the brain: \<^verbatim>\<open>brain/src/brain/WsServer.cpp\<close> receives the events of the
  feeds, \<^verbatim>\<open>brain/src/brain/SignalServer.cpp\<close> pushes crosses to the execution processes. Every session
  ever accepted has a number, its position in the list of session objects; \<^verbatim>\<open>sessions_\<close>, a vector of
  weak pointers, is a list of such numbers. A session object lives as long as one of its handlers
  is pending or queued, which is what \<open>expired\<close> reads off its state. Handlers are definitions
  applied to the outcome of the operation they complete; closures posted on a strand are explicit
  queues, run by events of their own. Sockets, TLS and log output are left out.
\<close>

section \<open>Registers of sessions\<close>

definition kMaxSessions :: nat where
  "kMaxSessions = 10"

datatype session_phase = TlsHandshake | WsAccept | Reading | Ended

text \<open>The erase-remove idiom over weak pointers.\<close>

definition prune :: "(nat \<Rightarrow> bool) \<Rightarrow> nat list \<Rightarrow> nat list" where
  "prune expired sessions = filter (\<lambda>i. \<not> expired i) sessions"

text \<open>What both servers keep of their register: a list of distinct numbers of known sessions, no longer
  than the cap.\<close>

definition register_ok :: "nat \<Rightarrow> nat list \<Rightarrow> bool" where
  "register_ok known sessions \<longleftrightarrow> length sessions \<le> kMaxSessions \<and> distinct sessions \<and> (\<forall>i \<in> set sessions. i < known)"

lemma register_ok_Nil [simp]: "register_ok n []"
  by (simp add: register_ok_def kMaxSessions_def)

lemma register_ok_prune: "register_ok n xs \<Longrightarrow> register_ok n (prune e xs)"
  by (auto simp: register_ok_def prune_def intro: le_trans [OF length_filter_le])

lemma register_ok_enter:
  "register_ok n xs \<Longrightarrow> \<not> kMaxSessions \<le> length (prune e xs) \<Longrightarrow> register_ok (Suc n) (prune e xs @ [n])"
  by (drule register_ok_prune [where e = e]) (auto simp: register_ok_def less_Suc_eq)

text \<open>A server whose every step keeps its register within the cap.\<close>

locale session_register =
  fixes step :: "'e \<Rightarrow> 's \<Rightarrow> 's" and sessions :: "'s \<Rightarrow> nat list" and known :: "'s \<Rightarrow> nat"
  assumes step_ok: "register_ok (known s) (sessions s) \<Longrightarrow> register_ok (known (step e s)) (sessions (step e s))"
begin

lemma run_ok: "register_ok (known s) (sessions s) \<Longrightarrow> register_ok (known (fold step es s)) (sessions (fold step es s))"
  by (induction es arbitrary: s) (simp_all add: step_ok)

lemma run_bounded:
  "register_ok (known s) (sessions s) \<Longrightarrow> length (sessions (fold step es s)) \<le> kMaxSessions"
  using run_ok [of s es] by (simp add: register_ok_def)

end

section \<open>The event server\<close>

record ws_session =
  wse_phase :: session_phase
  wse_socket_open :: bool

record ws_server =
  wv_stopped :: bool
  wv_acceptor_open :: bool
  wv_accept_pending :: bool
  wv_sessions :: "nat list"
  wv_objs :: "ws_session list"

definition new_WsServer :: "bool \<Rightarrow> ws_server" where
  "new_WsServer setup_ok = \<lparr>wv_stopped = False, wv_acceptor_open = setup_ok, wv_accept_pending = False,
     wv_sessions = [], wv_objs = []\<rparr>"

definition wv_expired :: "ws_server \<Rightarrow> nat \<Rightarrow> bool" where
  "wv_expired s i \<longleftrightarrow> wse_phase (wv_objs s ! i) = Ended"

definition do_accept :: "ws_server \<Rightarrow> ws_server" where
  "do_accept s = (if wv_stopped s then s else s\<lparr>wv_accept_pending := True\<rparr>)"

definition start_server :: "ws_server \<Rightarrow> ws_server" where
  "start_server s = do_accept s"

definition session_create :: ws_session where
  "session_create = \<lparr>wse_phase = TlsHandshake, wse_socket_open = True\<rparr>"

definition session_close :: "ws_session \<Rightarrow> ws_session" where
  "session_close e = e\<lparr>wse_socket_open := False\<rparr>"

definition stop_server :: "ws_server \<Rightarrow> ws_server" where
  "stop_server s =
     (let live = prune (wv_expired s) (wv_sessions s)
      in s\<lparr>wv_stopped := True, wv_acceptor_open := False,
           wv_objs := fold (\<lambda>i objs. objs[i := session_close (objs ! i)]) live (wv_objs s), wv_sessions := []\<rparr>)"

text \<open>The completion of \<^verbatim>\<open>async_accept\<close>; \<open>ec\<close> says that it has failed.\<close>

definition on_accept :: "bool \<Rightarrow> ws_server \<Rightarrow> ws_server" where
  "on_accept ec s =
     (let s = s\<lparr>wv_accept_pending := False\<rparr>
      in if ec then s
         else let live = prune (wv_expired s) (wv_sessions s)
              in if length live \<ge> kMaxSessions then do_accept (s\<lparr>wv_sessions := live\<rparr>)
                 else do_accept (s\<lparr>wv_sessions := live @ [length (wv_objs s)], wv_objs := wv_objs s @ [session_create]\<rparr>))"

definition session_count :: "ws_server \<Rightarrow> nat" where
  "session_count s = length (filter (\<lambda>i. \<not> wv_expired s i) (wv_sessions s))"

definition session_tls_done :: "bool \<Rightarrow> ws_session \<Rightarrow> ws_session" where
  "session_tls_done ec e = e\<lparr>wse_phase := (if ec then Ended else WsAccept)\<rparr>"

definition session_accept_done :: "bool \<Rightarrow> ws_session \<Rightarrow> ws_session" where
  "session_accept_done ec e = e\<lparr>wse_phase := (if ec then Ended else Reading)\<rparr>"

text \<open>The read handler: an error, of whichever kind, ends the session; a text or binary frame is
  passed to the message callback.\<close>

datatype session_read = ReadFailed | ReadFrame string bool

fun session_read_done :: "session_read \<Rightarrow> ws_session \<Rightarrow> (string \<times> bool) option \<times> ws_session" where
  "session_read_done ReadFailed e = (None, e\<lparr>wse_phase := Ended\<rparr>)"
| "session_read_done (ReadFrame dat is_binary) e = (Some (dat, is_binary), e)"

text \<open>Events: a completion is delivered only while its operation is pending.\<close>

datatype server_event =
  AcceptDone bool | SessionTls nat bool | SessionAccept nat bool | SessionRead nat session_read | StopServer

definition in_phase :: "session_phase \<Rightarrow> nat \<Rightarrow> ws_server \<Rightarrow> bool" where
  "in_phase ph i s \<longleftrightarrow> i < length (wv_objs s) \<and> wse_phase (wv_objs s ! i) = ph"

definition on_session :: "nat \<Rightarrow> (ws_session \<Rightarrow> ws_session) \<Rightarrow> ws_server \<Rightarrow> ws_server" where
  "on_session i f s = s\<lparr>wv_objs := (wv_objs s)[i := f (wv_objs s ! i)]\<rparr>"

fun server_step :: "server_event \<Rightarrow> ws_server \<Rightarrow> (string \<times> bool) option \<times> ws_server" where
  "server_step (AcceptDone ec) s =
     (None, if wv_accept_pending s \<and> (ec \<or> wv_acceptor_open s) then on_accept ec s else s)"
| "server_step (SessionTls i ec) s =
     (None, if in_phase TlsHandshake i s then on_session i (session_tls_done ec) s else s)"
| "server_step (SessionAccept i ec) s =
     (None, if in_phase WsAccept i s then on_session i (session_accept_done ec) s else s)"
| "server_step (SessionRead i r) s =
     (if in_phase Reading i s
      then (fst (session_read_done r (wv_objs s ! i)), on_session i (snd \<circ> session_read_done r) s) else (None, s))"
| "server_step StopServer s = (None, stop_server s)"

lemma fold_update_length [simp]:
  "length (fold (\<lambda>i objs. objs[i := f (objs ! i)]) is objs) = length objs"
  by (induction "is" arbitrary: objs) simp_all

lemma wv_expired_pending [simp]: "wv_expired (s\<lparr>wv_accept_pending := b\<rparr>) = wv_expired s"
  by (simp add: wv_expired_def [abs_def])

interpretation ws_register: session_register "\<lambda>e s. snd (server_step e s)" "wv_sessions :: ws_server \<Rightarrow> nat list" "\<lambda>s. length (wv_objs s)"
proof
  fix s :: ws_server and e assume "register_ok (length (wv_objs s)) (wv_sessions s)"
  note ok = register_ok_prune [OF this] register_ok_enter [OF this] this
  show "register_ok (length (wv_objs (snd (server_step e s)))) (wv_sessions (snd (server_step e s)))"
    by (cases e) (auto simp: on_accept_def do_accept_def on_session_def stop_server_def Let_def ok)
qed

section \<open>A failed accept\<close>

text \<open>An accept error is final: once no accept is pending no step of the server starts one.\<close>

lemma no_accept_step:
  "\<not> wv_accept_pending s \<Longrightarrow> \<not> wv_accept_pending (snd (server_step e s)) \<and>
     length (wv_objs (snd (server_step e s))) = length (wv_objs s)"
  by (cases e) (auto simp: on_session_def stop_server_def Let_def)

lemma no_accept_run:
  "\<not> wv_accept_pending s \<Longrightarrow> \<not> wv_accept_pending (fold (\<lambda>e. snd \<circ> server_step e) es s) \<and>
     length (wv_objs (fold (\<lambda>e. snd \<circ> server_step e) es s)) = length (wv_objs s)"
proof (induction es arbitrary: s)
  case (Cons e es)
  then show ?case using no_accept_step [OF Cons.prems, of e] by simp
qed simp

section \<open>Sessions of the signal server\<close>

definition kMaxOutbox :: nat where
  "kMaxOutbox = 64"

datatype session_task = PostSend string | PostClose

text \<open>\<open>sg_written\<close> lists the frames handed to \<^verbatim>\<open>async_write\<close>; \<open>sg_writing\<close> says that one is in flight. The frame in flight stays in
  front of the outbox, and \<^verbatim>\<open>async_write\<close> reads its buffer there: \<open>sg_dangling\<close> records that a full outbox has dropped it
  meanwhile. From then on the behaviour of the program is undefined, and nothing is claimed of such a session.\<close>

record signal_session =
  sg_phase :: session_phase
  sg_socket_open :: bool
  sg_posted :: "session_task list"
  sg_outbox :: "string list"
  sg_writing :: bool
  sg_written :: "string list"
  sg_dangling :: bool

definition signal_session_create :: signal_session where
  "signal_session_create = \<lparr>sg_phase = TlsHandshake, sg_socket_open = True, sg_posted = [], sg_outbox = [],
     sg_writing = False, sg_written = [], sg_dangling = False\<rparr>"

definition sg_alive :: "signal_session \<Rightarrow> bool" where
  "sg_alive g \<longleftrightarrow> sg_phase g \<noteq> Ended \<or> sg_posted g \<noteq> [] \<or> sg_writing g"

definition post_send :: "string \<Rightarrow> signal_session \<Rightarrow> signal_session" where
  "post_send msg g = g\<lparr>sg_posted := sg_posted g @ [PostSend msg]\<rparr>"

definition post_close :: "signal_session \<Rightarrow> signal_session" where
  "post_close g = g\<lparr>sg_posted := sg_posted g @ [PostClose]\<rparr>"

definition sg_do_write :: "signal_session \<Rightarrow> signal_session" where
  "sg_do_write g = g\<lparr>sg_writing := True, sg_written := sg_written g @ [hd (sg_outbox g)]\<rparr>"

text \<open>The closure of \<^verbatim>\<open>send\<close>. Dropping the front of a full outbox is harmless only while nothing is being written.\<close>

definition sg_send :: "string \<Rightarrow> signal_session \<Rightarrow> signal_session" where
  "sg_send msg g =
     (let g = (if length (sg_outbox g) \<ge> kMaxOutbox \<and> sg_writing g then g\<lparr>sg_dangling := True\<rparr> else g);
          g = g\<lparr>sg_outbox := push_if kMaxOutbox msg (sg_outbox g)\<rparr>
      in if \<not> sg_writing g then sg_do_write g else g)"

definition sg_on_write :: "bool \<Rightarrow> signal_session \<Rightarrow> signal_session" where
  "sg_on_write ec g =
     (if ec then g\<lparr>sg_writing := False\<rparr>
      else let g = g\<lparr>sg_outbox := tl (sg_outbox g)\<rparr>
           in if sg_outbox g \<noteq> [] then sg_do_write g else g\<lparr>sg_writing := False\<rparr>)"

definition sg_tls_done :: "bool \<Rightarrow> signal_session \<Rightarrow> signal_session" where
  "sg_tls_done ec g = g\<lparr>sg_phase := (if ec then Ended else WsAccept)\<rparr>"

definition sg_accept_done :: "bool \<Rightarrow> signal_session \<Rightarrow> signal_session" where
  "sg_accept_done ec g = g\<lparr>sg_phase := (if ec then Ended else Reading)\<rparr>"

definition sg_read_done :: "bool \<Rightarrow> signal_session \<Rightarrow> signal_session" where
  "sg_read_done ec g = (if ec then g\<lparr>sg_phase := Ended\<rparr> else g)"

text \<open>The session's strand runs the closure posted first.\<close>

definition sg_run_posted :: "signal_session \<Rightarrow> signal_session" where
  "sg_run_posted g =
     (case sg_posted g of [] \<Rightarrow> g
      | PostSend msg # rest \<Rightarrow> sg_send msg (g\<lparr>sg_posted := rest\<rparr>)
      | PostClose # rest \<Rightarrow> g\<lparr>sg_posted := rest, sg_socket_open := False\<rparr>)"

datatype session_event = SgTls bool | SgAccept bool | SgRead bool | SgWrite bool | SgRun | SgPostSend string | SgPostClose

fun session_step :: "session_event \<Rightarrow> signal_session \<Rightarrow> signal_session" where
  "session_step (SgTls ec) g = (if sg_phase g = TlsHandshake then sg_tls_done ec g else g)"
| "session_step (SgAccept ec) g = (if sg_phase g = WsAccept then sg_accept_done ec g else g)"
| "session_step (SgRead ec) g = (if sg_phase g = Reading then sg_read_done ec g else g)"
| "session_step (SgWrite ec) g = (if sg_writing g then sg_on_write ec g else g)"
| "session_step SgRun g = sg_run_posted g"
| "session_step (SgPostSend msg) g = post_send msg g"
| "session_step SgPostClose g = post_close g"

section \<open>The signal server\<close>

datatype server_task = TaskBroadcast string | TaskStop

datatype server_error = Bad_weak_ptr

text \<open>\<open>sv_shared\<close> says whether a \<^verbatim>\<open>shared_ptr\<close> owns the server, without which \<^verbatim>\<open>shared_from_this\<close> throws. The class is written for shared
  ownership, but \<^verbatim>\<open>main\<close> of the brain owns its server by a \<^verbatim>\<open>unique_ptr\<close>, so in the program it is false and \<^verbatim>\<open>start\<close> throws
  (\<open>signal_port_stops_brain\<close> of theory \<^verbatim>\<open>Brain\<close>); no property is stated for a shared server.
  \<open>sv_tasks\<close> are the closures waiting on the server's strand.\<close>

record signal_server =
  sv_shared :: bool
  sv_acceptor_open :: bool
  sv_stopped :: bool
  sv_accept_pending :: bool
  sv_tasks :: "server_task list"
  sv_sessions :: "nat list"
  sv_objs :: "signal_session list"
  live_count :: u64

definition new_SignalServer :: "bool \<Rightarrow> bool \<Rightarrow> signal_server" where
  "new_SignalServer shared setup_ok = \<lparr>sv_shared = shared, sv_acceptor_open = setup_ok, sv_stopped = False,
     sv_accept_pending = False, sv_tasks = [], sv_sessions = [], sv_objs = [], live_count = 0\<rparr>"

definition sv_do_accept :: "signal_server \<Rightarrow> server_error + signal_server" where
  "sv_do_accept s =
     (if sv_stopped s then Inr s else if \<not> sv_shared s then Inl Bad_weak_ptr else Inr (s\<lparr>sv_accept_pending := True\<rparr>))"

definition sv_start :: "signal_server \<Rightarrow> server_error + signal_server" where
  "sv_start s = sv_do_accept s"

definition sv_stop :: "signal_server \<Rightarrow> server_error + signal_server" where
  "sv_stop s =
     (let s = s\<lparr>sv_stopped := True, sv_acceptor_open := False\<rparr>
      in if \<not> sv_shared s then Inl Bad_weak_ptr else Inr (s\<lparr>sv_tasks := sv_tasks s @ [TaskStop]\<rparr>))"

definition broadcast :: "string \<Rightarrow> signal_server \<Rightarrow> server_error + signal_server" where
  "broadcast text s =
     (if \<not> sv_shared s then Inl Bad_weak_ptr else Inr (s\<lparr>sv_tasks := sv_tasks s @ [TaskBroadcast text]\<rparr>))"

definition sv_expired :: "signal_server \<Rightarrow> nat \<Rightarrow> bool" where
  "sv_expired s i \<longleftrightarrow> \<not> sg_alive (sv_objs s ! i)"

definition to_sessions :: "(signal_session \<Rightarrow> signal_session) \<Rightarrow> nat list \<Rightarrow> signal_session list \<Rightarrow> signal_session list" where
  "to_sessions f is objs = fold (\<lambda>i objs. objs[i := f (objs ! i)]) is objs"

definition run_stop :: "signal_server \<Rightarrow> signal_server" where
  "run_stop s =
     (let live = prune (sv_expired s) (sv_sessions s)
      in s\<lparr>sv_objs := to_sessions post_close live (sv_objs s), sv_sessions := [], live_count := 0\<rparr>)"

definition run_broadcast :: "string \<Rightarrow> signal_server \<Rightarrow> signal_server" where
  "run_broadcast text s =
     (let live = prune (sv_expired s) (sv_sessions s);
          pruned = length (sv_sessions s) - length live
      in s\<lparr>sv_sessions := live, live_count := (if pruned > 0 then live_count s - word_of_nat pruned else live_count s),
           sv_objs := to_sessions (post_send text) live (sv_objs s)\<rparr>)"

definition sv_run_task :: "signal_server \<Rightarrow> signal_server" where
  "sv_run_task s =
     (case sv_tasks s of [] \<Rightarrow> s
      | TaskBroadcast text # rest \<Rightarrow> run_broadcast text (s\<lparr>sv_tasks := rest\<rparr>)
      | TaskStop # rest \<Rightarrow> run_stop (s\<lparr>sv_tasks := rest\<rparr>))"

text \<open>The accept handler; it runs only on a server that a \<^verbatim>\<open>shared_ptr\<close> owns, which armed it.\<close>

definition sv_on_accept :: "bool \<Rightarrow> signal_server \<Rightarrow> server_error + signal_server" where
  "sv_on_accept ec s =
     (let s = s\<lparr>sv_accept_pending := False\<rparr>
      in if ec then Inr s
         else let live = prune (sv_expired s) (sv_sessions s)
              in if length live \<ge> kMaxSessions then sv_do_accept (s\<lparr>sv_sessions := live\<rparr>)
                 else sv_do_accept (s\<lparr>sv_sessions := live @ [length (sv_objs s)],
                        sv_objs := sv_objs s @ [signal_session_create], live_count := live_count s + 1\<rparr>))"

datatype signal_event = SvAccept bool | SvSession nat session_event | SvRun | SvBroadcast string | SvStop

text \<open>A handler of \<^verbatim>\<open>SignalSession\<close> or a closure posted to it; \<^verbatim>\<open>SgPostSend\<close> and \<^verbatim>\<open>SgPostClose\<close> come from the server only.\<close>

fun internal :: "session_event \<Rightarrow> bool" where
  "internal (SgPostSend _) = False"
| "internal SgPostClose = False"
| "internal _ = True"

definition keep_or :: "signal_server \<Rightarrow> server_error + signal_server \<Rightarrow> signal_server" where
  "keep_or s r = (case r of Inl _ \<Rightarrow> s | Inr s' \<Rightarrow> s')"

fun signal_step :: "signal_event \<Rightarrow> signal_server \<Rightarrow> signal_server" where
  "signal_step (SvAccept ec) s =
     (if sv_accept_pending s \<and> (ec \<or> sv_acceptor_open s) then keep_or s (sv_on_accept ec s) else s)"
| "signal_step (SvSession i e) s =
     (if i < length (sv_objs s) \<and> internal e then s\<lparr>sv_objs := (sv_objs s)[i := session_step e (sv_objs s ! i)]\<rparr> else s)"
| "signal_step SvRun s = sv_run_task s"
| "signal_step (SvBroadcast text) s = keep_or s (broadcast text s)"
| "signal_step SvStop s = keep_or s (sv_stop s)"

lemma to_sessions_length [simp]: "length (to_sessions f is objs) = length objs"
  by (simp add: to_sessions_def)

lemma sv_expired_frame [simp]:
  "sv_expired (s\<lparr>sv_accept_pending := b\<rparr>) = sv_expired s" "sv_expired (s\<lparr>sv_tasks := ts\<rparr>) = sv_expired s"
  by (simp_all add: sv_expired_def [abs_def])

lemmas signal_defs = sv_run_task_def run_broadcast_def run_stop_def sv_on_accept_def sv_do_accept_def keep_or_def
  broadcast_def sv_stop_def Let_def

interpretation signal_register: session_register signal_step "sv_sessions :: signal_server \<Rightarrow> nat list" "\<lambda>s. length (sv_objs s)"
proof
  fix s :: signal_server and e assume "register_ok (length (sv_objs s)) (sv_sessions s)"
  note ok = register_ok_prune [OF this] register_ok_enter [OF this] this
  show "register_ok (length (sv_objs (signal_step e s))) (sv_sessions (signal_step e s))"
    by (cases e) (auto simp: signal_defs ok split: list.split server_task.split)
qed

section \<open>Frames leave a session in order\<close>

text \<open>What a session has written and will still write, in order: the frames handed to the socket, the
  outbox behind the frame in flight, and the frames posted to the session.\<close>

fun posted_texts :: "session_task list \<Rightarrow> string list" where
  "posted_texts [] = []"
| "posted_texts (PostSend t # ts) = t # posted_texts ts"
| "posted_texts (PostClose # ts) = posted_texts ts"

lemma posted_texts_append [simp]: "posted_texts (ps @ qs) = posted_texts ps @ posted_texts qs"
  by (induction ps rule: posted_texts.induct) simp_all

definition pipeline :: "signal_session \<Rightarrow> string list" where
  "pipeline g = sg_written g @ (if sg_writing g then tl (sg_outbox g) else sg_outbox g) @ posted_texts (sg_posted g)"

fun sends :: "session_event list \<Rightarrow> string list" where
  "sends [] = []"
| "sends (SgPostSend t # es) = t # sends es"
| "sends (_ # es) = sends es"

definition fifo :: "signal_session \<Rightarrow> string list \<Rightarrow> bool" where
  "fifo g texts \<longleftrightarrow> sg_dangling g \<or> pipeline g = texts \<and> (sg_writing g \<longleftrightarrow> sg_outbox g \<noteq> [])"

lemma fifo_send:
  assumes "fifo g texts" and "sg_posted g = PostSend m # rest"
  shows "fifo (sg_send m (g\<lparr>sg_posted := rest\<rparr>)) texts"
  using assms
  by (cases "sg_outbox g") (auto simp: fifo_def pipeline_def sg_send_def sg_do_write_def push_if_def kMaxOutbox_def Let_def)

lemma fifo_step:
  assumes "fifo g texts" and "e \<noteq> SgWrite True"
  shows "fifo (session_step e g) (texts @ sends [e])"
proof (cases e)
  case SgRun
  show ?thesis
  proof (cases "sg_posted g")
    case Nil
    then show ?thesis using assms(1) SgRun by (simp add: sg_run_posted_def)
  next
    case (Cons t rest)
    show ?thesis
    proof (cases t)
      case (PostSend m)
      then show ?thesis using fifo_send [OF assms(1), of m rest] SgRun Cons by (simp add: sg_run_posted_def)
    next
      case PostClose
      then show ?thesis using assms(1) SgRun Cons by (auto simp: sg_run_posted_def fifo_def pipeline_def)
    qed
  qed
next
  case (SgWrite ec)
  then show ?thesis
    using assms by (cases "sg_outbox g") (auto simp: fifo_def pipeline_def sg_on_write_def sg_do_write_def Let_def neq_Nil_conv)
qed (use assms in \<open>auto simp: fifo_def pipeline_def post_send_def post_close_def sg_tls_done_def sg_accept_done_def sg_read_done_def\<close>)

lemma sends_Cons: "sends (e # es) = sends [e] @ sends es"
  by (cases e) simp_all

text \<open>As long as no write fails and no frame in flight is dropped, a session loses and reorders nothing.\<close>

lemma session_sends_in_order:
  assumes "SgWrite True \<notin> set es" and "\<not> sg_dangling (fold session_step es signal_session_create)"
  shows "pipeline (fold session_step es signal_session_create) = sends es"
proof -
  have "fifo (fold session_step es g) (texts @ sends es)" if "fifo g texts" for g texts
    using that assms(1)
  proof (induction es arbitrary: g texts)
    case (Cons e es)
    from Cons.IH [OF fifo_step [OF Cons.prems(1)], of e] Cons.prems(2) show ?case by (auto simp: sends_Cons [of e es])
  qed simp
  moreover have "fifo signal_session_create []" by (simp add: fifo_def pipeline_def signal_session_create_def)
  ultimately have "fifo (fold session_step es signal_session_create) ([] @ sends es)" by blast
  then show ?thesis using assms(2) by (simp add: fifo_def)
qed

lemma full_session_outbox_dangles:
  "sg_posted g = PostSend m # rest \<Longrightarrow> length (sg_outbox g) = kMaxOutbox \<Longrightarrow> sg_writing g \<Longrightarrow> sg_dangling (session_step SgRun g)"
  by (simp add: sg_run_posted_def sg_send_def Let_def)

text \<open>One failed accept closes the brain to new feeds. When an accept of the event server completes
  with an error, no later event, in whatever number and order, makes the server accept again: the
  list of sessions ever created stays as it is.\<close>

theorem failed_accept_is_final:
  assumes "wv_accept_pending s"
  shows "\<not> wv_accept_pending (fold (\<lambda>e. snd \<circ> server_step e) es (snd (server_step (AcceptDone True) s))) \<and>
    length (wv_objs (fold (\<lambda>e. snd \<circ> server_step e) es (snd (server_step (AcceptDone True) s)))) = length (wv_objs s)"
proof -
  have "\<not> wv_accept_pending (snd (server_step (AcceptDone True) s))"
    "length (wv_objs (snd (server_step (AcceptDone True) s))) = length (wv_objs s)"
    using assms by (simp_all add: on_accept_def Let_def)
  then show ?thesis using no_accept_run [of "snd (server_step (AcceptDone True) s)" es] by simp
qed

theorem failed_accept_is_final_witness:
  "length (wv_objs (fold (\<lambda>e. snd \<circ> server_step e) [AcceptDone False, AcceptDone False]
     (snd (server_step (AcceptDone True) (start_server (new_WsServer True)))))) = 0"
  using failed_accept_is_final [of "start_server (new_WsServer True)" "[AcceptDone False, AcceptDone False]"]
  by (simp add: start_server_def do_accept_def new_WsServer_def)

text \<open>The counter for the health endpoint drifts: the accept handler prunes expired sessions without
  taking them off the counter.\<close>

lemma accept_overcounts:
  assumes "sv_accept_pending s" and "sv_acceptor_open s" and "sv_shared s" and "\<not> sv_stopped s"
    and "length (prune (sv_expired s) (sv_sessions s)) < kMaxSessions"
  shows "live_count (signal_step (SvAccept False) s) = live_count s + 1"
    and "length (sv_sessions (signal_step (SvAccept False) s)) = length (prune (sv_expired s) (sv_sessions s)) + 1"
  using assms by (simp_all add: sv_on_accept_def sv_do_accept_def keep_or_def Let_def not_le)

end
