(* ===== verification/BrainCmdLine.thy ===== *)
theory BrainCmdLine
  imports OrderBookUtils Double
begin

text \<open>
  The command line of the brain, \<^verbatim>\<open>brain/include/brain/BrainCmdLine.hpp\<close>: the parser of per-venue fees
  and the options of the process. \<^verbatim>\<open>boost::program_options\<close> is not part of the repository: the values it
  has stored from the command line and the configuration file, with the declared defaults applied,
  are the record \<open>brain_vm\<close>, and \<open>None\<close> is its error exception or a configuration file that cannot be
  opened. Of the standard library, \<^verbatim>\<open>std::getline\<close> with a delimiter and \<^verbatim>\<open>std::stod\<close> are written out.
\<close>

section \<open>Reading a floating point number\<close>

text \<open>\<^verbatim>\<open>std::stod\<close>: leading white space, a sign, then \<^verbatim>\<open>inf\<close>, \<^verbatim>\<open>nan\<close>, a hexadecimal or a decimal number;
  what follows is ignored. \<open>None\<close> stands for both of its exceptions: no conversion, or a result out of
  range (overflow, or an inexact result below the normal range).\<close>

definition is_hex :: "char \<Rightarrow> bool" where
  "is_hex c \<longleftrightarrow> is_digit c \<or> 65 \<le> (of_char c :: nat) \<and> (of_char c :: nat) \<le> 70 \<or> 97 \<le> (of_char c :: nat) \<and> (of_char c :: nat) \<le> 102"

definition hex_val :: "char \<Rightarrow> int" where
  "hex_val c = (if is_digit c then digit_val c else if (of_char c :: nat) \<le> 70 then of_char c - 55 else of_char c - 87)"

definition lower :: "char \<Rightarrow> char" where
  "lower c = (if 65 \<le> (of_char c :: nat) \<and> (of_char c :: nat) \<le> 90 then char_of ((of_char c :: nat) + 32) else c)"

definition mantissa :: "(char \<Rightarrow> bool) \<Rightarrow> (char \<Rightarrow> int) \<Rightarrow> int \<Rightarrow> string \<Rightarrow> (rat \<times> string) option" where
  "mantissa dig val base cs =
     (let ip = takeWhile dig cs;
          r = dropWhile dig cs;
          fp = (case r of [] \<Rightarrow> [] | c # r1 \<Rightarrow> if c = CHR ''.'' then takeWhile dig r1 else []);
          rest = (case r of [] \<Rightarrow> [] | c # r1 \<Rightarrow> if c = CHR ''.'' then dropWhile dig r1 else r)
      in if ip = [] \<and> fp = [] then None
         else Some (of_int (foldl (\<lambda>n c. n * base + val c) 0 (ip @ fp)) / of_int (base ^ length fp), rest))"

definition exponent :: "char \<Rightarrow> string \<Rightarrow> int" where
  "exponent mark cs =
     (case cs of [] \<Rightarrow> 0
      | c # r \<Rightarrow>
          (if lower c \<noteq> mark then 0
           else case r of [] \<Rightarrow> 0
             | s # r1 \<Rightarrow> (if s = CHR ''-'' then - decval (takeWhile is_digit r1)
                          else if s = CHR ''+'' then decval (takeWhile is_digit r1)
                          else decval (takeWhile is_digit r))))"

definition pow_scale :: "rat \<Rightarrow> int \<Rightarrow> rat" where
  "pow_scale b e = (if e \<ge> 0 then b ^ nat e else 1 / b ^ nat (- e))"

definition to_double :: "rat \<Rightarrow> double option" where
  "to_double x =
     (case rnd x of Fin y \<Rightarrow> if \<bar>y\<bar> < pow2 (- 1022) \<and> y \<noteq> x then None else Some (Fin y) | _ \<Rightarrow> None)"

definition magnitude :: "string \<Rightarrow> rat option" where
  "magnitude cs =
     (if take 2 (map lower cs) = ''0x'' \<and> mantissa is_hex hex_val 16 (drop 2 cs) \<noteq> None then
        map_option (\<lambda>(m, r). m * pow_scale 2 (exponent CHR ''p'' r)) (mantissa is_hex hex_val 16 (drop 2 cs))
      else map_option (\<lambda>(m, r). m * pow_scale 10 (exponent CHR ''e'' r)) (mantissa is_digit digit_val 10 cs))"

definition stod :: "string \<Rightarrow> double option" where
  "stod s =
     (let s1 = dropWhile is_space s;
          neg = (s1 \<noteq> [] \<and> hd s1 = CHR ''-'');
          cs = (if s1 \<noteq> [] \<and> (hd s1 = CHR ''-'' \<or> hd s1 = CHR ''+'') then tl s1 else s1);
          l = map lower (take 3 cs)
      in if l = ''inf'' then Some (if neg then NInf else PInf)
         else if l = ''nan'' then Some NaN
         else case magnitude cs of Some m \<Rightarrow> to_double (if neg then - m else m) | _ \<Rightarrow> None)"

section \<open>Venue fees\<close>

definition trim_ascii_whitespace :: "string \<Rightarrow> string" where
  "trim_ascii_whitespace s = rev (dropWhile is_space (rev (dropWhile is_space s)))"

text \<open>The loop over \<^verbatim>\<open>std::getline(ss, token, ',')\<close>: a last token is read only when characters are left.\<close>

function getline_tokens :: "char \<Rightarrow> string \<Rightarrow> string list" where
  "getline_tokens d s =
     (if s = [] then []
      else takeWhile (\<lambda>c. c \<noteq> d) s # getline_tokens d (drop (Suc (length (takeWhile (\<lambda>c. c \<noteq> d) s))) s))"
  by pat_completeness auto

termination getline_tokens
  by (relation "measure (\<lambda>(d, s). length s)") auto

declare getline_tokens.simps [simp del]

definition fee_token :: "string \<Rightarrow> (string \<rightharpoonup> double) \<Rightarrow> (string \<rightharpoonup> double)" where
  "fee_token token result =
     (let colon = length (takeWhile (\<lambda>c. c \<noteq> CHR '':'') token)
      in if colon = length token \<or> colon = 0 \<or> colon + 1 = length token then result
         else let v = trim_ascii_whitespace (take colon token);
                  fee_text = trim_ascii_whitespace (drop (colon + 1) token)
              in if v = [] \<or> fee_text = [] then result
                 else case stod fee_text of None \<Rightarrow> result
                   | Some fee \<Rightarrow> if fee < Fin 0 then result else result(v \<mapsto> fee))"

definition parse_venue_fees :: "string \<Rightarrow> (string \<rightharpoonup> double)" where
  "parse_venue_fees s = fold fee_token (getline_tokens CHR '','' s) Map.empty"

section \<open>Options\<close>

record brain_vm =
  bv_help :: bool
  bv_bind :: string
  bv_port :: "16 word"
  bv_certfile :: "string option"
  bv_keyfile :: "string option"
  bv_ca_certfile :: "string option"
  bv_output :: "string option"
  bv_min_spread_bps :: double
  bv_max_spread_bps :: double
  bv_rate_limit_ms :: i64
  bv_max_age_ms :: i64
  bv_max_price_deviation_pct :: double
  bv_output_max_mb :: u64
  bv_watchdog_no_cross_sec :: i64
  bv_depth :: u64
  bv_log_level :: string
  bv_health_port :: "16 word"
  bv_standby :: bool
  bv_signal_port :: "16 word"
  bv_venue_fees :: string

definition brain_defaults :: brain_vm where
  "brain_defaults = \<lparr>bv_help = False, bv_bind = ''0.0.0.0'', bv_port = 8443, bv_certfile = None, bv_keyfile = None,
     bv_ca_certfile = None, bv_output = None, bv_min_spread_bps = Fin 0, bv_max_spread_bps = Fin 0,
     bv_rate_limit_ms = 1000, bv_max_age_ms = 5000, bv_max_price_deviation_pct = Fin 0, bv_output_max_mb = 0,
     bv_watchdog_no_cross_sec = 0, bv_depth = 50, bv_log_level = ''info'', bv_health_port = 0, bv_standby = False,
     bv_signal_port = 0, bv_venue_fees = []\<rparr>"

record BrainOptions =
  bo_bind :: string
  bo_port :: "16 word"
  bo_certfile :: string
  bo_keyfile :: string
  bo_ca_certfile :: string
  bo_output :: string
  bo_log_level :: string
  bo_min_spread_bps :: double
  bo_max_spread_bps :: double
  bo_rate_limit_ms :: i64
  bo_max_age_ms :: i64
  bo_max_price_deviation_pct :: double
  bo_output_max_mb :: u64
  bo_watchdog_no_cross_sec :: i64
  bo_depth :: u64
  bo_health_port :: "16 word"
  bo_standby :: bool
  bo_signal_port :: "16 word"
  bo_venue_fee_bps :: "string \<rightharpoonup> double"
  bo_show_help :: bool

definition default_BrainOptions :: BrainOptions where
  "default_BrainOptions = \<lparr>bo_bind = ''0.0.0.0'', bo_port = 8443, bo_certfile = [], bo_keyfile = [], bo_ca_certfile = [],
     bo_output = [], bo_log_level = ''info'', bo_min_spread_bps = Fin 0, bo_max_spread_bps = Fin 0,
     bo_rate_limit_ms = 1000, bo_max_age_ms = 5000, bo_max_price_deviation_pct = Fin 0, bo_output_max_mb = 0,
     bo_watchdog_no_cross_sec = 0, bo_depth = 50, bo_health_port = 0, bo_standby = False, bo_signal_port = 0,
     bo_venue_fee_bps = Map.empty, bo_show_help = False\<rparr>"

definition or_keep :: "'a option \<Rightarrow> 'a \<Rightarrow> 'a" where
  "or_keep v d = (case v of None \<Rightarrow> d | Some x \<Rightarrow> x)"

definition assign_brain_options :: "brain_vm \<Rightarrow> BrainOptions \<Rightarrow> BrainOptions" where
  "assign_brain_options vm out = out\<lparr>
      bo_bind := bv_bind vm, bo_port := bv_port vm, bo_min_spread_bps := bv_min_spread_bps vm,
      bo_max_spread_bps := bv_max_spread_bps vm, bo_rate_limit_ms := bv_rate_limit_ms vm,
      bo_max_age_ms := bv_max_age_ms vm, bo_max_price_deviation_pct := bv_max_price_deviation_pct vm,
      bo_output_max_mb := bv_output_max_mb vm, bo_watchdog_no_cross_sec := bv_watchdog_no_cross_sec vm,
      bo_depth := bv_depth vm, bo_log_level := bv_log_level vm, bo_health_port := bv_health_port vm,
      bo_standby := bv_standby vm, bo_signal_port := bv_signal_port vm,
      bo_venue_fee_bps := parse_venue_fees (bv_venue_fees vm),
      bo_certfile := or_keep (bv_certfile vm) (bo_certfile out), bo_keyfile := or_keep (bv_keyfile vm) (bo_keyfile out),
      bo_ca_certfile := or_keep (bv_ca_certfile vm) (bo_ca_certfile out), bo_output := or_keep (bv_output vm) (bo_output out)\<rparr>"

definition parse_brain_cmdline :: "brain_vm option \<Rightarrow> BrainOptions \<Rightarrow> BrainOptions option" where
  "parse_brain_cmdline parsed out =
     (case parsed of None \<Rightarrow> None
      | Some vm \<Rightarrow>
          (if bv_help vm then Some (out\<lparr>bo_show_help := True\<rparr>)
           else let o1 = assign_brain_options vm out
                in if bo_certfile o1 = [] \<or> bo_keyfile o1 = [] then None else Some o1))"

section \<open>Fees are read back\<close>

lemma stod_nat_str:
  assumes "int n < 2 ^ 53"
  shows "stod (nat_str n) = Some (Fin (of_nat n))"
proof -
  let ?s = "nat_str n"
  note d = nat_str_digits [of n]
  obtain c cs where s: "?s = c # cs" using d by (cases ?s) auto
  have dig: "\<forall>x \<in> set ?s. is_digit x" and c: "is_digit c" using d by (auto simp: list_all_iff s)
  have low: "lower x = x \<and> x \<noteq> CHR ''x'' \<and> x \<noteq> CHR ''i'' \<and> x \<noteq> CHR ''n''" if "is_digit x" for x
    using that by (auto simp: lower_def is_digit_def)
  have mant: "mantissa is_digit digit_val 10 ?s = Some (of_nat n, [])"
  proof -
    have "takeWhile is_digit ?s = ?s" "dropWhile is_digit ?s = []" using dig by (simp_all add: takeWhile_eq_all_conv dropWhile_eq_Nil_conv)
    moreover have "foldl (\<lambda>n c. n * 10 + digit_val c) 0 ?s = int n" using d by (simp add: decval_def)
    ultimately show ?thesis by (simp add: mantissa_def s)
  qed
  have "take 2 (map lower ?s) \<noteq> ''0x''"
    using dig low by (cases cs) (auto simp: s)
  then have "magnitude ?s = Some (of_nat n)" by (simp add: magnitude_def mant exponent_def pow_scale_def)
  moreover have "rnd (of_nat n) = Fin (of_nat n)"
    using of_i64_exact [of "int n"] assms by (simp add: of_i64_def)
  moreover have "dropWhile is_space ?s = ?s" "c \<noteq> CHR ''-''" "c \<noteq> CHR ''+''"
    using digit_not_space [OF c] by (simp_all add: s)
  moreover have "map lower (take 3 ?s) \<noteq> ''inf''" "map lower (take 3 ?s) \<noteq> ''nan''"
    using low [OF c] by (auto simp: s)
  ultimately show ?thesis by (simp add: stod_def to_double_def Let_def s)
qed

lemma takeWhile_not: "d \<notin> set t \<Longrightarrow> takeWhile (\<lambda>c. c \<noteq> d) t = t" "d \<notin> set t \<Longrightarrow> takeWhile (\<lambda>c. c \<noteq> d) (t @ d # s) = t"
  by (induction t) auto

lemma getline_tokens_sep:
  assumes "d \<notin> set t"
  shows "getline_tokens d (t @ d # s) = t # getline_tokens d s"
proof -
  define u where "u = t @ d # s"
  have "takeWhile (\<lambda>c. c \<noteq> d) u = t" "u \<noteq> []" "drop (Suc (length t)) u = s"
    unfolding u_def using takeWhile_not(2) [OF assms] by simp_all
  then have "getline_tokens d u = t # getline_tokens d s" by (simp add: getline_tokens.simps [of d u])
  then show ?thesis by (simp add: u_def)
qed

lemma getline_tokens_last:
  assumes "d \<notin> set t" and "t \<noteq> []"
  shows "getline_tokens d t = [t]"
proof -
  note tw = takeWhile_not(1) [OF assms(1)]
  have "getline_tokens d t = t # getline_tokens d (drop (Suc (length t)) t)"
    using assms(2) getline_tokens.simps [of d t] unfolding tw by simp
  then show ?thesis by (simp add: getline_tokens.simps [of d "[]"])
qed

definition name_ok :: "string \<Rightarrow> bool" where
  "name_ok v \<longleftrightarrow> v \<noteq> [] \<and> \<not> is_space (hd v) \<and> \<not> is_space (last v) \<and> CHR '':'' \<notin> set v \<and> CHR '','' \<notin> set v"

definition fee_entry :: "string \<times> nat \<Rightarrow> string" where
  "fee_entry e = fst e @ CHR '':'' # nat_str (snd e)"

fun fee_list :: "(string \<times> nat) list \<Rightarrow> string" where
  "fee_list [] = []"
| "fee_list [e] = fee_entry e"
| "fee_list (e # es) = fee_entry e @ CHR '','' # fee_list es"

lemma trim_id: "v \<noteq> [] \<Longrightarrow> \<not> is_space (hd v) \<Longrightarrow> \<not> is_space (last v) \<Longrightarrow> trim_ascii_whitespace v = v"
proof -
  assume v: "v \<noteq> []" "\<not> is_space (hd v)" "\<not> is_space (last v)"
  then have "dropWhile is_space v = v" by (cases v) auto
  moreover have "dropWhile is_space (rev v) = rev v" using v by (cases v rule: rev_cases) auto
  ultimately show ?thesis by (simp add: trim_ascii_whitespace_def)
qed

lemma fee_token_entry:
  assumes "name_ok v" and "int n < 2 ^ 53"
  shows "fee_token (fee_entry (v, n)) r = r(v \<mapsto> Fin (of_nat n))"
proof -
  note d = nat_str_digits [of n]
  have sp: "\<not> is_space (hd (nat_str n))" "\<not> is_space (last (nat_str n))"
    using d digit_not_space by (auto simp: list_all_iff)
  have "takeWhile (\<lambda>c. c \<noteq> CHR '':'') (v @ CHR '':'' # nat_str n) = v"
    using assms(1) by (intro takeWhile_not) (simp add: name_ok_def)
  moreover have "trim_ascii_whitespace v = v" using assms(1) by (simp add: trim_id name_ok_def)
  moreover have "trim_ascii_whitespace (nat_str n) = nat_str n" using d sp by (simp add: trim_id)
  moreover have "\<not> Fin (of_nat n) < Fin 0" by (simp add: double_ops)
  ultimately show ?thesis
    using d assms stod_nat_str [OF assms(2)] by (simp add: fee_token_def fee_entry_def name_ok_def Let_def)
qed

lemma entry_no_comma: "name_ok v \<Longrightarrow> CHR '','' \<notin> set (fee_entry (v, n)) \<and> fee_entry (v, n) \<noteq> []"
  using nat_str_digits [of n] by (auto simp: fee_entry_def name_ok_def list_all_iff is_digit_def)


text \<open>The fees given on the command line are the fees the brain uses. The text \<^verbatim>\<open>venue:fee,venue:fee,...\<close>
  for any list of venue names (without comma, colon or outer white space) and whole fees up to
  \<open>2 ^ 53\<close> basis points is read back as exactly that assignment, the last entry of a venue winning.\<close>

theorem venue_fees_roundtrip:
  assumes "list_all (\<lambda>(v, n). name_ok v \<and> int n < 2 ^ 53) fees"
  shows "parse_venue_fees (fee_list fees) = map_of (rev (map (\<lambda>(v, n). (v, Fin (of_nat n))) fees))"
proof -
  have "getline_tokens CHR '','' (fee_list fees) = map fee_entry fees"
    using assms
  proof (induction fees rule: fee_list.induct)
    case (2 e)
    then show ?case using entry_no_comma [of "fst e" "snd e"] by (auto intro: getline_tokens_last)
  next
    case (3 e e2 es)
    then show ?case using entry_no_comma [of "fst e" "snd e"] by (auto simp: getline_tokens_sep)
  qed (simp add: getline_tokens.simps)
  moreover have "fold fee_token (map fee_entry fees) r = r ++ map_of (rev (map (\<lambda>(v, n). (v, Fin (of_nat n))) fees))" for r
    using assms
  proof (induction fees arbitrary: r)
    case (Cons e es)
    obtain v n where e: "e = (v, n)" by (cases e)
    with Cons.prems have "fee_token (fee_entry e) r = r(v \<mapsto> Fin (of_nat n))" by (simp add: fee_token_entry)
    moreover have "fold fee_token (map fee_entry es) (r(v \<mapsto> Fin (of_nat n))) =
        r(v \<mapsto> Fin (of_nat n)) ++ map_of (rev (map (\<lambda>(v, n). (v, Fin (of_nat n))) es))"
      using Cons by simp
    ultimately have "fold fee_token (map fee_entry (e # es)) r =
        r(v \<mapsto> Fin (of_nat n)) ++ map_of (rev (map (\<lambda>(v, n). (v, Fin (of_nat n))) es))" by simp
    then show ?case by (simp add: e map_add_def fun_eq_iff split: option.split)
  qed simp
  ultimately show ?thesis by (simp add: parse_venue_fees_def)
qed

theorem venue_fees_roundtrip_witness:
  "parse_venue_fees ''binance:10,okx:8'' = [''binance'' \<mapsto> Fin 10, ''okx'' \<mapsto> Fin 8]"
proof -
  have "fee_list [(''binance'', 10), (''okx'', 8)] = ''binance:10,okx:8''"
    by (simp add: fee_entry_def nat_str.simps) code_simp
  then show ?thesis
    using venue_fees_roundtrip [of "[(''binance'', 10), (''okx'', 8)]"]
    by (simp add: name_ok_def is_space_def fun_upd_twist)
qed

text \<open>A fee given as \<^verbatim>\<open>nan\<close> passes the sign test, so the map can hold it.\<close>

lemma nan_fee_accepted: "parse_venue_fees ''okx:nan'' = [''okx'' \<mapsto> NaN]"
  by (simp add: parse_venue_fees_def getline_tokens.simps fee_token_def trim_ascii_whitespace_def is_space_def
      stod_def lower_def double_ops)

end
