(* ===== verification/Brain.thy ===== *)
theory Brain
  imports ArbDetector BrainServers BrainCmdLine
begin

text \<open>
  The brain process, \<^verbatim>\<open>brain/app/brain.cpp\<close>. Its state is the record \<open>brain_proc\<close>: the unified book and
  the detector, which only the scan thread touches, the queue of decoded events between the I/O
  threads and the scan thread, the health snapshot, and the two servers. \<open>brain_main\<close> is the set-up of
  \<^verbatim>\<open>main\<close> up to \<^verbatim>\<open>ioc.run()\<close>; after that the process moves by \<open>brain_step\<close>, one event of an I/O thread, one
  round of the scan thread, one expiry of the watchdog, or a signal of the operating system.
  Certificates, addresses and ports are arguments saying whether the system call succeeds.
  Products of command-line milliseconds with a million are computed on integers: the code's 64-bit
  products do not overflow on sensible options.
\<close>

section \<open>Health\<close>

record VenueSnap =
  vs_venue_name :: string
  vs_symbol :: string
  vs_state :: string
  vs_feed_healthy :: bool
  vs_ts_book_ns :: i64

record HealthSnapshot =
  hs_synced :: nat
  hs_total :: nat
  hs_last_cross_ns :: i64
  hs_latency :: Percentiles
  hs_standby :: bool
  hs_venues :: "VenueSnap list"

definition default_HealthSnapshot :: HealthSnapshot where
  "default_HealthSnapshot = \<lparr>hs_synced = 0, hs_total = 0, hs_last_cross_ns = 0,
     hs_latency = \<lparr>p50_us = 0, p95_us = 0, p99_us = 0, p_n = 0\<rparr>, hs_standby = False, hs_venues = []\<rparr>"

definition venue_snap :: "venue_book \<Rightarrow> VenueSnap" where
  "venue_snap vb = \<lparr>vs_venue_name = venue_name vb, vs_symbol = vb_symbol vb,
     vs_state = (if synced vb then ''synced'' else if \<not> feed_healthy vb then ''feed_down'' else ''syncing''),
     vs_feed_healthy = feed_healthy vb, vs_ts_book_ns = ts_book_ns vb\<rparr>"

definition health_snapshot :: "unified_book \<Rightarrow> detector \<Rightarrow> HealthSnapshot" where
  "health_snapshot ub d = \<lparr>hs_synced = synced_count ub, hs_total = length (ub_books ub),
     hs_last_cross_ns = last_cross_ns d, hs_latency = compute (latency_hist d), hs_standby = (\<not> ad_active d),
     hs_venues = map venue_snap (ub_books ub)\<rparr>"

definition venue_health_json :: "'j json_api \<Rightarrow> i64 \<Rightarrow> VenueSnap \<Rightarrow> 'j" where
  "venue_health_json J now vs = mk_obj J [(''venue'', mk_str J (vs_venue_name vs)), (''symbol'', mk_str J (vs_symbol vs)),
     (''state'', mk_str J (vs_state vs)), (''feed_healthy'', mk_bool J (vs_feed_healthy vs)),
     (''age_ms'', mk_i64 J (if vs_ts_book_ns vs > 0 then (now - vs_ts_book_ns vs) sdiv 1000000 else 0))]"

definition health_json :: "'j json_api \<Rightarrow> i64 \<Rightarrow> i64 \<Rightarrow> nat \<Rightarrow> HealthSnapshot \<Rightarrow> 'j" where
  "health_json J now uptime_s ws_clients snap = mk_obj J
     [(''ok'', mk_bool J (hs_total snap > 0 \<and> hs_synced snap = hs_total snap)), (''process'', mk_str J ''brain''),
      (''uptime_s'', mk_i64 J uptime_s), (''synced'', mk_u64 J (word_of_nat (hs_synced snap))),
      (''total'', mk_u64 J (word_of_nat (hs_total snap))),
      (''venues'', mk_arr J (map (venue_health_json J now) (hs_venues snap))),
      (''last_cross_s_ago'', if hs_last_cross_ns snap > 0
         then mk_dbl J (of_i64 (now - hs_last_cross_ns snap) / Fin 1000000000) else mk_null J),
      (''ws_clients'', mk_u64 J (word_of_nat ws_clients)), (''standby'', mk_bool J (hs_standby snap)),
      (''latency_us'', if p_n (hs_latency snap) = 0 then mk_null J
         else mk_obj J [(''p50'', mk_i64 J (p50_us (hs_latency snap))), (''p95'', mk_i64 J (p95_us (hs_latency snap))),
           (''p99'', mk_i64 J (p99_us (hs_latency snap))), (''n'', mk_u64 J (word_of_nat (p_n (hs_latency snap))))])]"

section \<open>The process\<close>

definition kEventQueueCap :: nat where
  "kEventQueueCap = 50000"

record 'j brain_proc =
  bp_opts :: BrainOptions
  bp_book :: unified_book
  bp_arb :: detector
  bp_queue :: "'j list"
  bp_scan_running :: bool
  bp_health :: HealthSnapshot
  bp_server :: ws_server
  bp_signal :: "signal_server option"
  bp_watchdog_armed :: bool
  bp_promotable :: bool
  bp_running :: bool

definition serialize_cross :: "'j json_api \<Rightarrow> ArbCross \<Rightarrow> string" where
  "serialize_cross J c = j_dump J (mk_obj J
     [(''schema_version'', mk_i64 J 1), (''event_type'', mk_str J ''arb_cross''),
      (''ts_detected_ns'', mk_i64 J (ts_detected_ns c)), (''sell_venue'', mk_str J (sell_venue c)),
      (''buy_venue'', mk_str J (buy_venue c)), (''sell_bid_tick'', mk_i64 J (sell_bid_tick c)),
      (''buy_ask_tick'', mk_i64 J (buy_ask_tick c)), (''spread_bps'', mk_dbl J (spread_bps c)),
      (''net_spread_bps'', mk_dbl J (net_spread_bps c)), (''sell_ts_book_ns'', mk_i64 J (sell_ts_book_ns c)),
      (''buy_ts_book_ns'', mk_i64 J (buy_ts_book_ns c))])"

text \<open>Why the process does not come up: it returns an exit code, or an exception leaves \<^verbatim>\<open>main\<close>.\<close>

datatype brain_exit = ExitFailure | ExitHelp | UncaughtAddress | UncaughtServer server_error

definition new_detector :: "(string \<Rightarrow> bool) \<Rightarrow> (string \<rightharpoonup> string) \<Rightarrow> BrainOptions \<Rightarrow> detector" where
  "new_detector opens disk opts =
     (let d = new_ArbDetector opens disk (bo_min_spread_bps opts) (bo_max_spread_bps opts)
            (bo_rate_limit_ms opts * 1000000) (bo_max_age_ms opts * 1000000) (bo_max_price_deviation_pct opts)
            (bo_output opts) (if bo_output_max_mb opts > 0 then unat (bo_output_max_mb opts * 1024 * 1024) else 0)
            (bo_venue_fee_bps opts)
      in if bo_standby opts then set_active False d else d)"

text \<open>\<^verbatim>\<open>std::make_unique<SignalServer>\<close>: no \<^verbatim>\<open>shared_ptr\<close> owns the server.\<close>

definition open_signal_server :: "bool \<Rightarrow> BrainOptions \<Rightarrow> server_error + signal_server option" where
  "open_signal_server signal_ok opts =
     (if bo_signal_port opts > 0 then map_sum id Some (sv_start (new_SignalServer False signal_ok)) else Inr None)"

definition brain_main ::
  "(string \<Rightarrow> bool) \<Rightarrow> (string \<rightharpoonup> string) \<Rightarrow> bool \<Rightarrow> (string \<Rightarrow> bool) \<Rightarrow> bool \<Rightarrow> bool \<Rightarrow> brain_vm option
    \<Rightarrow> brain_exit + 'j brain_proc" where
  "brain_main opens disk tls_ok addr_ok server_ok signal_ok parsed =
     (case parse_brain_cmdline parsed default_BrainOptions of None \<Rightarrow> Inl ExitFailure
      | Some opts \<Rightarrow>
          (if bo_show_help opts then Inl ExitHelp
           else if \<not> tls_ok then Inl ExitFailure
           else let book = new_UnifiedBook (unat (bo_depth opts));
                    arb = new_detector opens disk opts
                in if \<not> addr_ok (bo_bind opts) then Inl UncaughtAddress
                   else let server = start_server (new_WsServer server_ok)
                        in case open_signal_server signal_ok opts of Inl e \<Rightarrow> Inl (UncaughtServer e)
                           | Inr sg \<Rightarrow> Inr \<lparr>bp_opts = opts, bp_book = book,
                               bp_arb = (if sg = None then arb else arb\<lparr>has_callback := True\<rparr>), bp_queue = [],
                               bp_scan_running = True, bp_health = default_HealthSnapshot, bp_server = server,
                               bp_signal = sg, bp_watchdog_armed = True, bp_promotable = True, bp_running = True\<rparr>))"

section \<open>The threads\<close>

definition on_message :: "'j json_api \<Rightarrow> string \<Rightarrow> bool \<Rightarrow> 'j brain_proc \<Rightarrow> 'j brain_proc" where
  "on_message J msg is_binary b =
     (case (if is_binary then j_from_msgpack J msg else j_parse J msg) of None \<Rightarrow> b
      | Some j \<Rightarrow> b\<lparr>bp_queue := push_while kEventQueueCap j (bp_queue b)\<rparr>)"

definition update_health_snapshot :: "'j brain_proc \<Rightarrow> 'j brain_proc" where
  "update_health_snapshot b = b\<lparr>bp_health := health_snapshot (bp_book b) (bp_arb b)\<rparr>"

text \<open>The callback \<^verbatim>\<open>on_cross_\<close>, called by the detector for each cross in turn.\<close>

definition push_signal :: "'j json_api \<Rightarrow> ArbCross \<Rightarrow> 'j brain_proc \<Rightarrow> 'j brain_proc" where
  "push_signal J c b =
     b\<lparr>bp_signal := map_option (\<lambda>s. keep_or s (broadcast (serialize_cross J c) s)) (bp_signal b)\<rparr>"

definition scan_books :: "'j json_api \<Rightarrow> i64 \<Rightarrow> 'j brain_proc \<Rightarrow> 'j brain_proc" where
  "scan_books J now b =
     (let d = fst (scan J now (ub_books (bp_book b)) (bp_arb b))
      in fold (push_signal J) (drop (length (ad_signals (bp_arb b))) (ad_signals d)) (b\<lparr>bp_arb := d\<rparr>))"

text \<open>One round of the scan thread; the two clock readings are those of the book and of the detector.\<close>

definition apply_event :: "'j json_api \<Rightarrow> i64 \<Rightarrow> i64 \<Rightarrow> 'j \<Rightarrow> 'j brain_proc \<Rightarrow> 'j brain_proc" where
  "apply_event J now now' j b =
     (case on_event J now j (bp_book b) of Inl e \<Rightarrow> b
      | Inr (updated, ub) \<Rightarrow>
          (if updated \<noteq> [] \<and> synced_count ub \<ge> 2 then scan_books J now' (b\<lparr>bp_book := ub\<rparr>) else b\<lparr>bp_book := ub\<rparr>))"

definition scan_round :: "'j json_api \<Rightarrow> i64 \<Rightarrow> i64 \<Rightarrow> 'j brain_proc \<Rightarrow> 'j brain_proc" where
  "scan_round J now now' b =
     (if \<not> bp_scan_running b then b
      else case bp_queue b of [] \<Rightarrow> b
        | j # rest \<Rightarrow> update_health_snapshot (apply_event J now now' j (b\<lparr>bp_queue := rest\<rparr>)))"

text \<open>The watchdog only warns; its handler re-arms the timer.\<close>

datatype watchdog_warning = NoSyncedVenues | OneSyncedVenue | NoCrossIn i64

definition watchdog_no_cross_ns :: "BrainOptions \<Rightarrow> i64" where
  "watchdog_no_cross_ns opts = (if bo_watchdog_no_cross_sec opts > 0 then bo_watchdog_no_cross_sec opts * 1000000000 else 0)"

definition watchdog_fires :: "i64 \<Rightarrow> 'j brain_proc \<Rightarrow> watchdog_warning list" where
  "watchdog_fires now b =
     (let snap = bp_health b; limit = watchdog_no_cross_ns (bp_opts b)
      in (if hs_synced snap = 0 then [NoSyncedVenues] else if hs_synced snap = 1 then [OneSyncedVenue] else []) @
         (if limit > 0 \<and> hs_synced snap \<ge> 2 \<and> hs_last_cross_ns snap > 0 \<and> now - hs_last_cross_ns snap > limit
          then [NoCrossIn ((now - hs_last_cross_ns snap) sdiv 1000000000)] else []))"

definition shut_down :: "'j brain_proc \<Rightarrow> 'j brain_proc" where
  "shut_down b = b\<lparr>bp_watchdog_armed := False, bp_scan_running := False, bp_server := stop_server (bp_server b),
     bp_signal := map_option (\<lambda>s. keep_or s (sv_stop s)) (bp_signal b), bp_running := False\<rparr>"

definition promote :: "'j brain_proc \<Rightarrow> 'j brain_proc" where
  "promote b = (if \<not> bp_promotable b then b else b\<lparr>bp_promotable := False, bp_arb := set_active True (bp_arb b)\<rparr>)"

datatype brain_event =
  BServer server_event | BSignalAccept bool | BSignalSession nat session_event | BSignalRun
| BScan i64 i64 | BWriter | BPromote | BShutdown

definition on_signal_server :: "signal_event \<Rightarrow> 'j brain_proc \<Rightarrow> 'j brain_proc" where
  "on_signal_server e b = b\<lparr>bp_signal := map_option (signal_step e) (bp_signal b)\<rparr>"

fun brain_step :: "'j json_api \<Rightarrow> (string \<Rightarrow> bool) \<Rightarrow> brain_event \<Rightarrow> 'j brain_proc \<Rightarrow> 'j brain_proc" where
  "brain_step J opens (BServer e) b =
     (if \<not> bp_running b then b
      else let (m, s) = server_step e (bp_server b); b = b\<lparr>bp_server := s\<rparr>
           in case m of None \<Rightarrow> b | Some (msg, is_binary) \<Rightarrow> on_message J msg is_binary b)"
| "brain_step J opens (BSignalAccept ec) b = (if \<not> bp_running b then b else on_signal_server (SvAccept ec) b)"
| "brain_step J opens (BSignalSession i e) b = (if \<not> bp_running b then b else on_signal_server (SvSession i e) b)"
| "brain_step J opens BSignalRun b = (if \<not> bp_running b then b else on_signal_server SvRun b)"
| "brain_step J opens (BScan now now') b = scan_round J now now' b"
| "brain_step J opens BWriter b = b\<lparr>bp_arb := writer_step opens (bp_arb b)\<rparr>"
| "brain_step J opens BPromote b = (if \<not> bp_running b then b else promote b)"
| "brain_step J opens BShutdown b = (if \<not> bp_running b then b else shut_down b)"

definition run_brain :: "'j json_api \<Rightarrow> (string \<Rightarrow> bool) \<Rightarrow> brain_event list \<Rightarrow> 'j brain_proc \<Rightarrow> 'j brain_proc" where
  "run_brain J opens = fold (brain_step J opens)"

section \<open>Frames\<close>

text \<open>What a scan leaves alone, and what every event leaves alone.\<close>

lemma push_signals_frame:
  "bp_book (fold (push_signal J) cs b) = bp_book b" "bp_arb (fold (push_signal J) cs b) = bp_arb b"
  "bp_queue (fold (push_signal J) cs b) = bp_queue b" "bp_server (fold (push_signal J) cs b) = bp_server b"
  "bp_health (fold (push_signal J) cs b) = bp_health b" "bp_scan_running (fold (push_signal J) cs b) = bp_scan_running b"
  "bp_promotable (fold (push_signal J) cs b) = bp_promotable b"
  by (induction cs arbitrary: b) (simp_all add: push_signal_def)

lemma apply_event_frame:
  "bp_queue (apply_event J now now' j b) = bp_queue b" "bp_server (apply_event J now now' j b) = bp_server b"
  "bp_arb (apply_event J now now' j b) = bp_arb b \<or>
     (\<exists>vs. bp_arb (apply_event J now now' j b) = fst (scan J now' vs (bp_arb b)))"
  "bp_book (apply_event J now now' j b) = (case on_event J now j (bp_book b) of Inl e \<Rightarrow> bp_book b | Inr (_, ub) \<Rightarrow> ub)"
  by (auto simp: apply_event_def scan_books_def push_signals_frame Let_def split: sum.split)

lemmas brain_defs = on_signal_server_def on_message_def scan_round_def update_health_snapshot_def shut_down_def
  promote_def Let_def

interpretation event_queue: drop_oldest_queue kEventQueueCap "push_while kEventQueueCap"
  by (rule push_while_queue) (simp add: kEventQueueCap_def)

section \<open>The invariant of the process\<close>

definition health_current :: "'j brain_proc \<Rightarrow> bool" where
  "health_current b \<longleftrightarrow> hs_synced (bp_health b) = synced_count (bp_book b) \<and>
     hs_total (bp_health b) = length (ub_books (bp_book b)) \<and> hs_venues (bp_health b) = map venue_snap (ub_books (bp_book b))"

definition brain_inv :: "'j brain_proc \<Rightarrow> bool" where
  "brain_inv b \<longleftrightarrow> ub_inv (bp_book b) \<and> length (bp_queue b) \<le> kEventQueueCap \<and> health_current b \<and>
     register_ok (length (wv_objs (bp_server b))) (wv_sessions (bp_server b))"

lemma brain_inv_message: "brain_inv b \<Longrightarrow> brain_inv (on_message J msg bin b)"
  using event_queue.push_bound by (auto simp: brain_inv_def on_message_def health_current_def split: option.split)

lemma brain_inv_scan: "brain_inv b \<Longrightarrow> brain_inv (scan_round J now now' b)"
proof -
  assume inv: "brain_inv b"
  have ev: "ub_inv (bp_book (apply_event J now now' j (b\<lparr>bp_queue := r\<rparr>)))" for j r
  proof -
    have "ub_inv (bp_book b)" using inv by (simp add: brain_inv_def)
    then obtain u ub' where "on_event J now j (bp_book b) = Inr (u, ub')" "ub_inv ub'" by (rule ub_inv_on_event)
    then show ?thesis by (simp add: apply_event_frame)
  qed
  show ?thesis
    using inv ev
    by (auto simp: brain_inv_def scan_round_def update_health_snapshot_def health_current_def health_snapshot_def
        apply_event_frame(1,2) split: list.split)
qed

lemma brain_inv_step:
  assumes "brain_inv b"
  shows "brain_inv (brain_step J opens e b)"
proof (cases e)
  case (BServer se)
  obtain m s where ms: "server_step se (bp_server b) = (m, s)" by (rule prod.exhaust)
  have "register_ok (length (wv_objs s)) (wv_sessions s)"
    using ws_register.step_ok [of "bp_server b" se] assms by (simp add: brain_inv_def ms)
  then have "brain_inv (b\<lparr>bp_server := s\<rparr>)" using assms by (simp add: brain_inv_def health_current_def)
  then show ?thesis
    using assms BServer brain_inv_message by (auto simp: ms Let_def split: option.split prod.split)
qed (use assms brain_inv_scan in
    \<open>auto simp: brain_inv_def health_current_def on_signal_server_def shut_down_def promote_def stop_server_def Let_def\<close>)

interpretation brain_process: steps "brain_step J opens" brain_inv for J opens
  by unfold_locales (rule brain_inv_step)

lemma brain_inv_run: "brain_inv b \<Longrightarrow> brain_inv (run_brain J opens es b)"
  unfolding run_brain_def by (rule brain_process.always)

lemma assign_brain_sel [simp]:
  "bo_signal_port (assign_brain_options vm out) = bv_signal_port vm" "bo_show_help (assign_brain_options vm out) = bo_show_help out"
  "bo_bind (assign_brain_options vm out) = bv_bind vm" "bo_standby (assign_brain_options vm out) = bv_standby vm"
  "bo_depth (assign_brain_options vm out) = bv_depth vm"
  "bo_certfile (assign_brain_options vm out) = or_keep (bv_certfile vm) (bo_certfile out)"
  "bo_keyfile (assign_brain_options vm out) = or_keep (bv_keyfile vm) (bo_keyfile out)"
  by (simp_all add: assign_brain_options_def)

lemma default_show_help [simp]: "\<not> bo_show_help default_BrainOptions"
  by (simp add: default_BrainOptions_def)

lemma brain_main_started:
  assumes "brain_main opens disk tls_ok addr_ok server_ok signal_ok parsed = Inr b"
  obtains vm where "parsed = Some vm" and "bp_opts b = assign_brain_options vm default_BrainOptions"
    and "bp_book b = new_UnifiedBook (unat (bv_depth vm))" and "bp_queue b = []" and "bp_health b = default_HealthSnapshot"
    and "bp_server b = start_server (new_WsServer server_ok)" and "bv_signal_port vm = 0" and "bp_signal b = None"
    and "bp_arb b = new_detector opens disk (bp_opts b)" and "bp_scan_running b"
  using assms
  by (auto simp: brain_main_def parse_brain_cmdline_def open_signal_server_def sv_start_def sv_do_accept_def
      new_SignalServer_def Let_def word_gt_0 split: option.splits if_splits sum.splits)


text \<open>C32: The state of the brain. Once the process is up, after any interleaving of client events, messages
  whatever they contain, rounds of the scan thread, writer rounds and signals of the operating
  system: the unified book keeps its invariant (one entry per venue and symbol, every book valid),
  at most 50000 events are queued, at most ten feeds are registered, and the health snapshot counts
  and describes exactly the venues of the book.\<close>

theorem brain_process_invariant:
  assumes "brain_main opens disk tls_ok addr_ok server_ok signal_ok (Some vm) = Inr b0" and "bv_depth vm > 0"
  shows "let b = run_brain J opens es b0 in ub_inv (bp_book b) \<and> length (bp_queue b) \<le> kEventQueueCap \<and>
    length (wv_sessions (bp_server b)) \<le> kMaxSessions \<and> hs_synced (bp_health b) = synced_count (bp_book b) \<and>
    hs_total (bp_health b) = length (ub_books (bp_book b)) \<and> hs_venues (bp_health b) = map venue_snap (ub_books (bp_book b))"
proof -
  have "brain_inv b0"
    using assms(2)
    by (cases rule: brain_main_started [OF assms(1)])
      (simp add: brain_inv_def health_current_def default_HealthSnapshot_def ub_inv_new word_gt_0 unat_gt_0
        start_server_def do_accept_def new_WsServer_def, simp add: new_UnifiedBook_def synced_count_def)
  from brain_inv_run [OF this, of J opens es] show ?thesis
    by (simp add: brain_inv_def health_current_def register_ok_def Let_def)
qed

definition demo_vm :: brain_vm where
  "demo_vm = brain_defaults\<lparr>bv_certfile := Some ''cert.pem'', bv_keyfile := Some ''key.pem'', bv_standby := True\<rparr>"

definition demo_run :: "brain_event list" where
  "demo_run = [BServer (AcceptDone False), BServer (SessionTls 0 False), BServer (SessionAccept 0 False),
     BServer (SessionRead 0 (ReadFrame ''x'' False)), BScan 1 2, BWriter]"

lemma demo_brain_starts:
  obtains b0 :: "jtree brain_proc" where
    "brain_main (\<lambda>_. True) Map.empty True (\<lambda>_. True) True True (Some demo_vm) = Inr b0"
proof -
  have "bv_signal_port demo_vm = 0" "bv_certfile demo_vm = Some ''cert.pem''" "bv_keyfile demo_vm = Some ''key.pem''"
    "\<not> bv_help demo_vm"
    by (simp_all add: demo_vm_def brain_defaults_def)
  then show thesis
    using that by (auto simp: brain_main_def parse_brain_cmdline_def or_keep_def open_signal_server_def Let_def)
qed

theorem brain_process_invariant_witness:
  "\<exists>b0 :: jtree brain_proc. brain_main (\<lambda>_. True) Map.empty True (\<lambda>_. True) True True (Some demo_vm) = Inr b0 \<and>
     (let b = run_brain tree_api (\<lambda>_. True) demo_run b0 in ub_inv (bp_book b) \<and> length (bp_queue b) \<le> kEventQueueCap)"
proof -
  obtain b0 :: "jtree brain_proc" where
    b0: "brain_main (\<lambda>_. True) Map.empty True (\<lambda>_. True) True True (Some demo_vm) = Inr b0" by (rule demo_brain_starts)
  have "bv_depth demo_vm > 0" by (simp add: demo_vm_def brain_defaults_def)
  from brain_process_invariant [OF b0 this, of tree_api demo_run] b0 show ?thesis by (auto simp: Let_def)
qed

section \<open>Standby\<close>

text \<open>What a detector shows to the outside.\<close>

definition outputs :: "detector \<Rightarrow> ArbCross list \<times> string list \<times> (string \<rightharpoonup> string) \<times> u64" where
  "outputs d = (ad_signals d, write_queue d, ad_disk d, crosses_total d)"

lemma scan_disk: "ad_disk (fst (scan J now vs d)) = ad_disk d"
proof -
  have e: "ad_disk (emit J c d) = ad_disk d" for c d by (simp add: emit_def Let_def)
  have "ad_disk (fst (fold (scan_pair J now venues cfg) ps st)) = ad_disk (fst st)" for venues cfg ps st
  proof (induction ps arbitrary: st)
    case (Cons p ps)
    have "ad_disk (fst (scan_pair J now venues cfg p st)) = ad_disk (fst st)"
      by (cases rule: scan_pair_cases [of J now venues cfg p st]) (simp_all add: e rate_frame)
    with Cons show ?case by simp
  qed simp
  then show ?thesis by (simp add: scan_pairs)
qed

lemma standby_scan:
  assumes "\<not> ad_active d"
  shows "outputs (fst (scan J now vs d)) = outputs d \<and> \<not> ad_active (fst (scan J now vs d))"
proof -
  have "emitted d (snd (scan J now vs d)) (fst (scan J now vs d))"
    unfolding scan_pairs by (rule emitted_fold) (simp add: emitted_def)
  then show ?thesis using assms by (simp add: emitted_def outputs_def scan_disk)
qed

definition quiet :: "detector \<Rightarrow> 'j brain_proc \<Rightarrow> bool" where
  "quiet d b \<longleftrightarrow> outputs (bp_arb b) = outputs d \<and> \<not> ad_active (bp_arb b)"

lemma quiet_step:
  assumes "quiet d b" and "e \<noteq> BPromote" and "write_queue d = []"
  shows "quiet d (brain_step J opens e b)"
proof (cases e)
  case (BServer se)
  then show ?thesis using assms by (auto simp: quiet_def on_message_def Let_def split: prod.split option.split)
next
  case (BScan now now')
  have "quiet d (apply_event J now now' j (b\<lparr>bp_queue := r\<rparr>))" for j r
    using apply_event_frame(3) [of J now now' j "b\<lparr>bp_queue := r\<rparr>"] assms(1) standby_scan [of "bp_arb b" J now']
    by (auto simp: quiet_def)
  then show ?thesis
    using assms(1) BScan by (auto simp: scan_round_def update_health_snapshot_def quiet_def split: list.split)
next
  case BWriter
  have "write_queue (bp_arb b) = []" using assms by (simp add: quiet_def outputs_def)
  then show ?thesis using assms BWriter by (simp add: quiet_def writer_step_def)
qed (use assms in \<open>auto simp: quiet_def on_signal_server_def shut_down_def\<close>)

text \<open>C33: A standby brain is silent. A brain started in standby keeps receiving events and building its
  books, but until it is promoted it hands no cross to the signal channel, writes nothing to its
  output file, queues no line for it and counts no cross, whatever events arrive and however often
  it scans.\<close>

theorem standby_brain_is_silent:
  assumes "brain_main opens disk tls_ok addr_ok server_ok signal_ok (Some vm) = Inr b0" and "bv_standby vm"
    and "BPromote \<notin> set es"
  shows "let d = bp_arb (run_brain J opens es b0) in
    ad_signals d = [] \<and> write_queue d = [] \<and> crosses_total d = 0 \<and> ad_disk d = ad_disk (bp_arb b0)"
proof -
  have d0: "write_queue (bp_arb b0) = []" "ad_signals (bp_arb b0) = []" "crosses_total (bp_arb b0) = 0"
    "\<not> ad_active (bp_arb b0)"
    using assms(2) by (cases rule: brain_main_started [OF assms(1)],
      simp add: new_detector_def new_ArbDetector_def set_active_def Let_def)+
  have "quiet (bp_arb b0) b \<Longrightarrow> quiet (bp_arb b0) (run_brain J opens es b)" for b
    using assms(3) unfolding run_brain_def
  proof (induction es arbitrary: b)
    case (Cons e es)
    then have "quiet (bp_arb b0) (brain_step J opens e b)" by (intro quiet_step [OF _ _ d0(1)]) auto
    with Cons show ?case by simp
  qed simp
  then have "quiet (bp_arb b0) (run_brain J opens es b0)" using d0 by (simp add: quiet_def)
  then show ?thesis using d0 by (simp add: quiet_def outputs_def Let_def)
qed

theorem standby_brain_is_silent_witness:
  "\<exists>b0 :: jtree brain_proc. brain_main (\<lambda>_. True) Map.empty True (\<lambda>_. True) True True (Some demo_vm) = Inr b0 \<and>
     crosses_total (bp_arb (run_brain tree_api (\<lambda>_. True) demo_run b0)) = 0"
proof -
  obtain b0 :: "jtree brain_proc" where
    b0: "brain_main (\<lambda>_. True) Map.empty True (\<lambda>_. True) True True (Some demo_vm) = Inr b0" by (rule demo_brain_starts)
  have "bv_standby demo_vm" "BPromote \<notin> set demo_run" by (simp_all add: demo_vm_def demo_run_def)
  from standby_brain_is_silent [OF b0 this, of tree_api] b0 show ?thesis by (auto simp: Let_def)
qed

section \<open>The signal port\<close>

text \<open>A brain with a signal port never comes up. Whatever the other options and whatever the system
  calls answer, when a signal port is given and the set-up reaches the servers, \<^verbatim>\<open>main\<close> ends with the
  exception that \<^verbatim>\<open>shared_from_this\<close> throws in a server owned by a \<^verbatim>\<open>unique_ptr\<close>; so a running brain
  never has a signal server.\<close>

theorem signal_port_stops_brain:
  assumes "bv_signal_port vm > 0" and "\<not> bv_help vm"
    and "bv_certfile vm = Some cert" and "cert \<noteq> []" and "bv_keyfile vm = Some key" and "key \<noteq> []" and "addr_ok (bv_bind vm)"
  shows "brain_main opens disk True addr_ok server_ok signal_ok (Some vm) = Inl (UncaughtServer Bad_weak_ptr)"
proof -
  have "open_signal_server signal_ok (assign_brain_options vm default_BrainOptions) = Inl Bad_weak_ptr"
    using assms(1) by (simp add: open_signal_server_def sv_start_def sv_do_accept_def new_SignalServer_def)
  then show ?thesis using assms by (simp add: brain_main_def parse_brain_cmdline_def or_keep_def)
qed

theorem signal_port_stops_brain_witness:
  "(brain_main (\<lambda>_. True) Map.empty True (\<lambda>_. True) True True (Some (demo_vm\<lparr>bv_signal_port := 9444\<rparr>)) :: brain_exit + jtree brain_proc)
     = Inl (UncaughtServer Bad_weak_ptr)"
  by (rule signal_port_stops_brain [of _ "''cert.pem''" "''key.pem''"]) (simp_all add: demo_vm_def brain_defaults_def)

text \<open>After shutdown the scan thread takes nothing more from the queue.\<close>

lemma shutdown_leaves_queue: "scan_round J now now' (shut_down b) = shut_down b"
  by (simp add: scan_round_def shut_down_def)

end
