(* ===== verification/RestClient.thy ===== *)
theory RestClient
  imports Zida_Prelude "HOL-Library.Multiset"
begin

text \<open>
  The HTTPS client of the feed process, \<^verbatim>\<open>feed/include/connection_handler/RestClient.hpp\<close> and
  \<^verbatim>\<open>feed/src/connection_handler/RestClient.cpp\<close>: one request at a time on one strand, with a deadline, an
  orderly TLS shutdown that has a deadline of its own, and reuse of the connection. The asynchronous
  operations that have been started and not completed are the list \<open>rc_pending\<close>; the completion of any of
  them, in whatever order and with whatever outcome, is an event. Cancelling an operation or closing
  the socket does not remove its entry: the handler still runs. A response handler is a number, and
  \<open>rc_log\<close> lists the handlers called with what they were given. TLS settings, the size limits, the header
  fields that are constant (the accepted encoding, the user agent, the content type) and the log are left out;
  a timer that has been cancelled does not fire.
\<close>

section \<open>State\<close>

datatype rest_error = OperationInProgress | InvalidArgument | Non2xx | TimedOut | OperationCanceled
  | Aborted | Eof | StreamTruncated | TransportError nat

datatype rest_op = OpResolve | OpConnect | OpHandshake | OpWrite | OpRead | OpShutdown

datatype http_verb = GET | POST

record http_request =
  rq_method :: http_verb
  rq_target :: string
  rq_host :: string
  rq_connection :: string
  rq_body :: string

record rest_client =
  rc_host :: string
  rc_port :: string
  rc_target :: string
  rc_cb :: "nat option"
  rc_req :: http_request
  rc_in_flight :: bool
  rc_shutting_down :: bool
  rc_final_ec :: "rest_error option"
  rc_response_body :: string
  rc_socket_open :: bool
  rc_tcp_connected :: bool
  rc_tls_handshook :: bool
  rc_keep_alive :: bool
  rc_server_keep_alive :: bool
  rc_connected_host :: string
  rc_connected_port :: string
  rc_deadline_armed :: bool
  rc_shutdown_armed :: bool
  rc_last_status :: int
  rc_pending :: "rest_op list"
  rc_log :: "(nat \<times> rest_error option \<times> string) list"

definition empty_request :: http_request where
  "empty_request = \<lparr>rq_method = GET, rq_target = [], rq_host = [], rq_connection = [], rq_body = []\<rparr>"

definition new_RestClient :: rest_client where
  "new_RestClient = \<lparr>rc_host = [], rc_port = [], rc_target = [], rc_cb = None, rc_req = empty_request, rc_in_flight = False,
     rc_shutting_down = False, rc_final_ec = None, rc_response_body = [], rc_socket_open = False,
     rc_tcp_connected = False, rc_tls_handshook = False, rc_keep_alive = False, rc_server_keep_alive = False,
     rc_connected_host = [], rc_connected_port = [], rc_deadline_armed = False, rc_shutdown_armed = False,
     rc_last_status = 0, rc_pending = [], rc_log = []\<rparr>"

definition set_keep_alive :: "bool \<Rightarrow> rest_client \<Rightarrow> rest_client" where
  "set_keep_alive enabled c = c\<lparr>rc_keep_alive := enabled\<rparr>"

definition last_http_status :: "rest_client \<Rightarrow> int" where
  "last_http_status c = rc_last_status c"

definition can_reuse_connection :: "rest_client \<Rightarrow> bool" where
  "can_reuse_connection c =
     (if \<not> rc_keep_alive c then False
      else if \<not> rc_tcp_connected c \<or> \<not> rc_tls_handshook c then False
      else if rc_host c \<noteq> rc_connected_host c \<or> rc_port c \<noteq> rc_connected_port c then False
      else rc_socket_open c)"

definition rest_close_socket :: "rest_client \<Rightarrow> rest_client" where
  "rest_close_socket c = c\<lparr>rc_socket_open := False, rc_tcp_connected := False, rc_tls_handshook := False,
     rc_connected_host := [], rc_connected_port := []\<rparr>"

section \<open>Timers and completion\<close>

definition arm_deadline :: "rest_client \<Rightarrow> rest_client" where
  "arm_deadline c = c\<lparr>rc_deadline_armed := True\<rparr>"

definition disarm_deadline :: "rest_client \<Rightarrow> rest_client" where
  "disarm_deadline c = c\<lparr>rc_deadline_armed := False\<rparr>"

definition arm_shutdown_deadline :: "rest_client \<Rightarrow> rest_client" where
  "arm_shutdown_deadline c = c\<lparr>rc_shutdown_armed := True\<rparr>"

definition cancel_shutdown_deadline :: "rest_client \<Rightarrow> rest_client" where
  "cancel_shutdown_deadline c = c\<lparr>rc_shutdown_armed := False\<rparr>"

definition start_op :: "rest_op \<Rightarrow> rest_client \<Rightarrow> rest_client" where
  "start_op p c = c\<lparr>rc_pending := rc_pending c @ [p]\<rparr>"

definition call_handler :: "nat option \<Rightarrow> rest_error option \<Rightarrow> string \<Rightarrow> rest_client \<Rightarrow> rest_client" where
  "call_handler cb ec body c = (case cb of None \<Rightarrow> c | Some k \<Rightarrow> c\<lparr>rc_log := rc_log c @ [(k, ec, body)]\<rparr>)"

definition finish :: "rest_client \<Rightarrow> rest_client" where
  "finish c =
     (if \<not> rc_in_flight c then c
      else let c = cancel_shutdown_deadline (disarm_deadline (c\<lparr>rc_in_flight := False\<rparr>));
               cb = rc_cb c; ec = rc_final_ec c; body = rc_response_body c;
               c = c\<lparr>rc_cb := None, rc_response_body := []\<rparr>;
               c = (if \<not> (rc_keep_alive c \<and> rc_server_keep_alive c \<and> ec = None) then rest_close_socket c else c)
           in call_handler cb ec body c)"

definition do_tls_shutdown :: "rest_client \<Rightarrow> rest_client" where
  "do_tls_shutdown c =
     (if \<not> rc_in_flight c then c
      else if rc_shutting_down c then c
      else start_op OpShutdown (arm_shutdown_deadline (c\<lparr>rc_shutting_down := True\<rparr>)))"

definition tls_up :: "rest_client \<Rightarrow> bool" where
  "tls_up c \<longleftrightarrow> rc_tcp_connected c \<and> rc_tls_handshook c"

definition rest_fail :: "rest_error \<Rightarrow> rest_client \<Rightarrow> rest_client" where
  "rest_fail ec c =
     (if \<not> rc_in_flight c then c
      else if rc_final_ec c \<noteq> None then c
      else let c = c\<lparr>rc_final_ec := Some ec\<rparr>
           in if \<not> tls_up c then finish (rest_close_socket c) else do_tls_shutdown c)"

section \<open>Requests\<close>

text \<open>\<^verbatim>\<open>reset_per_request_state_\<close> replaces the stream object when the connection is not reused. Operations of the old connection that have
  not completed stay in the list of pending operations and complete later as aborted, which is what Asio does for the
  resolver and the socket; that a pending TLS operation then refers to a destroyed stream is undefined behaviour
  of the program and outside the model.\<close>

definition reset_per_request_state :: "bool \<Rightarrow> rest_client \<Rightarrow> rest_client" where
  "reset_per_request_state allow_reuse c =
     (let c = cancel_shutdown_deadline (disarm_deadline c);
          c = c\<lparr>rc_shutting_down := False, rc_final_ec := None, rc_response_body := [], rc_last_status := 0,
                rc_server_keep_alive := False, rc_req := empty_request\<rparr>
      in if allow_reuse \<and> can_reuse_connection c then c else rest_close_socket c)"

definition host_header :: "string \<Rightarrow> string \<Rightarrow> string" where
  "host_header host port = (if port \<noteq> ''443'' \<and> port \<noteq> ''80'' then host @ '':'' @ port else host)"

definition connection_header :: "rest_client \<Rightarrow> string" where
  "connection_header c = (if rc_keep_alive c then ''keep-alive'' else ''close'')"

definition bad_target :: "string \<Rightarrow> bool" where
  "bad_target target \<longleftrightarrow> target = [] \<or> hd target \<noteq> CHR ''/''"

text \<open>The bodies of \<^verbatim>\<open>async_get\<close> and \<^verbatim>\<open>async_post\<close>, which differ in the request they build.\<close>

definition async_request :: "http_verb \<Rightarrow> string \<Rightarrow> string \<Rightarrow> string \<Rightarrow> string \<Rightarrow> nat \<Rightarrow> rest_client \<Rightarrow> rest_client" where
  "async_request verb host port target body cb c =
     (if rc_in_flight c then call_handler (Some cb) (Some OperationInProgress) [] c
      else let c = c\<lparr>rc_in_flight := True, rc_host := host, rc_port := port, rc_target := target, rc_cb := Some cb\<rparr>
           in if bad_target target then finish (c\<lparr>rc_final_ec := Some InvalidArgument\<rparr>)
              else let c = arm_deadline (reset_per_request_state True c);
                       c = c\<lparr>rc_req := \<lparr>rq_method = verb, rq_target = target, rq_host = host_header host port,
                                        rq_connection = connection_header c, rq_body = body\<rparr>\<rparr>
                   in if can_reuse_connection c then start_op OpWrite c else start_op OpResolve c)"

definition async_get :: "string \<Rightarrow> string \<Rightarrow> string \<Rightarrow> nat \<Rightarrow> rest_client \<Rightarrow> rest_client" where
  "async_get host port target cb = async_request GET host port target [] cb"

definition async_post :: "string \<Rightarrow> string \<Rightarrow> string \<Rightarrow> string \<Rightarrow> nat \<Rightarrow> rest_client \<Rightarrow> rest_client" where
  "async_post host port target body cb = async_request POST host port target body cb"

definition rest_cancel :: "rest_client \<Rightarrow> rest_client" where
  "rest_cancel c =
     (if \<not> rc_in_flight c then c
      else let c = (if rc_final_ec c = None then c\<lparr>rc_final_ec := Some OperationCanceled\<rparr> else c);
               c = cancel_shutdown_deadline (disarm_deadline c)
           in if \<not> tls_up c then finish (rest_close_socket c) else do_tls_shutdown c)"

section \<open>Completion handlers\<close>

definition rest_resolved :: "rest_error option \<Rightarrow> rest_client \<Rightarrow> rest_client" where
  "rest_resolved ec c = (case ec of Some e \<Rightarrow> rest_fail e c | None \<Rightarrow> start_op OpConnect c)"

text \<open>A connected socket is open; the second argument is the error of setting the server name.\<close>

definition rest_connected :: "rest_error option \<Rightarrow> rest_error option \<Rightarrow> rest_client \<Rightarrow> rest_client" where
  "rest_connected ec sni c =
     (case ec of Some e \<Rightarrow> rest_fail e c
      | None \<Rightarrow>
          (let c = c\<lparr>rc_socket_open := True\<rparr>
           in case sni of Some e \<Rightarrow> rest_fail e c | None \<Rightarrow> start_op OpHandshake (c\<lparr>rc_tcp_connected := True\<rparr>)))"

definition rest_handshaken :: "rest_error option \<Rightarrow> rest_client \<Rightarrow> rest_client" where
  "rest_handshaken ec c =
     (case ec of Some e \<Rightarrow> rest_fail e c
      | None \<Rightarrow> start_op OpWrite (c\<lparr>rc_tls_handshook := True, rc_connected_host := rc_host c, rc_connected_port := rc_port c\<rparr>))"

definition rest_written :: "rest_error option \<Rightarrow> rest_client \<Rightarrow> rest_client" where
  "rest_written ec c = (case ec of Some e \<Rightarrow> rest_fail e c | None \<Rightarrow> start_op OpRead c)"

record http_response =
  rs_status :: int
  rs_keep_alive :: bool
  rs_body :: string

definition rest_read :: "rest_error + http_response \<Rightarrow> rest_client \<Rightarrow> rest_client" where
  "rest_read r c =
     (case r of Inl e \<Rightarrow> rest_fail e c
      | Inr res \<Rightarrow>
          (let c = disarm_deadline c;
               c = c\<lparr>rc_last_status := rs_status res, rc_server_keep_alive := rs_keep_alive res,
                     rc_response_body := rs_body res, rc_final_ec := None\<rparr>;
               c = (if rs_status res < 200 \<or> rs_status res \<ge> 300 then c\<lparr>rc_final_ec := Some Non2xx\<rparr> else c)
           in if rc_keep_alive c \<and> rc_server_keep_alive c \<and> rc_final_ec c = None then finish c
              else do_tls_shutdown c))"

definition rest_shut_down :: "rest_error option \<Rightarrow> rest_client \<Rightarrow> rest_client" where
  "rest_shut_down ec c =
     (let c = cancel_shutdown_deadline c;
          c = (if ec \<noteq> None \<and> ec \<noteq> Some Eof \<and> ec \<noteq> Some StreamTruncated \<and> rc_final_ec c = None
               then c\<lparr>rc_final_ec := ec\<rparr> else c)
      in finish c)"

definition deadline_fires :: "rest_client \<Rightarrow> rest_client" where
  "deadline_fires c = rest_fail TimedOut (c\<lparr>rc_deadline_armed := False\<rparr>)"

definition shutdown_deadline_fires :: "rest_client \<Rightarrow> rest_client" where
  "shutdown_deadline_fires c =
     (let c = c\<lparr>rc_shutdown_armed := False\<rparr>
      in if \<not> rc_in_flight c then c
         else finish (if rc_final_ec c = None then c\<lparr>rc_final_ec := Some TimedOut\<rparr> else c))"

section \<open>Events\<close>

datatype rest_event =
  DoGet string string string nat | DoPost string string string string nat | DoCancel
| Resolve "rest_error option" | TcpConnect "rest_error option" "rest_error option" | TlsHandshakeDone "rest_error option"
| Written "rest_error option" | ReadResponse "rest_error + http_response" | ShutDown "rest_error option"
| DeadlineFires | ShutdownDeadlineFires

text \<open>The completion of one operation of the kind takes its entry off the list.\<close>

definition complete :: "rest_op \<Rightarrow> (rest_client \<Rightarrow> rest_client) \<Rightarrow> rest_client \<Rightarrow> rest_client" where
  "complete p h c = (if p \<in> set (rc_pending c) then h (c\<lparr>rc_pending := remove1 p (rc_pending c)\<rparr>) else c)"

fun rest_step :: "rest_event \<Rightarrow> rest_client \<Rightarrow> rest_client" where
  "rest_step (DoGet host port target cb) c = async_get host port target cb c"
| "rest_step (DoPost host port target body cb) c = async_post host port target body cb c"
| "rest_step DoCancel c = rest_cancel c"
| "rest_step (Resolve ec) c = complete OpResolve (rest_resolved ec) c"
| "rest_step (TcpConnect ec sni) c = complete OpConnect (rest_connected ec sni) c"
| "rest_step (TlsHandshakeDone ec) c = complete OpHandshake (rest_handshaken ec) c"
| "rest_step (Written ec) c = complete OpWrite (rest_written ec) c"
| "rest_step (ReadResponse r) c = complete OpRead (rest_read r) c"
| "rest_step (ShutDown ec) c = complete OpShutdown (rest_shut_down ec) c"
| "rest_step DeadlineFires c = (if rc_deadline_armed c then deadline_fires c else c)"
| "rest_step ShutdownDeadlineFires c = (if rc_shutdown_armed c then shutdown_deadline_fires c else c)"

inductive rest_reachable :: "rest_client \<Rightarrow> bool" where
  start: "rest_reachable (set_keep_alive b new_RestClient)"
| step: "rest_reachable c \<Longrightarrow> rest_reachable (rest_step e c)"

lemmas rest_timer_defs = arm_deadline_def disarm_deadline_def arm_shutdown_deadline_def cancel_shutdown_deadline_def
  start_op_def rest_close_socket_def

section \<open>Every request is answered once\<close>

text \<open>Handlers called or still held, as a multiset.\<close>

definition account :: "rest_client \<Rightarrow> nat multiset" where
  "account c = mset (map fst (rc_log c)) + (case rc_cb c of None \<Rightarrow> {#} | Some k \<Rightarrow> {#k#})"

definition holds_handler :: "rest_client \<Rightarrow> bool" where
  "holds_handler c \<longleftrightarrow> (rc_cb c \<noteq> None) = rc_in_flight c"

fun requested :: "rest_event list \<Rightarrow> nat list" where
  "requested [] = []"
| "requested (DoGet _ _ _ k # es) = k # requested es"
| "requested (DoPost _ _ _ _ k # es) = k # requested es"
| "requested (_ # es) = requested es"

text \<open>Operations that keep the account.\<close>

definition fair :: "(rest_client \<Rightarrow> rest_client) \<Rightarrow> bool" where
  "fair f \<longleftrightarrow> (\<forall>c. holds_handler c \<longrightarrow> account (f c) = account c \<and> holds_handler (f c))"

lemma fair_comp: "fair f \<Longrightarrow> fair g \<Longrightarrow> fair (\<lambda>c. f (g c))"
  by (simp add: fair_def)

lemma fair_frame:
  assumes "\<And>c. rc_log (f c) = rc_log c \<and> rc_cb (f c) = rc_cb c \<and> rc_in_flight (f c) = rc_in_flight c"
  shows "fair f"
  using assms by (simp add: fair_def account_def holds_handler_def)

lemma fair_finish: "fair finish"
  by (auto simp: fair_def finish_def account_def holds_handler_def call_handler_def rest_timer_defs Let_def
      split: option.split)

lemma fair_shutdown: "fair do_tls_shutdown"
  by (rule fair_frame) (simp add: do_tls_shutdown_def rest_timer_defs)

lemma fair_close: "fair rest_close_socket"
  by (rule fair_frame) (simp add: rest_timer_defs)

lemma fair_cases: "fair f \<Longrightarrow> fair g \<Longrightarrow> fair (\<lambda>c. if P c then f c else g c)"
  by (simp add: fair_def)

lemma fair_id: "fair (\<lambda>c. c)"
  by (simp add: fair_def)

lemma fair_fail: "fair (rest_fail e)"
proof -
  have "fair (\<lambda>c. c\<lparr>rc_final_ec := Some e\<rparr>)" by (rule fair_frame) simp
  moreover have "fair (\<lambda>c. if \<not> tls_up c then finish (rest_close_socket c) else do_tls_shutdown c)"
    by (intro fair_cases fair_comp [OF fair_finish fair_close] fair_shutdown)
  ultimately have "fair (\<lambda>c. if \<not> tls_up (c\<lparr>rc_final_ec := Some e\<rparr>) then finish (rest_close_socket (c\<lparr>rc_final_ec := Some e\<rparr>))
      else do_tls_shutdown (c\<lparr>rc_final_ec := Some e\<rparr>))"
    by (rule fair_comp [rotated])
  then show ?thesis
    unfolding rest_fail_def [abs_def] Let_def by (rule fair_cases [OF fair_id fair_cases [OF fair_id]])
qed

lemma fair_complete: "fair h \<Longrightarrow> fair (complete p h)"
  unfolding complete_def [abs_def]
  by (intro fair_cases fair_id) (erule fair_comp, rule fair_frame, simp)

lemma fair_handlers:
  "fair (rest_resolved ec)" "fair (rest_connected ec sni)" "fair (rest_handshaken ec)" "fair (rest_written ec)"
proof -
  have s: "fair (start_op p)" for p by (rule fair_frame) (simp add: start_op_def)
  show "fair (rest_resolved ec)" "fair (rest_written ec)"
    unfolding rest_resolved_def [abs_def] rest_written_def [abs_def] by (cases ec; simp add: fair_fail s)+
  have "fair (\<lambda>c. rest_fail e (c\<lparr>rc_socket_open := True\<rparr>))" for e
    by (rule fair_comp [OF fair_fail], rule fair_frame, simp)
  then show "fair (rest_connected ec sni)"
    unfolding rest_connected_def [abs_def] Let_def
    by (cases ec; cases sni) (auto simp: fair_fail intro!: fair_frame simp: start_op_def)
  show "fair (rest_handshaken ec)"
    unfolding rest_handshaken_def [abs_def]
    by (cases ec) (auto simp: fair_fail intro!: fair_frame simp: start_op_def)
qed

lemma fair_read: "fair (rest_read r)"
proof (cases r)
  case (Inl e)
  then show ?thesis by (simp add: rest_read_def [abs_def] fair_fail)
next
  case (Inr res)
  let ?set = "\<lambda>c. (disarm_deadline c)\<lparr>rc_last_status := rs_status res, rc_server_keep_alive := rs_keep_alive res,
    rc_response_body := rs_body res, rc_final_ec := (if rs_status res < 200 \<or> rs_status res \<ge> 300 then Some Non2xx else None)\<rparr>"
  have "fair ?set" by (rule fair_frame) (simp add: rest_timer_defs)
  then have "fair (\<lambda>c. if rc_keep_alive (?set c) \<and> rc_server_keep_alive (?set c) \<and> rc_final_ec (?set c) = None
      then finish (?set c) else do_tls_shutdown (?set c))"
    by (rule fair_comp [rotated]) (intro fair_cases fair_finish fair_shutdown)
  moreover have "rest_read r = (\<lambda>c. if rc_keep_alive (?set c) \<and> rc_server_keep_alive (?set c) \<and> rc_final_ec (?set c) = None
      then finish (?set c) else do_tls_shutdown (?set c))"
    by (rule ext) (auto simp: Inr rest_read_def Let_def)
  ultimately show ?thesis by (simp only:)
qed

lemma fair_ending:
  "fair (rest_shut_down ec)" "fair deadline_fires" "fair shutdown_deadline_fires" "fair rest_cancel"
proof -
  have "fair (\<lambda>c. if ec \<noteq> None \<and> ec \<noteq> Some Eof \<and> ec \<noteq> Some StreamTruncated \<and> rc_final_ec c = None
      then c\<lparr>rc_final_ec := ec\<rparr> else c)" by (rule fair_frame) simp
  moreover have "fair cancel_shutdown_deadline" by (rule fair_frame) (simp add: rest_timer_defs)
  ultimately show "fair (rest_shut_down ec)"
    unfolding rest_shut_down_def [abs_def] Let_def using fair_comp [OF fair_finish fair_comp] by fast
  show "fair deadline_fires"
    unfolding deadline_fires_def [abs_def] by (rule fair_comp [OF fair_fail], rule fair_frame, simp)
  have "fair (\<lambda>c. finish (if rc_final_ec c = None then c\<lparr>rc_final_ec := Some TimedOut\<rparr> else c))"
    by (rule fair_comp [OF fair_finish], rule fair_frame, simp)
  then have "fair (\<lambda>c. if \<not> rc_in_flight c then c
      else finish (if rc_final_ec c = None then c\<lparr>rc_final_ec := Some TimedOut\<rparr> else c))"
    by (rule fair_cases [OF fair_id])
  then show "fair shutdown_deadline_fires"
    unfolding shutdown_deadline_fires_def [abs_def] Let_def
    by (rule fair_comp) (rule fair_frame, simp)
  let ?pre = "\<lambda>c. cancel_shutdown_deadline (disarm_deadline (if rc_final_ec c = None then c\<lparr>rc_final_ec := Some OperationCanceled\<rparr> else c))"
  have "fair ?pre" by (rule fair_frame) (simp add: rest_timer_defs)
  then have "fair (\<lambda>c. if \<not> tls_up (?pre c) then finish (rest_close_socket (?pre c)) else do_tls_shutdown (?pre c))"
    by (rule fair_comp [rotated]) (intro fair_cases fair_comp [OF fair_finish fair_close] fair_shutdown)
  then show "fair rest_cancel"
    unfolding rest_cancel_def [abs_def] Let_def by (rule fair_cases [OF fair_id])
qed

lemma account_request:
  assumes "holds_handler c"
  shows "account (async_request v h p t b k c) = account c + {#k#} \<and> holds_handler (async_request v h p t b k c)"
proof (cases "rc_in_flight c")
  case True
  then show ?thesis
    using assms by (simp add: async_request_def account_def holds_handler_def call_handler_def)
next
  case False
  let ?c = "c\<lparr>rc_in_flight := True, rc_host := h, rc_port := p, rc_target := t, rc_cb := Some k\<rparr>"
  have c: "holds_handler ?c" "account ?c = account c + {#k#}"
    using False assms by (auto simp: holds_handler_def account_def)
  have f: "holds_handler c' \<Longrightarrow> account (finish c') = account c' \<and> holds_handler (finish c')" for c'
    using fair_finish by (simp add: fair_def)
  have "account (?c\<lparr>rc_final_ec := Some InvalidArgument\<rparr>) = account ?c" "holds_handler (?c\<lparr>rc_final_ec := Some InvalidArgument\<rparr>)"
    by (simp_all add: account_def holds_handler_def)
  then show ?thesis
    using False c f [of "?c\<lparr>rc_final_ec := Some InvalidArgument\<rparr>"]
    by (auto simp: async_request_def Let_def)
      (auto simp: account_def holds_handler_def reset_per_request_state_def rest_timer_defs Let_def)
qed

lemma account_step:
  assumes "holds_handler c"
  shows "account (rest_step e c) = account c + mset (requested [e]) \<and> holds_handler (rest_step e c)"
proof -
  have "fair f \<Longrightarrow> account (f c) = account c \<and> holds_handler (f c)" for f using assms by (simp add: fair_def)
  note a = this [OF fair_complete] this [OF fair_ending(4)] this [OF fair_ending(2)] this [OF fair_ending(3)]
  show ?thesis
    using assms account_request
    by (cases e) (simp_all add: a fair_handlers fair_read fair_ending async_get_def async_post_def)
qed

lemma requested_Cons: "requested (e # es) = requested [e] @ requested es"
  by (cases e) simp_all

lemma account_run:
  "holds_handler c \<Longrightarrow> account (fold rest_step es c) = account c + mset (requested es) \<and> holds_handler (fold rest_step es c)"
proof (induction es arbitrary: c)
  case (Cons e es)
  then show ?case using account_step [OF Cons.prems, of e] by (simp add: requested_Cons [of e es])
qed simp

text \<open>C8: Every request is answered exactly once. Whatever is requested, also while another request is in
  flight, and whatever completes, fails, times out or is cancelled, in whatever order: the handlers
  that have been called, with the one of the request in flight if there is one, are exactly the
  handlers that were passed in.\<close>

theorem every_request_answered_once:
  "mset (map fst (rc_log (fold rest_step es (set_keep_alive b new_RestClient)))) +
     (if rc_in_flight (fold rest_step es (set_keep_alive b new_RestClient))
      then {#the (rc_cb (fold rest_step es (set_keep_alive b new_RestClient)))#} else {#}) = mset (requested es)"
proof -
  let ?c = "fold rest_step es (set_keep_alive b new_RestClient)"
  have i: "holds_handler (set_keep_alive b new_RestClient)" "account (set_keep_alive b new_RestClient) = {#}"
    by (simp_all add: holds_handler_def account_def set_keep_alive_def new_RestClient_def)
  then have "account ?c = mset (requested es)" "holds_handler ?c"
    using account_run [OF i(1), of es] by simp_all
  then show ?thesis by (auto simp: account_def holds_handler_def)
qed

section \<open>Requests end\<close>

text \<open>A request in flight is waiting for its deadline, or for the shutdown of the connection.\<close>

definition waiting_inv :: "rest_client \<Rightarrow> bool" where
  "waiting_inv c \<longleftrightarrow> (rc_in_flight c \<longrightarrow>
     (if rc_shutting_down c then OpShutdown \<in> set (rc_pending c) else rc_deadline_armed c \<and> rc_final_ec c = None))"

lemma not_waiting: "\<not> rc_in_flight c \<Longrightarrow> waiting_inv c"
  by (simp add: waiting_inv_def)

lemma finish_idle [simp]: "\<not> rc_in_flight (finish c)"
  by (simp add: finish_def call_handler_def rest_timer_defs Let_def split: option.split)

lemma waiting_finish [simp]: "waiting_inv (finish c)"
  by (simp add: not_waiting)

text \<open>Starting the shutdown restores the invariant, provided a shutdown under way is still pending.\<close>

lemma waiting_shutdown:
  "(rc_in_flight c \<and> rc_shutting_down c \<longrightarrow> OpShutdown \<in> set (rc_pending c)) \<Longrightarrow> waiting_inv (do_tls_shutdown c)"
  by (auto simp: waiting_inv_def do_tls_shutdown_def rest_timer_defs)

lemma waiting_fail:
  assumes "rc_in_flight c \<Longrightarrow> if rc_shutting_down c then OpShutdown \<in> set (rc_pending c) else rc_final_ec c = None"
  shows "waiting_inv (rest_fail e c)"
proof (cases "rc_in_flight c \<and> rc_final_ec c = None")
  case True
  have "waiting_inv (do_tls_shutdown (c\<lparr>rc_final_ec := Some e\<rparr>))"
    using assms True by (intro waiting_shutdown) (auto split: if_splits)
  then show ?thesis using True by (simp add: rest_fail_def Let_def)
next
  case False
  then show ?thesis using assms by (auto simp: rest_fail_def waiting_inv_def split: if_splits)
qed

lemma waiting_mono:
  assumes "waiting_inv c" and "rc_in_flight c' = rc_in_flight c" and "rc_shutting_down c' = rc_shutting_down c"
    and "rc_deadline_armed c' = rc_deadline_armed c" and "rc_final_ec c' = rc_final_ec c"
    and "OpShutdown \<in> set (rc_pending c) \<Longrightarrow> OpShutdown \<in> set (rc_pending c')"
  shows "waiting_inv c'"
  using assms by (auto simp: waiting_inv_def)

text \<open>Taking an entry other than the shutdown off the list.\<close>

lemma waiting_remove:
  assumes "waiting_inv c" and "p \<noteq> OpShutdown"
  shows "waiting_inv (c\<lparr>rc_pending := remove1 p (rc_pending c)\<rparr>)"
  using assms(1) by (rule waiting_mono) (simp_all add: assms(2)[symmetric] in_set_remove1)

lemma waiting_fails: "waiting_inv c \<Longrightarrow> waiting_inv (rest_fail e c)"
  by (rule waiting_fail) (auto simp: waiting_inv_def split: if_splits)

lemma waiting_start: "waiting_inv c \<Longrightarrow> waiting_inv (start_op p c)"
  by (erule waiting_mono) (simp_all add: start_op_def)

text \<open>A response, good or bad, either answers the request or starts the shutdown.\<close>

lemma read_response:
  obtains d where "rest_read (Inr res) c = finish d \<or> rest_read (Inr res) c = do_tls_shutdown d"
    and "rc_in_flight d = rc_in_flight c" and "rc_shutting_down d = rc_shutting_down c" and "rc_pending d = rc_pending c"
    and "\<not> rc_deadline_armed d" and "rc_shutdown_armed d = rc_shutdown_armed c"
proof (rule that [of "(disarm_deadline c)\<lparr>rc_last_status := rs_status res, rc_server_keep_alive := rs_keep_alive res,
    rc_response_body := rs_body res, rc_final_ec := (if rs_status res < 200 \<or> rs_status res \<ge> 300 then Some Non2xx else None)\<rparr>"])
qed (auto simp: rest_read_def Let_def rest_timer_defs)

lemma waiting_handlers:
  assumes "waiting_inv c"
  shows "waiting_inv (rest_resolved ec c)" and "waiting_inv (rest_connected ec sni c)"
    and "waiting_inv (rest_handshaken ec c)" and "waiting_inv (rest_written ec c)" and "waiting_inv (rest_read r c)"
proof -
  show "waiting_inv (rest_resolved ec c)" "waiting_inv (rest_written ec c)"
    using assms by (auto simp: rest_resolved_def rest_written_def waiting_fails waiting_start split: option.split)
  have o: "waiting_inv (c\<lparr>rc_socket_open := True\<rparr>)" "waiting_inv (c\<lparr>rc_socket_open := True, rc_tcp_connected := True\<rparr>)"
    "waiting_inv (c\<lparr>rc_tls_handshook := True, rc_connected_host := rc_host c, rc_connected_port := rc_port c\<rparr>)"
    using assms by (rule waiting_mono, simp_all)+
  then show "waiting_inv (rest_connected ec sni c)" "waiting_inv (rest_handshaken ec c)"
    using assms
    by (auto simp: rest_connected_def rest_handshaken_def Let_def waiting_fails waiting_start split: option.split)
  show "waiting_inv (rest_read r c)"
  proof (cases r)
    case (Inr res)
    obtain d where d: "rest_read r c = finish d \<or> rest_read r c = do_tls_shutdown d"
      and same: "rc_in_flight d = rc_in_flight c" "rc_shutting_down d = rc_shutting_down c" "rc_pending d = rc_pending c"
      unfolding Inr by (rule read_response [of res c])
    have "rc_in_flight d \<and> rc_shutting_down d \<longrightarrow> OpShutdown \<in> set (rc_pending d)"
      using assms same by (auto simp: waiting_inv_def split: if_splits)
    with d show ?thesis by (metis waiting_shutdown waiting_finish)
  qed (simp add: rest_read_def assms waiting_fails)
qed

lemma waiting_ending:
  assumes "waiting_inv c"
  shows "waiting_inv (rest_shut_down ec d)" and "waiting_inv (deadline_fires c)" and "waiting_inv (shutdown_deadline_fires c)"
    and "waiting_inv (rest_cancel c)"
proof -
  show "waiting_inv (rest_shut_down ec d)" by (simp add: rest_shut_down_def Let_def)
  show "waiting_inv (deadline_fires c)"
    using assms unfolding deadline_fires_def by (intro waiting_fail) (auto simp: waiting_inv_def split: if_splits)
  show "waiting_inv (shutdown_deadline_fires c)"
    by (auto simp: shutdown_deadline_fires_def Let_def intro: not_waiting)
  have "waiting_inv (do_tls_shutdown d)" if "rc_in_flight d = rc_in_flight c" "rc_shutting_down d = rc_shutting_down c"
    "rc_pending d = rc_pending c" for d
    using assms that by (intro waiting_shutdown) (auto simp: waiting_inv_def split: if_splits)
  then show "waiting_inv (rest_cancel c)"
    using assms by (auto simp: rest_cancel_def Let_def rest_timer_defs)
qed

lemma waiting_request:
  assumes "waiting_inv c"
  shows "waiting_inv (async_request v h p t b k c)"
proof (cases "rc_in_flight c \<or> bad_target t")
  case True
  then show ?thesis
    using assms by (auto simp: async_request_def call_handler_def waiting_inv_def Let_def)
next
  case False
  then show ?thesis
    by (simp add: async_request_def waiting_inv_def reset_per_request_state_def rest_timer_defs Let_def)
qed

lemma waiting_step: "waiting_inv c \<Longrightarrow> waiting_inv (rest_step e c)"
proof -
  assume c: "waiting_inv c"
  have "waiting_inv (complete p h c)" if "\<And>c. waiting_inv c \<Longrightarrow> waiting_inv (h c)" "p \<noteq> OpShutdown" for p h
    using that c waiting_remove [OF c that(2)] by (simp add: complete_def)
  then show ?thesis
    using c waiting_ending waiting_request
    by (cases e) (auto simp: waiting_handlers async_get_def async_post_def complete_def [of OpShutdown])
qed

lemma reachable_waiting: "rest_reachable c \<Longrightarrow> waiting_inv c"
  by (induction rule: rest_reachable.induct)
    (simp_all add: waiting_step, simp add: waiting_inv_def set_keep_alive_def new_RestClient_def)

text \<open>The events that carry a request on: completions of pending operations and timers that are armed.\<close>

fun enabled :: "rest_event \<Rightarrow> rest_client \<Rightarrow> bool" where
  "enabled (Resolve _) c = (OpResolve \<in> set (rc_pending c))"
| "enabled (TcpConnect _ _) c = (OpConnect \<in> set (rc_pending c))"
| "enabled (TlsHandshakeDone _) c = (OpHandshake \<in> set (rc_pending c))"
| "enabled (Written _) c = (OpWrite \<in> set (rc_pending c))"
| "enabled (ReadResponse _) c = (OpRead \<in> set (rc_pending c))"
| "enabled (ShutDown _) c = (OpShutdown \<in> set (rc_pending c))"
| "enabled DeadlineFires c = rc_deadline_armed c"
| "enabled ShutdownDeadlineFires c = rc_shutdown_armed c"
| "enabled _ c = False"

lemma in_flight_enabled: "rest_reachable c \<Longrightarrow> rc_in_flight c \<Longrightarrow> \<exists>e. enabled e c"
  using reachable_waiting [of c] enabled.simps(6) [of None c] enabled.simps(7) [of c]
  by (auto simp: waiting_inv_def simp del: enabled.simps split: if_splits)

fun op_weight :: "rest_op \<Rightarrow> nat" where
  "op_weight OpResolve = 6"
| "op_weight OpConnect = 5"
| "op_weight OpHandshake = 4"
| "op_weight OpWrite = 3"
| "op_weight OpRead = 2"
| "op_weight OpShutdown = 1"

definition potential :: "rest_client \<Rightarrow> nat" where
  "potential c = sum_list (map op_weight (rc_pending c)) + of_bool (rc_deadline_armed c) + of_bool (rc_shutdown_armed c) +
     (if rc_shutting_down c then 0 else 3)"

lemma potential_le:
  "potential (finish c) \<le> potential c" "potential (do_tls_shutdown c) \<le> potential c" "potential (rest_close_socket c) = potential c"
  by (auto simp: potential_def finish_def call_handler_def do_tls_shutdown_def rest_timer_defs Let_def split: option.split)

lemma potential_ec [simp]: "potential (c\<lparr>rc_final_ec := x\<rparr>) = potential c"
  by (simp add: potential_def)

lemma potential_fail: "potential (rest_fail e c) \<le> potential c"
  using potential_le(1) [of "rest_close_socket (c\<lparr>rc_final_ec := Some e\<rparr>)"] potential_le(2) [of "c\<lparr>rc_final_ec := Some e\<rparr>"]
  by (simp add: rest_fail_def Let_def potential_le(3))

lemma potential_start: "potential (start_op p c) = potential c + op_weight p"
  by (simp add: potential_def start_op_def)

lemma potential_handlers:
  "potential (rest_resolved ec c) \<le> potential c + 5" "potential (rest_connected ec sni c) \<le> potential c + 4"
  "potential (rest_handshaken ec c) \<le> potential c + 3" "potential (rest_written ec c) \<le> potential c + 2"
  "potential (rest_read r c) \<le> potential c" "potential (rest_shut_down ec c) \<le> potential c"
proof -
  have s: "potential (c\<lparr>rc_socket_open := True\<rparr>) = potential c" "potential (c\<lparr>rc_socket_open := True, rc_tcp_connected := True\<rparr>) = potential c"
    "potential (c\<lparr>rc_tls_handshook := True, rc_connected_host := rc_host c, rc_connected_port := rc_port c\<rparr>) = potential c"
    by (simp_all add: potential_def)
  show "potential (rest_resolved ec c) \<le> potential c + 5" "potential (rest_written ec c) \<le> potential c + 2"
    "potential (rest_handshaken ec c) \<le> potential c + 3"
    by (auto simp: rest_resolved_def rest_written_def rest_handshaken_def potential_start s
        intro: le_trans [OF potential_fail] split: option.split)
  show "potential (rest_connected ec sni c) \<le> potential c + 4"
    using potential_fail [of _ c] potential_fail [of _ "c\<lparr>rc_socket_open := True\<rparr>"]
    by (auto simp: rest_connected_def potential_start s Let_def intro: trans_le_add1 split: option.split)
  show "potential (rest_read r c) \<le> potential c"
  proof (cases r)
    case (Inr res)
    obtain d where d: "rest_read r c = finish d \<or> rest_read r c = do_tls_shutdown d"
      and same: "rc_shutting_down d = rc_shutting_down c" "rc_pending d = rc_pending c" "\<not> rc_deadline_armed d"
        "rc_shutdown_armed d = rc_shutdown_armed c"
      unfolding Inr by (rule read_response [of res c])
    have "potential d \<le> potential c" using same by (simp add: potential_def)
    with d potential_le(1,2) [of d] show ?thesis by (elim disjE) simp_all
  qed (simp add: rest_read_def potential_fail)
  have "potential (c\<lparr>rc_shutdown_armed := False\<rparr>) \<le> potential c"
    "potential (c\<lparr>rc_shutdown_armed := False, rc_final_ec := ec\<rparr>) \<le> potential c"
    by (simp_all add: potential_def)
  then show "potential (rest_shut_down ec c) \<le> potential c"
    by (simp add: rest_shut_down_def Let_def cancel_shutdown_deadline_def le_trans [OF potential_le(1)])
qed

lemma potential_timers:
  "rc_deadline_armed c \<Longrightarrow> potential (deadline_fires c) < potential c"
  "rc_shutdown_armed c \<Longrightarrow> potential (shutdown_deadline_fires c) < potential c"
proof -
  assume "rc_deadline_armed c"
  then have "potential (c\<lparr>rc_deadline_armed := False\<rparr>) < potential c" by (simp add: potential_def)
  then show "potential (deadline_fires c) < potential c"
    unfolding deadline_fires_def by (rule le_less_trans [OF potential_fail])
next
  assume "rc_shutdown_armed c"
  then have "potential (c\<lparr>rc_shutdown_armed := False\<rparr>) < potential c"
    "potential (c\<lparr>rc_shutdown_armed := False, rc_final_ec := Some TimedOut\<rparr>) < potential c"
    by (simp_all add: potential_def)
  then show "potential (shutdown_deadline_fires c) < potential c"
    by (simp add: shutdown_deadline_fires_def Let_def le_less_trans [OF potential_le(1)])
qed

text \<open>A completion spends the weight of its operation and starts at most the next, lighter one.\<close>

lemma potential_complete:
  assumes "p \<in> set (rc_pending c)" and "\<And>c. potential (h c) < potential c + op_weight p"
  shows "potential (complete p h c) < potential c"
proof -
  have "sum_list (map op_weight (rc_pending c)) = op_weight p + sum_list (map op_weight (remove1 p (rc_pending c)))"
    by (rule sum_list_map_remove1 [OF assms(1)])
  then have "potential (c\<lparr>rc_pending := remove1 p (rc_pending c)\<rparr>) + op_weight p = potential c"
    by (simp add: potential_def)
  then show ?thesis
    using assms(1) assms(2) [of "c\<lparr>rc_pending := remove1 p (rc_pending c)\<rparr>"] by (simp add: complete_def)
qed

lemma enabled_decreases: "enabled e c \<Longrightarrow> potential (rest_step e c) < potential c"
  by (cases e) (auto intro!: potential_complete intro: potential_timers le_less_trans [OF potential_handlers(1)]
      le_less_trans [OF potential_handlers(2)] le_less_trans [OF potential_handlers(3)]
      le_less_trans [OF potential_handlers(4)] le_less_trans [OF potential_handlers(5)]
      le_less_trans [OF potential_handlers(6)])

text \<open>Runs of enabled events make no new request.\<close>

interpretation rest_rank: ranked_steps rest_step enabled potential
  by unfold_locales (rule enabled_decreases)

interpretation rest_reach: steps rest_step rest_reachable
  by unfold_locales (rule rest_reachable.step)

lemma enabled_requests_nothing: "enabled_run enabled rest_step es c \<Longrightarrow> requested es = []"
proof (induction es arbitrary: c)
  case (Cons e es)
  then have "requested [e] = []" "requested es = []" by (cases e; auto)+
  then show ?case by (simp add: requested_Cons [of e es])
qed simp

lemma reachable_holds: "rest_reachable c \<Longrightarrow> holds_handler c"
proof (induction rule: rest_reachable.induct)
  case (start b)
  show ?case by (simp add: holds_handler_def set_keep_alive_def new_RestClient_def)
qed (simp add: account_step)

lemma answered_when_quiet:
  assumes c: "rest_reachable c" and run: "enabled_run enabled rest_step es c" and quiet: "\<not> (\<exists>e. enabled e (fold rest_step es c))"
  shows "mset (map fst (rc_log (fold rest_step es c))) = account c"
proof -
  let ?d = "fold rest_step es c"
  have "\<not> rc_in_flight ?d" using in_flight_enabled rest_reach.always [OF c] quiet by blast
  then have "rc_cb ?d = None"
    using account_run [OF reachable_holds [OF c], of es] by (simp add: holds_handler_def)
  then show ?thesis
    using account_run [OF reachable_holds [OF c], of es] enabled_requests_nothing [OF run] by (simp add: account_def)
qed

text \<open>A request on a client with nothing pending starts from a potential of ten.\<close>

lemma potential_request:
  assumes "\<not> rc_in_flight c" and "rc_pending c = []" and "\<not> bad_target t"
  shows "potential (async_request v h p t b k c) \<le> 10"
  using assms by (auto simp: async_request_def potential_def reset_per_request_state_def rest_timer_defs Let_def)

text \<open>C34: Every request ends, and ends in its handler. From a reachable client with no request and no operation under
  way, a well-formed GET goes through at most ten completions and timer expiries, in whatever order
  and with whatever outcomes they come; and when none is left to wait for, the handler of the request
  has been called, once, and no other.\<close>

theorem rest_requests_terminate:
  assumes "rest_reachable c" and "\<not> rc_in_flight c" and "rc_pending c = []" and "\<not> bad_target target"
    and "enabled_run enabled rest_step es (rest_step (DoGet host port target k) c)"
  shows "length es \<le> 10 \<and>
    (\<not> (\<exists>e. enabled e (fold rest_step es (rest_step (DoGet host port target k) c))) \<longrightarrow>
      mset (map fst (rc_log (fold rest_step es (rest_step (DoGet host port target k) c)))) = mset (map fst (rc_log c)) + {#k#})"
proof -
  let ?c = "rest_step (DoGet host port target k) c"
  have "potential ?c \<le> 10" using potential_request assms(2-4) by (simp add: async_get_def)
  then have "length es \<le> 10" using rest_rank.run_bound [OF assms(5)] by simp
  moreover note answered_when_quiet [OF rest_reachable.step [OF assms(1)] assms(5)]
  moreover have "account ?c = account c + {#k#}"
    using account_step [OF reachable_holds [OF assms(1)], of "DoGet host port target k"] by simp
  moreover have "account c = mset (map fst (rc_log c))"
    using reachable_holds [OF assms(1)] assms(2) by (simp add: account_def holds_handler_def)
  ultimately show ?thesis by simp
qed

text \<open>A request on a fresh client whose connection succeeds and whose peer then closes without a reply.\<close>

definition sample_run :: "rest_event list" where
  "sample_run = [Resolve None, TcpConnect None None, TlsHandshakeDone None, Written None, ReadResponse (Inl Eof),
     ShutDown None]"

theorem rest_requests_terminate_witness:
  "enabled_run enabled rest_step sample_run (rest_step (DoGet ''h'' ''443'' ''/t'' 7) (set_keep_alive False new_RestClient)) \<and>
   length sample_run \<le> 10 \<and>
   mset (map fst (rc_log (fold rest_step sample_run
     (rest_step (DoGet ''h'' ''443'' ''/t'' 7) (set_keep_alive False new_RestClient))))) = {#7#}"
proof -
  let ?i = "set_keep_alive False new_RestClient"
  let ?c = "rest_step (DoGet ''h'' ''443'' ''/t'' 7) ?i"
  have run: "enabled_run enabled rest_step sample_run ?c" by code_simp
  have "rc_pending (fold rest_step sample_run ?c) = [] \<and> \<not> rc_deadline_armed (fold rest_step sample_run ?c) \<and>
      \<not> rc_shutdown_armed (fold rest_step sample_run ?c)" by code_simp
  then have quiet: "\<not> enabled e (fold rest_step sample_run ?c)" for e by (cases e) simp_all
  have i: "\<not> rc_in_flight ?i" "rc_pending ?i = []" "\<not> bad_target ''/t''" "rc_log ?i = []"
    by (simp_all add: set_keep_alive_def new_RestClient_def bad_target_def)
  show ?thesis
    using run quiet i rest_requests_terminate [OF rest_reachable.start i(1,2,3) run] by simp
qed

section \<open>Completions of an earlier request\<close>

text \<open>C35: A completion does not say which request it belongs to. When a request has ended, by its deadline for
  example, while its name resolution was still pending, and the next request has been made, the late
  failure of the old resolution ends the new request with the old error: its handler is called with
  it while the resolution that the new request started is still pending, to be taken by the request after it.\<close>

theorem stale_completion_fails_next_request:
  assumes "rest_reachable c" and "\<not> rc_in_flight c" and "OpResolve \<in> set (rc_pending c)" and "\<not> bad_target target"
    and "\<not> can_reuse_connection (c\<lparr>rc_host := host, rc_port := port\<rparr>)"
  shows "rc_log (rest_step (Resolve (Some ec)) (rest_step (DoGet host port target k) c)) = rc_log c @ [(k, Some ec, [])] \<and>
     \<not> rc_in_flight (rest_step (Resolve (Some ec)) (rest_step (DoGet host port target k) c)) \<and>
     OpResolve \<in> set (rc_pending (rest_step (Resolve (Some ec)) (rest_step (DoGet host port target k) c)))"
proof -
  let ?c = "rest_step (DoGet host port target k) c"
  have r: "\<not> can_reuse_connection d" if "rc_tcp_connected d = False" for d :: rest_client
    using that by (simp add: can_reuse_connection_def)
  have n: "\<not> can_reuse_connection d" if "rc_keep_alive d = rc_keep_alive c" "rc_tcp_connected d = rc_tcp_connected c"
    "rc_tls_handshook d = rc_tls_handshook c" "rc_host d = host" "rc_port d = port"
    "rc_connected_host d = rc_connected_host c" "rc_connected_port d = rc_connected_port c"
    "rc_socket_open d = rc_socket_open c" for d
    using assms(5) that by (auto simp: can_reuse_connection_def split: if_splits)
  have s: "rc_pending ?c = rc_pending c @ [OpResolve]" "rc_in_flight ?c" "rc_cb ?c = Some k" "rc_log ?c = rc_log c"
    "rc_final_ec ?c = None" "rc_response_body ?c = []" "\<not> rc_tcp_connected ?c"
    using assms(2,4)
    by (simp_all add: async_get_def async_request_def Let_def reset_per_request_state_def n r rest_timer_defs)
  have "rest_step (Resolve (Some ec)) ?c = finish (rest_close_socket (?c\<lparr>rc_pending := remove1 OpResolve (rc_pending ?c),
      rc_final_ec := Some ec\<rparr>))"
    using s by (simp add: complete_def rest_resolved_def rest_fail_def tls_up_def Let_def)
  then show ?thesis
    using s assms(3) by (simp_all add: finish_def call_handler_def rest_timer_defs Let_def remove1_append)
qed

definition timed_out_client :: rest_client where
  "timed_out_client = rest_step DeadlineFires (rest_step (DoGet ''h'' ''443'' ''/t'' 1) (set_keep_alive False new_RestClient))"

theorem stale_completion_fails_next_request_witness:
  "OpResolve \<in> set (rc_pending timed_out_client) \<and>
   rc_log (rest_step (Resolve (Some Aborted)) (rest_step (DoGet ''h'' ''443'' ''/u'' 2) timed_out_client)) =
     [(1, Some TimedOut, []), (2, Some Aborted, [])]"
proof -
  have "rest_reachable timed_out_client"
    unfolding timed_out_client_def by (intro rest_reachable.intros)
  moreover have "\<not> rc_in_flight timed_out_client" by code_simp
  moreover have p: "OpResolve \<in> set (rc_pending timed_out_client)" by code_simp
  moreover have "\<not> bad_target ''/u''" by code_simp
  moreover have "\<not> can_reuse_connection (timed_out_client\<lparr>rc_host := ''h'', rc_port := ''443''\<rparr>)" by code_simp
  ultimately have "rc_log (rest_step (Resolve (Some Aborted)) (rest_step (DoGet ''h'' ''443'' ''/u'' 2) timed_out_client)) =
      rc_log timed_out_client @ [(2, Some Aborted, [])]"
    by (rule stale_completion_fails_next_request [THEN conjunct1])
  moreover have "rc_log timed_out_client = [(1, Some TimedOut, [])]" by code_simp
  ultimately show ?thesis using p by simp
qed

end
