(* ===== verification/Backtest.thy ===== *)
theory Backtest
  imports BrainCmdLine ArbDetector Sinks
begin

text \<open>
  The synchronous replay of recorded events: \<^verbatim>\<open>brain/include/brain/BacktestEngine.hpp\<close> with
  \<^verbatim>\<open>brain/src/brain/BacktestEngine.cpp\<close>, which puts a unified book and a detector without output file
  behind one call per line, and the program \<^verbatim>\<open>brain/app/zidabot_replay.cpp\<close>, which feeds it the lines
  of the standard input. The two clock readings of a line, by the book and by the detector, are
  arguments. The result of \<^verbatim>\<open>boost::program_options\<close> is the record \<open>replay_vm\<close>, \<open>None\<close> standing for its
  error. The lemmas follow a recording of the feed's line file through the replay.
\<close>

section \<open>The engine\<close>

record backtest =
  bt_depth :: nat
  bt_min_spread_bps :: double
  bt_max_spread_bps :: double
  bt_rate_limit_ns :: i64
  bt_max_age_ns :: i64
  bt_max_price_deviation_pct :: double
  bt_last_updated :: string
  bt_book :: unified_book
  bt_arb :: detector

definition make_arb :: "double \<Rightarrow> double \<Rightarrow> i64 \<Rightarrow> i64 \<Rightarrow> double \<Rightarrow> detector" where
  "make_arb min_bps max_bps limit max_age max_dev =
     new_ArbDetector (\<lambda>_. True) Map.empty min_bps max_bps limit max_age max_dev '''' 0 Map.empty"

definition new_BacktestEngine :: "nat \<Rightarrow> double \<Rightarrow> double \<Rightarrow> i64 \<Rightarrow> i64 \<Rightarrow> double \<Rightarrow> backtest" where
  "new_BacktestEngine depth min_bps max_bps limit max_age max_dev =
     \<lparr>bt_depth = depth, bt_min_spread_bps = min_bps, bt_max_spread_bps = max_bps, bt_rate_limit_ns = limit,
      bt_max_age_ns = max_age, bt_max_price_deviation_pct = max_dev, bt_last_updated = [],
      bt_book = new_UnifiedBook depth, bt_arb = make_arb min_bps max_bps limit max_age max_dev\<rparr>"

text \<open>The \<^verbatim>\<open>catch (...)\<close> leaves what was done before the exception; nothing is done before one.\<close>

definition feed_event :: "'j json_api \<Rightarrow> i64 \<Rightarrow> i64 \<Rightarrow> string \<Rightarrow> backtest \<Rightarrow> ArbCross list \<times> backtest" where
  "feed_event J now now' line b =
     (let b = b\<lparr>bt_last_updated := []\<rparr>
      in case j_parse J line of None \<Rightarrow> ([], b)
         | Some j \<Rightarrow>
             (case on_event J now j (bt_book b) of Inl e \<Rightarrow> ([], b)
              | Inr (updated, ub) \<Rightarrow>
                  (let b = b\<lparr>bt_last_updated := updated, bt_book := ub\<rparr>
                   in if updated \<noteq> [] \<and> synced_count ub \<ge> 2
                      then (let (d, crosses) = scan J now' (ub_books ub) (bt_arb b) in (crosses, b\<lparr>bt_arb := d\<rparr>))
                      else ([], b))))"

definition bt_synced_count :: "backtest \<Rightarrow> nat" where
  "bt_synced_count b = synced_count (bt_book b)"

record BBO =
  bbo_bid_tick :: i64
  bbo_ask_tick :: i64
  bbo_ts_ns :: i64

text \<open>The search of both queries: the first synced entry with the venue's name.\<close>

definition synced_entry :: "string \<Rightarrow> backtest \<Rightarrow> venue_book option" where
  "synced_entry v b = List.find (\<lambda>vb. UnifiedBook.venue_name vb = v \<and> synced vb) (ub_books (bt_book b))"

definition bbo :: "string \<Rightarrow> backtest \<Rightarrow> BBO" where
  "bbo v b =
     (case synced_entry v b of
        Some vb \<Rightarrow> \<lparr>bbo_bid_tick = priceTick (best_bid (vb_book vb)), bbo_ask_tick = priceTick (best_ask (vb_book vb)),
                    bbo_ts_ns = ts_book_ns vb\<rparr>
      | None \<Rightarrow> \<lparr>bbo_bid_tick = 0, bbo_ask_tick = 0, bbo_ts_ns = 0\<rparr>)"

record BookDepth =
  bd_venue :: string
  bd_ts_ns :: i64
  bd_bids :: "(i64 \<times> i64) list"
  bd_asks :: "(i64 \<times> i64) list"

definition level_pair :: "level \<Rightarrow> i64 \<times> i64" where
  "level_pair l = (priceTick l, quantityLot l)"

definition bt_levels :: "string \<Rightarrow> nat \<Rightarrow> backtest \<Rightarrow> BookDepth" where
  "bt_levels v n b =
     (let limit = (if n = 0 then bt_depth b else min n (bt_depth b))
      in case synced_entry v b of
           Some vb \<Rightarrow> \<lparr>bd_venue = v, bd_ts_ns = ts_book_ns vb,
              bd_bids = map level_pair (ptr_levels (bid_ptr (vb_book vb)) 0 limit),
              bd_asks = map level_pair (ptr_levels (ask_ptr (vb_book vb)) 0 limit)\<rparr>
         | None \<Rightarrow> \<lparr>bd_venue = v, bd_ts_ns = 0, bd_bids = [], bd_asks = []\<rparr>)"

definition bt_reset :: "backtest \<Rightarrow> backtest" where
  "bt_reset b = b\<lparr>bt_book := new_UnifiedBook (bt_depth b),
     bt_arb := make_arb (bt_min_spread_bps b) (bt_max_spread_bps b) (bt_rate_limit_ns b) (bt_max_age_ns b)
       (bt_max_price_deviation_pct b)\<rparr>"

section \<open>The replay program\<close>

record replay_vm =
  rv_help :: bool
  rv_depth :: nat
  rv_min_spread_bps :: double
  rv_max_spread_bps :: double
  rv_rate_limit_ms :: i64
  rv_max_age_ms :: i64
  rv_max_price_deviation_pct :: double
  rv_emit_books :: bool
  rv_book_depth :: nat

text \<open>The values of the options that are not given.\<close>

definition replay_defaults :: replay_vm where
  "replay_defaults = \<lparr>rv_help = False, rv_depth = 50, rv_min_spread_bps = Fin 0, rv_max_spread_bps = Fin 0,
     rv_rate_limit_ms = 0, rv_max_age_ms = 5000, rv_max_price_deviation_pct = Fin 0, rv_emit_books = False,
     rv_book_depth = 0\<rparr>"

text \<open>A member that is never pushed to stays null.\<close>

definition pairs_json :: "'j json_api \<Rightarrow> (i64 \<times> i64) list \<Rightarrow> 'j" where
  "pairs_json J ls =
     (if ls = [] then mk_null J else mk_arr J (map (\<lambda>(t, q). mk_arr J [mk_i64 J t, mk_i64 J q]) ls))"

definition book_line :: "'j json_api \<Rightarrow> BookDepth \<Rightarrow> string" where
  "book_line J bd = j_dump J (mk_obj J [(''type'', mk_str J ''book''), (''venue'', mk_str J (bd_venue bd)),
     (''ts_ns'', mk_i64 J (bd_ts_ns bd)), (''bids'', pairs_json J (bd_bids bd)), (''asks'', pairs_json J (bd_asks bd))])
     @ newline"

definition replay_cross_line :: "'j json_api \<Rightarrow> ArbCross \<Rightarrow> string" where
  "replay_cross_line J c = j_dump J (mk_obj J [(''type'', mk_str J ''cross''), (''sell_venue'', mk_str J (sell_venue c)),
     (''buy_venue'', mk_str J (buy_venue c)), (''sell_bid_tick'', mk_i64 J (sell_bid_tick c)),
     (''buy_ask_tick'', mk_i64 J (buy_ask_tick c)), (''spread_bps'', mk_dbl J (spread_bps c)),
     (''ts_detected_ns'', mk_i64 J (ts_detected_ns c)), (''sell_ts_book_ns'', mk_i64 J (sell_ts_book_ns c)),
     (''buy_ts_book_ns'', mk_i64 J (buy_ts_book_ns c)),
     (''lag_ns'', mk_i64 J (ts_detected_ns c - max (sell_ts_book_ns c) (buy_ts_book_ns c)))]) @ newline"

definition replay_line :: "'j json_api \<Rightarrow> replay_vm \<Rightarrow> i64 \<Rightarrow> i64 \<Rightarrow> string \<Rightarrow> backtest \<Rightarrow> string list \<times> backtest" where
  "replay_line J vm now now' line b =
     (if line = [] then ([], b)
      else let (crosses, b) = feed_event J now now' line b;
               v = bt_last_updated b;
               bd = bt_levels v (rv_book_depth vm) b;
               books = (if rv_emit_books vm \<and> v \<noteq> [] \<and> (bd_bids bd \<noteq> [] \<or> bd_asks bd \<noteq> []) then [book_line J bd] else [])
           in (books @ map (replay_cross_line J) crosses, b))"

text \<open>The loop over the input; \<open>clock n\<close> are the readings for the line at position \<open>n\<close>.\<close>

fun replay_loop ::
  "'j json_api \<Rightarrow> replay_vm \<Rightarrow> (nat \<Rightarrow> i64 \<times> i64) \<Rightarrow> nat \<Rightarrow> string list \<Rightarrow> backtest \<Rightarrow> string list \<times> backtest" where
  "replay_loop J vm clock n [] b = ([], b)"
| "replay_loop J vm clock n (line # rest) b =
     (let (out, b) = replay_line J vm (fst (clock n)) (snd (clock n)) line b;
          (outs, b) = replay_loop J vm clock (Suc n) rest b
      in (out @ outs, b))"

text \<open>The limits in milliseconds become nanoseconds; the products are those of the program as long as they
  fit 64 bits, that is up to 9223372036854 ms.\<close>

definition replay_engine :: "replay_vm \<Rightarrow> backtest" where
  "replay_engine vm = new_BacktestEngine (rv_depth vm) (rv_min_spread_bps vm) (rv_max_spread_bps vm)
     (rv_rate_limit_ms vm * 1000000) (rv_max_age_ms vm * 1000000) (rv_max_price_deviation_pct vm)"

definition replay_text :: "'j json_api \<Rightarrow> replay_vm \<Rightarrow> (nat \<Rightarrow> i64 \<times> i64) \<Rightarrow> string \<Rightarrow> string list \<times> backtest" where
  "replay_text J vm clock input = replay_loop J vm clock 0 (getline_tokens (CHR 0x0A) input) (replay_engine vm)"

text \<open>\<^verbatim>\<open>main\<close>: the exit code and what is written to the standard output, the help text being \<open>help\<close>.\<close>

definition replay_main :: "'j json_api \<Rightarrow> string \<Rightarrow> (nat \<Rightarrow> i64 \<times> i64) \<Rightarrow> replay_vm option \<Rightarrow> string \<Rightarrow> int \<times> string" where
  "replay_main J help clock parsed input =
     (case parsed of None \<Rightarrow> (1, [])
      | Some vm \<Rightarrow> if rv_help vm then (0, help @ newline) else (0, concat (fst (replay_text J vm clock input))))"

section \<open>Recordings\<close>

text \<open>The feed's line file as the recorder of a run: each event is written and taken by the writer
  thread before the next one comes. So the queue, of 10000 lines, never overflows in a recording; a writer that falls
  behind by more loses lines in the program. Status events are not persisted.\<close>

fun persist_to_file :: "'j json_api \<Rightarrow> i64 \<Rightarrow> pub_event \<Rightarrow> file_sink \<Rightarrow> file_sink" where
  "persist_to_file J now (PubSnapshot m src) f = write_snapshot J now m src f"
| "persist_to_file J now (PubIncremental i src) f = write_incremental J now i src f"
| "persist_to_file J now (PubBook bk aseq n src ts) f = write_book_state J now bk aseq n src ts f"
| "persist_to_file J now (PubStatus _ _) f = f"

definition record_event :: "'j json_api \<Rightarrow> i64 \<times> pub_event \<Rightarrow> file_sink \<Rightarrow> file_sink" where
  "record_event J p f = writer_round (persist_to_file J (fst p) (snd p) f)"

definition record_events :: "'j json_api \<Rightarrow> (i64 \<times> pub_event) list \<Rightarrow> file_sink \<Rightarrow> file_sink" where
  "record_events J = fold (record_event J)"

text \<open>What an event means for the unified book, without JSON and without a clock.\<close>

fun event_ts :: "pub_event \<Rightarrow> i64" where
  "event_ts (PubSnapshot m _) = snap_ts_recv_ns m"
| "event_ts (PubIncremental i _) = inc_ts_recv_ns i"
| "event_ts (PubBook _ _ _ _ ts) = ts"
| "event_ts (PubStatus _ _) = 0"

fun event_entry :: "pub_event \<Rightarrow> venue_book \<Rightarrow> venue_book" where
  "event_entry (PubSnapshot m _) vb =
     (let (act, c) = onSnapshot m WsAuthoritativeBaseline (vb_controller vb)
      in vb\<lparr>ts_book_ns := snap_ts_recv_ns m, feed_healthy := (act \<noteq> NeedResync), vb_controller := c\<rparr>)"
| "event_entry (PubIncremental i _) vb =
     vb\<lparr>ts_book_ns := inc_ts_recv_ns i, feed_healthy := True, vb_controller := snd (onIncrement i (vb_controller vb))\<rparr>"
| "event_entry (PubBook bk aseq n _ ts) vb =
     vb\<lparr>ts_book_ns := ts, feed_healthy := True,
        vb_controller := snd (onSnapshot \<lparr>lastUpdateId = aseq, snap_ts_recv_ns = ts, snap_checksum = 0,
          snap_bids = take n (ob_bids bk), snap_asks = take n (ob_asks bk)\<rparr> WsAuthoritativeBaseline (vb_controller vb))\<rparr>"
| "event_entry (PubStatus _ _) vb = vb"

definition apply_recorded :: "string \<Rightarrow> string \<Rightarrow> pub_event \<Rightarrow> unified_book \<Rightarrow> unified_book" where
  "apply_recorded v y e ub =
     (case find_or_create v y ub of Inl _ \<Rightarrow> ub
      | Inr (ub1, i) \<Rightarrow> ub1\<lparr>ub_books := (ub_books ub1)[i := event_entry e (ub_books ub1 ! i)]\<rparr>)"

text \<open>Events that survive the line format: integers in range, sound levels, ASCII texts.\<close>

definition level_line_ok :: "level \<Rightarrow> bool" where
  "level_line_ok l \<longleftrightarrow> level_wire_ok l \<and> clean_string (price l) \<and> clean_string (quantity l)"

fun event_text_ok :: "pub_event \<Rightarrow> bool" where
  "event_text_ok (PubSnapshot m src) \<longleftrightarrow> snap_wire_ok m \<and> clean_string src \<and>
     list_all level_line_ok (snap_bids m) \<and> list_all level_line_ok (snap_asks m)"
| "event_text_ok (PubIncremental i src) \<longleftrightarrow> inc_wire_ok i \<and> clean_string src \<and>
     list_all level_line_ok (inc_bids i) \<and> list_all level_line_ok (inc_asks i)"
| "event_text_ok (PubBook bk _ _ src ts) \<longleftrightarrow> book_wire_ok bk \<and> i64_ok ts \<and> clean_string src \<and>
     list_all level_line_ok (ob_bids bk) \<and> list_all level_line_ok (ob_asks bk)"
| "event_text_ok (PubStatus _ _) \<longleftrightarrow> False"

text \<open>The value an event is written as, and the documented form of \<^verbatim>\<open>dump()\<close> without indentation: one
  line that is not empty.\<close>

fun event_json :: "'j json_api \<Rightarrow> string \<Rightarrow> string \<Rightarrow> u64 \<Rightarrow> i64 \<Rightarrow> pub_event \<Rightarrow> 'j" where
  "event_json J v y seq now (PubSnapshot m src) = snapshot_json J v y seq now m src"
| "event_json J v y seq now (PubIncremental i src) = incremental_json J v y seq now i src"
| "event_json J v y seq now (PubBook bk aseq n src ts) = book_state_json J v y seq now bk aseq n src ts"
| "event_json J v y seq now (PubStatus st why) = status_json J v y now st why"

definition one_line_dump :: "'j json_api \<Rightarrow> bool" where
  "one_line_dump J \<longleftrightarrow> (\<forall>j. j_dump J j \<noteq> [] \<and> CHR 0x0A \<notin> set (j_dump J j))"

lemma tree_api_one_line: "one_line_dump tree_api"
  by (simp add: one_line_dump_def tree_encode_def)

section \<open>Reading a recording back\<close>

lemma clean_levels:
  assumes "json_denotes J den" and "list_all level_line_ok ls"
  shows "clean (den (mk_arr J (map (level_json J) ls)))"
  using assms(2)
  by (auto simp: den_leaf [OF assms(1)] level_json_def clean_built [OF assms(1)] list_all_iff level_line_ok_def)

lemma clean_event:
  assumes "json_denotes J den" and "event_text_ok e" and "clean_string v" and "clean_string y"
  shows "clean (den (event_json J v y seq now e))"
proof (cases e)
  case (PubBook bk aseq n src ts)
  have "list_all level_line_ok (take n (ob_bids bk))" "list_all level_line_ok (take n (ob_asks bk))" "book_inv bk"
    using assms(2) by (auto simp: PubBook book_wire_ok_def list_all_iff dest: in_set_takeD)
  then show ?thesis
    using assms(2-4) clean_levels [OF assms(1)]
    by (simp add: PubBook book_state_json_def clean_built [OF assms(1)] levels_from_book_def book_side_levels
        den_leaf(1-4) [OF assms(1)])
qed (use assms(2-4) clean_levels [OF assms(1)] in
    \<open>simp_all add: snapshot_json_def incremental_json_def clean_built [OF assms(1)] levels_to_json_def den_leaf(1-4) [OF assms(1)]\<close>)

lemma sanitize_past: "ts \<le> now + kMaxFutureNs \<Longrightarrow> sanitize_ts ts now = ts"
  by (simp add: sanitize_ts_def)

lemma find_or_create_ok:
  assumes "0 < ub_depth ub"
  obtains ub1 i where "find_or_create v y ub = Inr (ub1, i)" and "i < length (ub_books ub1)" and "ub_depth ub1 = ub_depth ub"
    and "\<forall>x. set ((ub_books ub1)[i := x]) \<subseteq> insert x (set (ub_books ub))"
proof (cases "find_book v y (ub_books ub)")
  case None
  obtain vb where "new_VenueBook v y (ub_depth ub) = Inr vb" using assms by (rule new_VenueBook_ok)
  then show thesis
    using None by (intro that [of "ub\<lparr>ub_books := ub_books ub @ [vb]\<rparr>" "length (ub_books ub)"]) (simp_all add: find_or_create_def)
next
  case (Some i)
  then show thesis
    using find_book_Some [OF Some] by (intro that [of ub i]) (simp_all add: find_or_create_def set_update_subset_insert)
qed

text \<open>A value that denotes a recorded event acts on the books as the event.\<close>

lemma on_event_recorded:
  assumes "json_denotes J den" and "den j = den (event_json J v y seq t e)" and "event_text_ok e"
    and "v \<noteq> []" and "event_ts e \<le> now + kMaxFutureNs" and "0 < ub_depth ub"
  shows "on_event J now j ub = Inr (v, apply_recorded v y e ub)"
proof -
  have entry: "\<exists>et. et \<noteq> [] \<and> parse_header J j = Some \<lparr>schema_version = 1, event_type = et, venue = v, eh_symbol = y\<rparr> \<and>
      (\<forall>vb. handle_event J now et j vb = (event_entry e vb, Handled))"
  proof (cases e)
    case (PubSnapshot m src)
    then have "snap_wire_ok m" using assms(3) by simp
    note p = parse_snapshot_back [OF assms(1) assms(2) [unfolded PubSnapshot event_json.simps] this]
    show ?thesis
      using assms(5) p
      by (intro exI [of _ "''snapshot''"])
        (auto simp: PubSnapshot handle_event_def on_snapshot_event_def sanitize_past Let_def split: prod.split)
  next
    case (PubIncremental i src)
    then have "inc_wire_ok i" using assms(3) by simp
    note p = parse_incremental_back [OF assms(1) assms(2) [unfolded PubIncremental event_json.simps] this]
    show ?thesis
      using assms(5) p
      by (intro exI [of _ "''incremental''"])
        (auto simp: PubIncremental handle_event_def on_incremental_event_def sanitize_past Let_def)
  next
    case (PubBook bk aseq n src ts)
    then have "book_wire_ok bk" "i64_ok ts" using assms(3) by simp_all
    note p = parse_book_state_back [OF assms(1) assms(2) [unfolded PubBook event_json.simps] this]
    show ?thesis
      using assms(5) p
      by (intro exI [of _ "''book_state''"])
        (auto simp: PubBook handle_event_def on_book_state_event_def sanitize_past Let_def)
  qed (use assms(3) in simp)
  obtain ub1 i where "find_or_create v y ub = Inr (ub1, i)" using assms(6) by (rule find_or_create_ok)
  with entry assms(4) show ?thesis by (auto simp: on_event_def apply_recorded_def)
qed

lemma apply_recorded_depth: "ub_depth (apply_recorded v y e ub) = ub_depth ub"
  by (auto simp: apply_recorded_def find_or_create_def split: option.splits sum.splits)

text \<open>The lines of a recording.\<close>

definition recording :: "file_sink \<Rightarrow> bool" where
  "recording f \<longleftrightarrow> fs_queue f = [] \<and> (fs_gz f \<or> fs_out_open f) \<and> fs_max_file_bytes f = 0"

fun recorded_dumps :: "'j json_api \<Rightarrow> string \<Rightarrow> string \<Rightarrow> u64 \<Rightarrow> (i64 \<times> pub_event) list \<Rightarrow> string list" where
  "recorded_dumps J v y seq [] = []"
| "recorded_dumps J v y seq ((now, e) # evs) = j_dump J (event_json J v y (seq + 1) now e) # recorded_dumps J v y (seq + 1) evs"

lemma record_event_file:
  assumes "recording f" and "event_text_ok e"
  shows "recording (record_event J (now, e) f) \<and> fs_path (record_event J (now, e) f) = fs_path f \<and>
    fs_venue (record_event J (now, e) f) = fs_venue f \<and> fs_symbol (record_event J (now, e) f) = fs_symbol f \<and>
    fs_persist_seq (record_event J (now, e) f) = fs_persist_seq f + 1 \<and>
    fs_files (record_event J (now, e) f) = append_file (fs_path f)
      (j_dump J (event_json J (fs_venue f) (fs_symbol f) (fs_persist_seq f + 1) now e) @ newline) (fs_files f)"
proof -
  have q: "push_while persist_queue_cap x [] = [x]" for x :: string
    by (simp add: push_while_def persist_queue_cap_def)
  show ?thesis
    using assms
    by (cases e) (auto simp: record_event_def recording_def write_snapshot_def write_incremental_def write_book_state_def
        enqueue_line_def writer_round_def q Let_def)
qed

lemma record_events_file:
  assumes "recording f" and "list_all (\<lambda>p. event_text_ok (snd p)) evs" and "fs_files f (fs_path f) = Some old"
  shows "fs_files (record_events J evs f) (fs_path f) =
    Some (old @ concat (map (\<lambda>l. l @ newline) (recorded_dumps J (fs_venue f) (fs_symbol f) (fs_persist_seq f) evs)))"
  using assms
proof (induction evs arbitrary: f old)
  case (Cons p evs)
  obtain now e where [simp]: "p = (now, e)" by (cases p)
  let ?f = "record_event J (now, e) f"
  have r: "event_text_ok e" "list_all (\<lambda>p. event_text_ok (snd p)) evs" using Cons.prems(2) by simp_all
  note f = record_event_file [OF Cons.prems(1) r(1), of J now]
  have "fs_files ?f (fs_path ?f) =
      Some (old @ j_dump J (event_json J (fs_venue f) (fs_symbol f) (fs_persist_seq f + 1) now e) @ newline)"
    using f Cons.prems(3) by (simp add: append_file_def)
  from Cons.IH [OF _ r(2) this] f show ?case by (simp add: record_events_def)
qed (simp add: record_events_def)

lemma lines_of_dumps:
  "list_all (\<lambda>l. CHR 0x0A \<notin> set l) ls \<Longrightarrow> getline_tokens (CHR 0x0A) (concat (map (\<lambda>l. l @ newline) ls)) = ls"
  by (induction ls) (simp_all add: newline_def getline_tokens_sep getline_tokens.simps [of _ "[]"])

lemma recorded_dumps_lines:
  "one_line_dump J \<Longrightarrow> list_all (\<lambda>l. CHR 0x0A \<notin> set l) (recorded_dumps J v y seq evs)"
  by (induction J v y seq evs rule: recorded_dumps.induct) (simp_all add: one_line_dump_def)

lemma replay_line_engine: "line \<noteq> [] \<Longrightarrow> snd (replay_line J vm now now' line b) = snd (feed_event J now now' line b)"
  by (simp add: replay_line_def Let_def split: prod.split)

lemma replay_loop_append:
  "replay_loop J vm clock n (xs @ ys) b =
     (let (out, b) = replay_loop J vm clock n xs b; (outs, b) = replay_loop J vm clock (n + length xs) ys b in (out @ outs, b))"
  by (induction xs arbitrary: n b) (simp_all add: case_prod_beta Let_def)

text \<open>A set of recordings, one sink and its events for each, and what the sinks were when they began.\<close>

type_synonym recordings = "(file_sink \<times> (i64 \<times> pub_event) list) list"

definition recording_ok :: "i64 \<Rightarrow> file_sink \<times> (i64 \<times> pub_event) list \<Rightarrow> bool" where
  "recording_ok last_ts r \<longleftrightarrow> recording (fst r) \<and> fs_files (fst r) (fs_path (fst r)) = Some [] \<and>
     clean_string (fs_venue (fst r)) \<and> clean_string (fs_symbol (fst r)) \<and> fs_venue (fst r) \<noteq> [] \<and>
     list_all (\<lambda>p. event_text_ok (snd p) \<and> event_ts (snd p) \<le> last_ts) (snd r)"

definition recorded_lines :: "'j json_api \<Rightarrow> recordings \<Rightarrow> string list" where
  "recorded_lines J rs = concat (map (\<lambda>r. recorded_dumps J (fs_venue (fst r)) (fs_symbol (fst r)) (fs_persist_seq (fst r)) (snd r)) rs)"

definition recorded_text :: "'j json_api \<Rightarrow> recordings \<Rightarrow> string" where
  "recorded_text J rs = concat (map (\<lambda>r. the (fs_files (record_events J (snd r) (fst r)) (fs_path (fst r)))) rs)"

definition recorded_books :: "recordings \<Rightarrow> unified_book \<Rightarrow> unified_book" where
  "recorded_books rs = fold (\<lambda>r. fold (apply_recorded (fs_venue (fst r)) (fs_symbol (fst r))) (map snd (snd r))) rs"

lemma recorded_text_lines:
  assumes "one_line_dump J" and "list_all (recording_ok last_ts) rs"
  shows "getline_tokens (CHR 0x0A) (recorded_text J rs) = recorded_lines J rs"
proof -
  have "recorded_text J rs = concat (map (\<lambda>l. l @ newline) (recorded_lines J rs))"
    using assms(2)
  proof (induction rs)
    case (Cons r rs)
    have "fs_files (record_events J (snd r) (fst r)) (fs_path (fst r)) = Some ([] @ concat (map (\<lambda>l. l @ newline)
        (recorded_dumps J (fs_venue (fst r)) (fs_symbol (fst r)) (fs_persist_seq (fst r)) (snd r))))"
      using Cons.prems by (intro record_events_file) (auto simp: recording_ok_def list_all_iff)
    with Cons show ?case by (simp add: recorded_text_def recorded_lines_def)
  qed (simp add: recorded_text_def recorded_lines_def)
  moreover have "list_all (\<lambda>l. CHR 0x0A \<notin> set l) (recorded_lines J rs)"
    by (auto simp: recorded_lines_def list_all_iff dest: recorded_dumps_lines [OF assms(1), unfolded list_all_iff, rule_format])
  ultimately show ?thesis by (simp add: lines_of_dumps)
qed

section \<open>Replaying a recording\<close>

definition sound_engine :: "i64 \<Rightarrow> i64 \<Rightarrow> backtest \<Rightarrow> bool" where
  "sound_engine last_ts age b \<longleftrightarrow> 0 < ub_depth (bt_book b) \<and> max_age_diff_ns (bt_arb b) = age \<and>
     (\<forall>vb \<in> set (ub_books (bt_book b)). ts_book_ns vb \<le> last_ts)"

lemma stale_scan:
  assumes "0 < max_age_diff_ns d" and "\<forall>vb \<in> set vs. max_age_diff_ns d < now - ts_book_ns vb"
  shows "scan J now vs d = (d, [])"
proof -
  let ?vs = "take kMaxVenues vs"
  have "scan_pair J now ?vs d p st = st" if "p \<in> set (all_pairs (length ?vs))" for p st
  proof -
    have "?vs ! fst p \<in> set vs" using that by (auto intro!: nth_mem)
    then have "\<not> eligible d now ?vs (?vs ! fst p) (?vs ! snd p)"
      using assms by (auto simp: eligible_def dest!: bspec)
    then show ?thesis by (simp add: scan_pair_def Let_def split: prod.split)
  qed
  then have "fold (scan_pair J now ?vs d) (all_pairs (length ?vs)) = id"
    by (intro fold_id) (auto simp: fun_eq_iff)
  then show ?thesis by (simp add: scan_pairs)
qed
lemma scan_keeps_age: "max_age_diff_ns (fst (scan J now vs d)) = max_age_diff_ns d"
  using fold_scan_pair_config [of d J now "take kMaxVenues vs" "all_pairs (length (take kMaxVenues vs))" "(d, [])"]
  by (simp add: scan_pairs same_config_def)

lemma apply_recorded_ts:
  assumes "event_text_ok e" and "event_ts e \<le> last_ts" and "\<forall>vb \<in> set (ub_books ub). ts_book_ns vb \<le> last_ts" and "0 < ub_depth ub"
  shows "\<forall>vb \<in> set (ub_books (apply_recorded v y e ub)). ts_book_ns vb \<le> last_ts"
proof -
  obtain ub1 i where f: "find_or_create v y ub = Inr (ub1, i)"
    and s: "\<forall>x. set ((ub_books ub1)[i := x]) \<subseteq> insert x (set (ub_books ub))"
    by (rule find_or_create_ok [OF assms(4), of v y])
  have "ts_book_ns (event_entry e vb) = event_ts e" for vb
    using assms(1) by (cases e) (simp_all split: prod.split)
  then show ?thesis using assms(2,3) spec [OF s, of "event_entry e (ub_books ub1 ! i)"] by (auto simp: apply_recorded_def f)
qed

text \<open>One recorded line: the books, the engine's invariant, and no cross when every book is too old.\<close>

lemma recorded_line:
  assumes "json_denotes J den" and "event_text_ok e" and "clean_string v" and "clean_string y" and "v \<noteq> []"
    and "event_ts e \<le> last_ts" and "last_ts \<le> now + kMaxFutureNs" and "sound_engine last_ts age b"
  shows "bt_book (snd (feed_event J now now' (j_dump J (event_json J v y seq t e)) b)) = apply_recorded v y e (bt_book b)"
    and "sound_engine last_ts age (snd (feed_event J now now' (j_dump J (event_json J v y seq t e)) b))"
    and "0 < age \<Longrightarrow> last_ts + age < now' \<Longrightarrow> fst (feed_event J now now' (j_dump J (event_json J v y seq t e)) b) = []"
proof -
  let ?ub = "apply_recorded v y e (bt_book b)"
  obtain j where j: "j_parse J (j_dump J (event_json J v y seq t e)) = Some j" "den j = den (event_json J v y seq t e)"
    using den_text [OF assms(1) clean_event [OF assms(1-4)]] by metis
  have d: "0 < ub_depth (bt_book b)" using assms(8) by (simp add: sound_engine_def)
  have ev: "on_event J now j (bt_book b) = Inr (v, ?ub)"
    by (rule on_event_recorded [OF assms(1) j(2) assms(2,5) _ d]) (use assms(6,7) in simp)
  note fe = feed_event_def [of J now now' "j_dump J (event_json J v y seq t e)" b] j(1) ev
  show "bt_book (snd (feed_event J now now' (j_dump J (event_json J v y seq t e)) b)) = ?ub"
    by (simp add: fe Let_def split: prod.split)
  have ts: "\<forall>vb \<in> set (ub_books ?ub). ts_book_ns vb \<le> last_ts"
    by (rule apply_recorded_ts [OF assms(2,6) _ d]) (use assms(8) in \<open>simp add: sound_engine_def\<close>)
  show "sound_engine last_ts age (snd (feed_event J now now' (j_dump J (event_json J v y seq t e)) b))"
    using ts d assms(8) by (simp add: fe sound_engine_def apply_recorded_depth scan_keeps_age Let_def case_prod_beta)
  assume "0 < age" and late: "last_ts + age < now'"
  then have "\<forall>vb \<in> set (ub_books ?ub). age < now' - ts_book_ns vb" using ts by force
  then have "scan J now' (ub_books ?ub) (bt_arb b) = (bt_arb b, [])"
    using \<open>0 < age\<close> assms(8) by (intro stale_scan) (simp_all add: sound_engine_def)
  then show "fst (feed_event J now now' (j_dump J (event_json J v y seq t e)) b) = []" by (simp add: fe Let_def)
qed

lemma replay_recording:
  assumes "json_denotes J den" and "one_line_dump J" and "recording_ok last_ts (f, evs)"
    and "\<forall>n. last_ts \<le> fst (clock n) + kMaxFutureNs" and "sound_engine last_ts age b"
  shows "bt_book (snd (replay_loop J vm clock n (recorded_dumps J (fs_venue f) (fs_symbol f) seq evs) b))
      = fold (apply_recorded (fs_venue f) (fs_symbol f)) (map snd evs) (bt_book b) \<and>
    sound_engine last_ts age (snd (replay_loop J vm clock n (recorded_dumps J (fs_venue f) (fs_symbol f) seq evs) b)) \<and>
    (0 < age \<and> (\<forall>n. last_ts + age < snd (clock n)) \<and> \<not> rv_emit_books vm \<longrightarrow>
      fst (replay_loop J vm clock n (recorded_dumps J (fs_venue f) (fs_symbol f) seq evs) b) = [])"
  using assms(3,5)
proof (induction evs arbitrary: n seq b)
  case (Cons p evs)
  obtain t e where [simp]: "p = (t, e)" by (cases p)
  let ?v = "fs_venue f" and ?y = "fs_symbol f"
  let ?l = "j_dump J (event_json J ?v ?y (seq + 1) t e)"
  let ?r = "replay_line J vm (fst (clock n)) (snd (clock n)) ?l b"
  have ne: "?l \<noteq> []" using assms(2) by (simp add: one_line_dump_def)
  have p: "event_text_ok e" "clean_string ?v" "clean_string ?y" "?v \<noteq> []" "event_ts e \<le> last_ts"
    "recording_ok last_ts (f, evs)"
    using Cons.prems(1) by (simp_all add: recording_ok_def)
  note l = recorded_line [OF assms(1) p(1-5) assms(4) [rule_format] Cons.prems(2), where seq = "seq + 1" and t = t]
  have b: "bt_book (snd ?r) = apply_recorded ?v ?y e (bt_book b)" "sound_engine last_ts age (snd ?r)"
    unfolding replay_line_engine [OF ne] by (rule l)+
  have o: "fst ?r = []" if "0 < age \<and> (\<forall>n. last_ts + age < snd (clock n)) \<and> \<not> rv_emit_books vm"
    using that l(3) [of "snd (clock n)"] ne by (simp add: replay_line_def Let_def case_prod_beta)
  from Cons.IH [OF p(6) b(2), of "Suc n" "seq + 1"] o show ?case by (auto simp: b(1) case_prod_beta Let_def)
qed simp

lemma replay_recordings:
  assumes "json_denotes J den" and "one_line_dump J" and "list_all (recording_ok last_ts) rs"
    and "\<forall>n. last_ts \<le> fst (clock n) + kMaxFutureNs" and "sound_engine last_ts age b"
  shows "bt_book (snd (replay_loop J vm clock n (recorded_lines J rs) b)) = recorded_books rs (bt_book b) \<and>
    (0 < age \<and> (\<forall>n. last_ts + age < snd (clock n)) \<and> \<not> rv_emit_books vm \<longrightarrow>
      fst (replay_loop J vm clock n (recorded_lines J rs) b) = [])"
  using assms(3,5)
proof (induction rs arbitrary: n b)
  case (Cons r rs)
  obtain f evs where [simp]: "r = (f, evs)" by (cases r)
  let ?ls = "recorded_dumps J (fs_venue f) (fs_symbol f) (fs_persist_seq f) evs"
  have r: "recording_ok last_ts (f, evs)" "list_all (recording_ok last_ts) rs" using Cons.prems(1) by simp_all
  note one = replay_recording [OF assms(1,2) r(1) assms(4) Cons.prems(2), of vm n "fs_persist_seq f"]
  have "sound_engine last_ts age (snd (replay_loop J vm clock n ?ls b))" using one by blast
  from Cons.IH [OF r(2) this, of "n + length ?ls"] one show ?case
    by (auto simp: recorded_lines_def recorded_books_def replay_loop_append case_prod_beta Let_def)
qed (simp add: recorded_lines_def recorded_books_def)

lemma replay_engine_sound:
  "0 < rv_depth vm \<Longrightarrow> sound_engine last_ts (rv_max_age_ms vm * 1000000) (replay_engine vm)"
  by (simp add: sound_engine_def replay_engine_def new_BacktestEngine_def new_UnifiedBook_def make_arb_def
      new_ArbDetector_def Let_def)

text \<open>C36: A replay reproduces the recorded books. Take any recordings that feed handlers made with their line
  files, plain or compressed and without rotation: snapshots, incrementals and book states whose integers
  fit and whose texts are ASCII. Replaying the files one after the other, at any time not before they were made, leaves
  the engine with exactly the books that the recorded messages themselves give when they are applied in that order to
  one controller per venue and symbol. Nothing is lost or altered by the JSON text or by the lines.\<close>

theorem replay_reproduces_recorded_books:
  assumes "json_denotes J den" and "one_line_dump J" and "list_all (recording_ok last_ts) rs"
    and "\<forall>n. last_ts \<le> fst (clock n) + kMaxFutureNs" and "0 < rv_depth vm"
  shows "bt_book (snd (replay_text J vm clock (recorded_text J rs))) = recorded_books rs (new_UnifiedBook (rv_depth vm))"
proof -
  have "bt_book (replay_engine vm) = new_UnifiedBook (rv_depth vm)"
    by (simp add: replay_engine_def new_BacktestEngine_def)
  then show ?thesis
    unfolding replay_text_def recorded_text_lines [OF assms(2,3)]
    using replay_recordings [OF assms(1-4) replay_engine_sound [OF assms(5)]] by simp
qed

text \<open>C37: Old recordings show no crosses. The detector measures the age of a book with the clock of the machine. Whatever
  the recordings hold, also books that cross each other, a replay that runs more than the
  age limit after the newest recorded timestamp writes nothing at all, unless the limit is switched off or
  the books are to be printed.\<close>

theorem old_recordings_show_no_crosses:
  assumes "json_denotes J den" and "one_line_dump J" and "list_all (recording_ok last_ts) rs"
    and "\<forall>n. last_ts \<le> fst (clock n) + kMaxFutureNs" and "0 < rv_depth vm"
    and "0 < rv_max_age_ms vm" and "\<forall>n. last_ts + rv_max_age_ms vm * 1000000 < snd (clock n)"
    and "\<not> rv_emit_books vm" and "\<not> rv_help vm"
  shows "replay_main J help clock (Some vm) (recorded_text J rs) = (0, [])"
proof -
  have "fst (replay_text J vm clock (recorded_text J rs)) = []"
    unfolding replay_text_def recorded_text_lines [OF assms(2,3)]
    using replay_recordings [OF assms(1-4) replay_engine_sound [OF assms(5)]] assms(6-8) by simp
  then show ?thesis using assms(9) by (simp add: replay_main_def)
qed

text \<open>Two recordings whose books cross: the second venue bids more than the first one asks.\<close>

definition high_book :: order_book where
  "high_book = \<lparr>ob_depth = 5, ob_bids = [Level 105 3 ''105'' ''3''], ob_asks = [Level 106 1 ''106'' ''1'']\<rparr>"

definition demo_recordings :: recordings where
  "demo_recordings =
     [(new_FilePersistSink True Map.empty ''okx.jsonl'' ''okx'' ''BTCUSDT'' 0, [(6, PubBook okx_book 42 5 ''ws'' 4)]),
      (new_FilePersistSink True Map.empty ''bybit.jsonl.gz'' ''bybit'' ''BTCUSDT'' 0, [(7, PubBook high_book 9 5 ''ws'' 5)])]"

lemma demo_recordings_ok: "list_all (recording_ok 5) demo_recordings"
  by (simp add: demo_recordings_def recording_ok_def recording_def new_FilePersistSink_def append_file_def has_gzip_suffix_def
      okx_book_def high_book_def book_wire_ok_def inv_defs level_wire_ok_def level_line_ok_def i64_ok_def isEmpty_def)

lemma demo_recordings_cross:
  obtains vb1 vb2 where "ub_books (recorded_books demo_recordings (new_UnifiedBook 50)) = [vb1, vb2]" and "synced vb1" and "synced vb2"
    and "ask_tick vb1 = 101" and "bid_tick vb2 = 105"
proof -
  let ?e = "\<lparr>ob_depth = 50, ob_bids = [], ob_asks = []\<rparr>"
  have "ob_asks (update_level ASK (Level 101 1 ''101'' ''1'') (update_level BID (Level 99 2 ''99'' ''2'')
      (update_level BID (Level 100 5 ''100'' ''5'') ?e))) = [Level 101 1 ''101'' ''1'']" by code_simp
  moreover have "ob_bids (update_level ASK (Level 106 1 ''106'' ''1'') (update_level BID (Level 105 3 ''105'' ''3'') ?e))
      = [Level 105 3 ''105'' ''3'']" by code_simp
  ultimately show thesis
    using that
    by (simp add: recorded_books_def demo_recordings_def new_FilePersistSink_def apply_recorded_def event_eval
      onSnapshot_def resetBook_def load_snapshot_def clear_book_def sort_bids_def sort_asks_def okx_book_def high_book_def
      synced_def isSynced_def ask_tick_def bid_tick_def vb_book_def best_ask_def best_bid_def)
qed

theorem replay_reproduces_recorded_books_witness:
  "bt_book (snd (replay_text tree_api replay_defaults (\<lambda>n. (8, 9)) (recorded_text tree_api demo_recordings))) =
     recorded_books demo_recordings (new_UnifiedBook 50) \<and>
   synced_count (recorded_books demo_recordings (new_UnifiedBook 50)) = 2"
proof -
  have "\<forall>n. (5 :: i64) \<le> fst ((\<lambda>n. (8, 9)) n) + kMaxFutureNs" "0 < rv_depth replay_defaults"
    by (simp_all add: kMaxFutureNs_def replay_defaults_def)
  from replay_reproduces_recorded_books [OF tree_api_denotes tree_api_one_line demo_recordings_ok this]
  show ?thesis by (cases rule: demo_recordings_cross) (simp add: replay_defaults_def synced_count_def)
qed

theorem old_recordings_show_no_crosses_witness:
  "replay_main tree_api '''' (\<lambda>n. (5000000006, 5000000006)) (Some replay_defaults) (recorded_text tree_api demo_recordings) = (0, []) \<and>
   bid_tick (ub_books (recorded_books demo_recordings (new_UnifiedBook 50)) ! 1) >
     ask_tick (ub_books (recorded_books demo_recordings (new_UnifiedBook 50)) ! 0)"
proof
  show "replay_main tree_api '''' (\<lambda>n. (5000000006, 5000000006)) (Some replay_defaults) (recorded_text tree_api demo_recordings) = (0, [])"
    by (rule old_recordings_show_no_crosses [OF tree_api_denotes tree_api_one_line demo_recordings_ok])
      (simp_all add: kMaxFutureNs_def replay_defaults_def)
  show "bid_tick (ub_books (recorded_books demo_recordings (new_UnifiedBook 50)) ! 1) >
      ask_tick (ub_books (recorded_books demo_recordings (new_UnifiedBook 50)) ! 0)"
    by (cases rule: demo_recordings_cross) simp
qed

section \<open>Queries\<close>

text \<open>The depth query gives the best levels of the entry it finds.\<close>

lemma bt_levels_book:
  assumes "synced_entry v b = Some vb" and "book_inv (vb_book vb)"
  shows "bt_levels v n b = \<lparr>bd_venue = v, bd_ts_ns = ts_book_ns vb,
    bd_bids = map level_pair (take (if n = 0 then bt_depth b else min n (bt_depth b)) (ob_bids (vb_book vb))),
    bd_asks = map level_pair (take (if n = 0 then bt_depth b else min n (bt_depth b)) (ob_asks (vb_book vb)))\<rparr>"
  by (simp add: bt_levels_def assms(1) book_side_levels [OF assms(2)] Let_def)

text \<open>The queries know venues, not symbols: with two symbols of one venue, both synced, an event
  of the second is answered with the book of the first.\<close>

lemma queries_ignore_symbols:
  assumes "ub_books (bt_book b) = [vb1, vb2]" and "UnifiedBook.venue_name vb1 = v" and "UnifiedBook.venue_name vb2 = v"
    and "synced vb1"
  shows "synced_entry v b = Some vb1" and "synced_entry v (b\<lparr>bt_book := (bt_book b)\<lparr>ub_books := [vb1, vb2']\<rparr>\<rparr>) = Some vb1"
  using assms by (simp_all add: synced_entry_def)

text \<open>After a reset the engine is as constructed, but for the name of the venue updated last.\<close>

lemma reset_keeps_last_updated:
  "bt_reset b = (new_BacktestEngine (bt_depth b) (bt_min_spread_bps b) (bt_max_spread_bps b) (bt_rate_limit_ns b)
     (bt_max_age_ns b) (bt_max_price_deviation_pct b))\<lparr>bt_last_updated := bt_last_updated b\<rparr>"
  by (simp add: bt_reset_def new_BacktestEngine_def)

end
