(* ===== verification/PopMain.thy ===== *)
theory PopMain
  imports BrainCmdLine FeedHandler Sinks
begin

text \<open>
  The start-up of the feed process: the command line, \<^verbatim>\<open>feed/include/CmdLine.hpp\<close>, and \<^verbatim>\<open>feed/app/main.cpp\<close>,
  which creates one feed handler per symbol, each on a thread of its own, and serves their states as
  the health document. What \<^verbatim>\<open>boost::program_options\<close> has stored, with the declared defaults applied, is the
  record \<open>pop_vm\<close>; \<open>None\<close> is its error exception, a missing venue, or a configuration file that cannot be
  opened. The options of the log and of the debug output are left out with the output itself; whether the log
  file can be opened is an argument. Allocation does not fail.
\<close>

section \<open>The command line\<close>

record pop_vm =
  pv_help :: bool
  pv_venue :: string
  pv_base :: string
  pv_quote :: string
  pv_symbols :: "string option"
  pv_depthLevel :: int
  pv_ws_host :: "string option"
  pv_ws_port :: "string option"
  pv_ws_path :: "string option"
  pv_rest_host :: "string option"
  pv_rest_port :: "string option"
  pv_rest_path :: "string option"
  pv_brain_ws_host :: "string option"
  pv_brain_ws_port :: "string option"
  pv_brain_ws_path :: "string option"
  pv_brain_ws_insecure :: bool
  pv_brain_ws_certfile :: "string option"
  pv_brain_ws_keyfile :: "string option"
  pv_brain2_ws_host :: "string option"
  pv_brain2_ws_port :: "string option"
  pv_brain2_ws_path :: "string option"
  pv_brain2_ws_insecure :: bool
  pv_brain2_ws_certfile :: "string option"
  pv_brain2_ws_keyfile :: "string option"
  pv_persist_path :: "string option"
  pv_persist_book_every_updates :: int
  pv_persist_book_top :: int
  pv_rest_timeout_ms :: int
  pv_max_msg_rate :: int
  pv_validate_every :: int
  pv_require_checksum :: bool
  pv_health_port :: "16 word"

definition pop_defaults :: pop_vm where
  "pop_defaults = \<lparr>pv_help = False, pv_venue = [], pv_base = [], pv_quote = [], pv_symbols = None, pv_depthLevel = 400,
     pv_ws_host = None, pv_ws_port = None, pv_ws_path = None, pv_rest_host = None, pv_rest_port = None, pv_rest_path = None,
     pv_brain_ws_host = None, pv_brain_ws_port = None, pv_brain_ws_path = None, pv_brain_ws_insecure = False,
     pv_brain_ws_certfile = None, pv_brain_ws_keyfile = None, pv_brain2_ws_host = None, pv_brain2_ws_port = None,
     pv_brain2_ws_path = None, pv_brain2_ws_insecure = False, pv_brain2_ws_certfile = None, pv_brain2_ws_keyfile = None,
     pv_persist_path = None, pv_persist_book_every_updates = 0, pv_persist_book_top = 50, pv_rest_timeout_ms = 8000,
     pv_max_msg_rate = 0, pv_validate_every = 0, pv_require_checksum = False, pv_health_port = 0\<rparr>"

record CmdOptions =
  co_venue :: string
  co_base :: string
  co_quote :: string
  co_symbols :: "string option"
  co_depthLevel :: "int option"
  co_ws_host :: "string option"
  co_ws_port :: "string option"
  co_ws_path :: "string option"
  co_rest_host :: "string option"
  co_rest_port :: "string option"
  co_rest_path :: "string option"
  co_brain_ws_host :: "string option"
  co_brain_ws_port :: "string option"
  co_brain_ws_path :: "string option"
  co_brain_ws_insecure :: bool
  co_brain_ws_certfile :: "string option"
  co_brain_ws_keyfile :: "string option"
  co_brain2_ws_host :: "string option"
  co_brain2_ws_port :: "string option"
  co_brain2_ws_path :: "string option"
  co_brain2_ws_insecure :: bool
  co_brain2_ws_certfile :: "string option"
  co_brain2_ws_keyfile :: "string option"
  co_persist_path :: "string option"
  co_persist_book_every_updates :: int
  co_persist_book_top :: int
  co_rest_timeout_ms :: int
  co_max_msg_rate_per_sec :: int
  co_validate_every :: int
  co_require_checksum :: bool
  co_health_port :: "16 word"
  co_show_help :: bool

definition default_CmdOptions :: CmdOptions where
  "default_CmdOptions = \<lparr>co_venue = [], co_base = [], co_quote = [], co_symbols = None, co_depthLevel = None,
     co_ws_host = None, co_ws_port = None, co_ws_path = None, co_rest_host = None, co_rest_port = None, co_rest_path = None,
     co_brain_ws_host = None, co_brain_ws_port = None, co_brain_ws_path = None, co_brain_ws_insecure = False,
     co_brain_ws_certfile = None, co_brain_ws_keyfile = None, co_brain2_ws_host = None, co_brain2_ws_port = None,
     co_brain2_ws_path = None, co_brain2_ws_insecure = False, co_brain2_ws_certfile = None, co_brain2_ws_keyfile = None,
     co_persist_path = None, co_persist_book_every_updates = 0, co_persist_book_top = 50, co_rest_timeout_ms = 8000,
     co_max_msg_rate_per_sec = 0, co_validate_every = 0, co_require_checksum = False, co_health_port = 0,
     co_show_help = False\<rparr>"

definition parse_venue :: "string \<Rightarrow> VenueId" where
  "parse_venue v_raw =
     (let v = map lower_char v_raw
      in if v = ''binance'' then BINANCE
         else if v = ''okx'' then OKX
         else if v = ''bybit'' then BYBIT
         else if v = ''bitget'' then BITGET
         else if v = ''kucoin'' then KUCOIN
         else UNKNOWN)"

text \<open>\<^verbatim>\<open>if (vm.count(k)) out.k = ...\<close> leaves the member of \<^verbatim>\<open>out\<close> alone when the option is not given.\<close>

definition given :: "'a option \<Rightarrow> 'a option \<Rightarrow> 'a option" where
  "given v d = (case v of None \<Rightarrow> d | Some x \<Rightarrow> Some x)"

definition assign_cmd_options :: "pop_vm \<Rightarrow> CmdOptions \<Rightarrow> CmdOptions" where
  "assign_cmd_options vm out = out\<lparr>
     co_venue := pv_venue vm, co_base := pv_base vm, co_quote := pv_quote vm,
     co_symbols := given (pv_symbols vm) (co_symbols out), co_depthLevel := Some (pv_depthLevel vm),
     co_ws_host := given (pv_ws_host vm) (co_ws_host out), co_ws_port := given (pv_ws_port vm) (co_ws_port out),
     co_ws_path := given (pv_ws_path vm) (co_ws_path out), co_rest_host := given (pv_rest_host vm) (co_rest_host out),
     co_rest_port := given (pv_rest_port vm) (co_rest_port out), co_rest_path := given (pv_rest_path vm) (co_rest_path out),
     co_brain_ws_host := given (pv_brain_ws_host vm) (co_brain_ws_host out),
     co_brain_ws_port := given (pv_brain_ws_port vm) (co_brain_ws_port out),
     co_brain_ws_path := given (pv_brain_ws_path vm) (co_brain_ws_path out),
     co_brain_ws_insecure := pv_brain_ws_insecure vm,
     co_brain_ws_certfile := given (pv_brain_ws_certfile vm) (co_brain_ws_certfile out),
     co_brain_ws_keyfile := given (pv_brain_ws_keyfile vm) (co_brain_ws_keyfile out),
     co_brain2_ws_host := given (pv_brain2_ws_host vm) (co_brain2_ws_host out),
     co_brain2_ws_port := given (pv_brain2_ws_port vm) (co_brain2_ws_port out),
     co_brain2_ws_path := given (pv_brain2_ws_path vm) (co_brain2_ws_path out),
     co_brain2_ws_insecure := pv_brain2_ws_insecure vm,
     co_brain2_ws_certfile := given (pv_brain2_ws_certfile vm) (co_brain2_ws_certfile out),
     co_brain2_ws_keyfile := given (pv_brain2_ws_keyfile vm) (co_brain2_ws_keyfile out),
     co_persist_path := given (pv_persist_path vm) (co_persist_path out),
     co_persist_book_every_updates := max 0 (pv_persist_book_every_updates vm),
     co_persist_book_top := max 1 (pv_persist_book_top vm), co_rest_timeout_ms := max 1000 (pv_rest_timeout_ms vm),
     co_max_msg_rate_per_sec := max 0 (pv_max_msg_rate vm), co_validate_every := max 0 (pv_validate_every vm),
     co_require_checksum := pv_require_checksum vm, co_health_port := pv_health_port vm\<rparr>"

definition parse_cmdline :: "pop_vm option \<Rightarrow> CmdOptions \<Rightarrow> CmdOptions option" where
  "parse_cmdline parsed out =
     (case parsed of None \<Rightarrow> None
      | Some vm \<Rightarrow> if pv_help vm then Some (out\<lparr>co_show_help := True\<rparr>) else Some (assign_cmd_options vm out))"

section \<open>Symbols and files\<close>

definition make_binance_ws_topic :: "string \<Rightarrow> string" where
  "make_binance_ws_topic ws_symbol_only_lower = ws_symbol_only_lower @ ''@depth@100ms''"

definition is_blank :: "char \<Rightarrow> bool" where
  "is_blank c \<longleftrightarrow> c = CHR '' '' \<or> c = CHR 0x09"

definition trim_blanks :: "string \<Rightarrow> string" where
  "trim_blanks s = rev (dropWhile is_blank (rev (dropWhile is_blank s)))"

text \<open>The loop over the tokens; \<open>None\<close> is \<^verbatim>\<open>std::invalid_argument\<close>.\<close>

fun symbol_pairs :: "string list \<Rightarrow> (string \<times> string) list option" where
  "symbol_pairs [] = Some []"
| "symbol_pairs (raw # rest) =
     (let token = trim_blanks raw; slash = length (takeWhile (\<lambda>c. c \<noteq> CHR ''/'') token)
      in if token = [] then symbol_pairs rest
         else if slash = length token \<or> slash = 0 \<or> slash + 1 = length token then None
         else map_option (Cons (take slash token, drop (slash + 1) token)) (symbol_pairs rest))"

definition parse_symbols :: "string \<Rightarrow> (string \<times> string) list option" where
  "parse_symbols symbols_str = symbol_pairs (getline_tokens CHR '','' symbols_str)"

text \<open>\<^verbatim>\<open>find_last_of\<close>.\<close>

fun find_last_of :: "(char \<Rightarrow> bool) \<Rightarrow> string \<Rightarrow> nat option" where
  "find_last_of P [] = None"
| "find_last_of P (c # cs) =
     (case find_last_of P cs of Some i \<Rightarrow> Some (Suc i) | None \<Rightarrow> if P c then Some 0 else None)"

definition pair_suffix :: "string \<Rightarrow> string \<Rightarrow> string" where
  "pair_suffix b q = ''_'' @ b @ ''_'' @ q"

definition derive_persist_path :: "string \<Rightarrow> string \<Rightarrow> string \<Rightarrow> string" where
  "derive_persist_path base_path base quote =
     (if base_path = [] then []
      else let suffix = pair_suffix base quote;
               last_sep = find_last_of (\<lambda>c. c = CHR ''/'' \<or> c = CHR 0x5C) base_path
           in case find_last_of (\<lambda>c. c = CHR ''.'') base_path of None \<Rightarrow> base_path @ suffix
              | Some last_dot \<Rightarrow>
                  (if (case last_sep of None \<Rightarrow> False | Some sep \<Rightarrow> last_dot < sep) then base_path @ suffix
                   else let ext = drop last_dot base_path; stem = take last_dot base_path
                        in if ext = ''.gz'' then
                             (case find_last_of (\<lambda>c. c = CHR ''.'') stem of None \<Rightarrow> stem @ suffix @ ext
                              | Some second_dot \<Rightarrow>
                                  (if (case last_sep of None \<Rightarrow> True | Some sep \<Rightarrow> second_dot > sep)
                                   then take second_dot stem @ suffix @ drop second_dot stem @ ''.gz''
                                   else stem @ suffix @ ext))
                           else stem @ suffix @ ext))"

text \<open>\<^verbatim>\<open>static_cast<std::size_t>\<close> of an \<^verbatim>\<open>int\<close>, and the implicit conversion of the depth.\<close>

definition int_to_size :: "int \<Rightarrow> nat" where
  "int_to_size n = unat (word_of_int n :: u64)"

definition or_default :: "string \<Rightarrow> string \<Rightarrow> string \<Rightarrow> string" where
  "or_default host v d = (if host \<noteq> [] \<and> v = [] then d else v)"

text \<open>\<open>None\<close> is the exception of the symbol mapping for an unknown venue. The REST symbol is computed
  and not used.\<close>

definition build_cfg :: "CmdOptions \<Rightarrow> VenueId \<Rightarrow> string \<Rightarrow> string \<Rightarrow> string \<Rightarrow> FeedHandlerConfig option" where
  "build_cfg options vid base quote path =
     (case (map_ws_symbol vid base quote, map_rest_symbol vid base quote) of
        (Some ws_sym, Some rest_sym) \<Rightarrow>
          Some \<lparr>FeedHandlerConfig.venue_name = vid,
             cfg_symbol = (if vid = BINANCE then make_binance_ws_topic ws_sym else ws_sym),
             base_ccy = base, quote_ccy = quote,
             ws_host = or_keep (co_ws_host options) [], ws_port = or_keep (co_ws_port options) [],
             ws_path = or_keep (co_ws_path options) [], rest_host = or_keep (co_rest_host options) [],
             rest_port = or_keep (co_rest_port options) [], rest_path = or_keep (co_rest_path options) [],
             brain_ws_host = or_keep (co_brain_ws_host options) [],
             brain_ws_port = or_default (or_keep (co_brain_ws_host options) []) (or_keep (co_brain_ws_port options) []) ''443'',
             brain_ws_path = or_default (or_keep (co_brain_ws_host options) []) (or_keep (co_brain_ws_path options) []) ''/'',
             brain_ws_insecure = co_brain_ws_insecure options,
             brain_ws_certfile = or_keep (co_brain_ws_certfile options) [],
             brain_ws_keyfile = or_keep (co_brain_ws_keyfile options) [],
             brain2_ws_host = or_keep (co_brain2_ws_host options) [],
             brain2_ws_port = or_default (or_keep (co_brain2_ws_host options) []) (or_keep (co_brain2_ws_port options) []) ''443'',
             brain2_ws_path = or_default (or_keep (co_brain2_ws_host options) []) (or_keep (co_brain2_ws_path options) []) ''/'',
             brain2_ws_insecure = co_brain2_ws_insecure options,
             brain2_ws_certfile = or_keep (co_brain2_ws_certfile options) [],
             brain2_ws_keyfile = or_keep (co_brain2_ws_keyfile options) [],
             persist_path = path,
             cfg_persist_book_every_updates = int_to_size (co_persist_book_every_updates options),
             cfg_persist_book_top = int_to_size (co_persist_book_top options),
             rest_timeout_ms = co_rest_timeout_ms options, max_msg_rate_per_sec = co_max_msg_rate_per_sec options,
             validate_every = co_validate_every options, cfg_require_checksum = co_require_checksum options,
             depthLevel = int_to_size (or_keep (co_depthLevel options) 400)\<rparr>
      | _ \<Rightarrow> None)"

section \<open>The process\<close>

record pop_proc =
  pp_options :: CmdOptions
  pp_handlers :: "gfh list"
  pp_running :: bool

datatype pop_exit = ExitCode int | UncaughtException

definition symbol_list :: "CmdOptions \<Rightarrow> (string \<times> string) list option" where
  "symbol_list options =
     (case co_symbols options of Some s \<Rightarrow> parse_symbols s
      | None \<Rightarrow> if co_base options = [] \<or> co_quote options = [] then None else Some [(co_base options, co_quote options)])"

text \<open>The loop that creates the handlers: \<open>v n\<close> is the environment in which the handler at position \<open>n\<close> starts.\<close>

fun start_handlers ::
  "'j json_api \<Rightarrow> (string \<Rightarrow> bool) \<Rightarrow> controller \<Rightarrow> (nat \<Rightarrow> env) \<Rightarrow> CmdOptions \<Rightarrow> VenueId \<Rightarrow> bool \<Rightarrow> nat
    \<Rightarrow> (string \<times> string) list \<Rightarrow> pop_exit + gfh list" where
  "start_handlers J can_open null v options vid multi n [] = Inr []"
| "start_handlers J can_open null v options vid multi n ((base, quote) # rest) =
     (let base_persist = or_keep (co_persist_path options) [];
          path = (if multi then derive_persist_path base_persist base quote else base_persist)
      in case build_cfg options vid base quote path of None \<Rightarrow> Inl UncaughtException
         | Some cfg \<Rightarrow>
             (case init J can_open cfg (new_GenericFeedHandler null) of
                (ERROR, _) \<Rightarrow> Inl (ExitCode 1)
              | (OK, h) \<Rightarrow>
                  (case start (v n) h of
                     (ERROR, _) \<Rightarrow> Inl (ExitCode 2)
                   | (OK, h) \<Rightarrow>
                       map_sum id (Cons h) (start_handlers J can_open null v options vid multi (Suc n) rest))))"

definition pop_main ::
  "'j json_api \<Rightarrow> (string \<Rightarrow> bool) \<Rightarrow> bool \<Rightarrow> controller \<Rightarrow> (nat \<Rightarrow> env) \<Rightarrow> pop_vm option \<Rightarrow> pop_exit + pop_proc" where
  "pop_main J can_open log_ok null v parsed =
     (case parse_cmdline parsed default_CmdOptions of None \<Rightarrow> Inl (ExitCode 1)
      | Some options \<Rightarrow>
          (if co_show_help options then Inl (ExitCode 0)
           else if \<not> log_ok then Inl (ExitCode 1)
           else let vid = parse_venue (co_venue options)
                in if vid = UNKNOWN then Inl (ExitCode 1)
                   else case symbol_list options of None \<Rightarrow> Inl (ExitCode 1)
                     | Some symbols \<Rightarrow>
                         (if symbols = [] then Inl (ExitCode 1)
                          else map_sum id (\<lambda>hs. \<lparr>pp_options = options, pp_handlers = hs, pp_running = True\<rparr>)
                            (start_handlers J can_open null v options vid (length symbols > 1) 0 symbols))))"

text \<open>What the health callback reads of a handler; the configuration is the default one before \<open>init\<close>.\<close>

definition is_running :: "gfh \<Rightarrow> bool" where
  "is_running h = h_running h"

definition sync_state_str :: "gfh \<Rightarrow> string" where
  "sync_state_str h = sync_state_to_string (h_state h)"

definition resync_count :: "gfh \<Rightarrow> u64" where
  "resync_count h = h_resyncs h"

definition handler_json :: "'j json_api \<Rightarrow> gfh \<Rightarrow> 'j" where
  "handler_json J h = mk_obj J [(''base'', mk_str J (case h_cfg h of Some cfg \<Rightarrow> base_ccy cfg | None \<Rightarrow> [])),
     (''quote'', mk_str J (case h_cfg h of Some cfg \<Rightarrow> quote_ccy cfg | None \<Rightarrow> [])),
     (''state'', mk_str J (sync_state_str h)), (''running'', mk_bool J (is_running h)),
     (''resyncs'', mk_u64 J (resync_count h))]"

definition all_synced :: "gfh list \<Rightarrow> bool" where
  "all_synced hs \<longleftrightarrow> hs \<noteq> [] \<and> list_all (\<lambda>h. sync_state_str h = ''SYNCED'') hs"

definition pop_health_json :: "'j json_api \<Rightarrow> i64 \<Rightarrow> pop_proc \<Rightarrow> string" where
  "pop_health_json J uptime_s p = j_dump J (mk_obj J [(''ok'', mk_bool J (all_synced (pp_handlers p))),
     (''process'', mk_str J ''pop''), (''venue'', mk_str J (co_venue (pp_options p))),
     (''uptime_s'', mk_i64 J uptime_s), (''handlers'', mk_arr J (map (handler_json J) (pp_handlers p)))])"

text \<open>After the start: an event of one handler, or the signal, which posts \<^verbatim>\<open>stop()\<close> to every handler.\<close>

datatype pop_event = PopHandler nat env feed_event | PopSignal

fun pop_step :: "'j json_api \<Rightarrow> pop_event \<Rightarrow> pop_proc \<Rightarrow> pop_proc" where
  "pop_step J (PopHandler i v e) p =
     (if i < length (pp_handlers p) then p\<lparr>pp_handlers := (pp_handlers p)[i := feed_step J (v, e) (pp_handlers p ! i)]\<rparr> else p)"
| "pop_step J PopSignal p =
     (if \<not> pp_running p then p
      else p\<lparr>pp_handlers := map (\<lambda>h. snd (stop h)) (pp_handlers p), pp_running := False\<rparr>)"

section \<open>Symbol lists are read back\<close>

definition pair_ok :: "string \<times> string \<Rightarrow> bool" where
  "pair_ok p \<longleftrightarrow> fst p \<noteq> [] \<and> snd p \<noteq> [] \<and> CHR ''/'' \<notin> set (fst p) \<and> CHR '','' \<notin> set (fst p) \<and> CHR '','' \<notin> set (snd p) \<and>
     \<not> is_blank (hd (fst p)) \<and> \<not> is_blank (last (snd p))"

definition pair_text :: "string \<times> string \<Rightarrow> string" where
  "pair_text p = fst p @ CHR ''/'' # snd p"

fun pair_list :: "(string \<times> string) list \<Rightarrow> string" where
  "pair_list [] = []"
| "pair_list [p] = pair_text p"
| "pair_list (p # ps) = pair_text p @ CHR '','' # pair_list ps"

lemma trim_blanks_id: "s \<noteq> [] \<Longrightarrow> \<not> is_blank (hd s) \<Longrightarrow> \<not> is_blank (last s) \<Longrightarrow> trim_blanks s = s"
proof -
  assume s: "s \<noteq> []" "\<not> is_blank (hd s)" "\<not> is_blank (last s)"
  then have "dropWhile is_blank s = s" "dropWhile is_blank (rev s) = rev s"
    by (cases s, simp_all) (cases s rule: rev_cases, simp_all)
  then show ?thesis by (simp add: trim_blanks_def)
qed

lemma symbol_pairs_text:
  assumes "pair_ok p"
  shows "symbol_pairs (pair_text p # rest) = map_option (Cons p) (symbol_pairs rest)"
proof -
  have t: "trim_blanks (pair_text p) = pair_text p"
    using assms by (intro trim_blanks_id) (auto simp: pair_ok_def pair_text_def)
  have w: "takeWhile (\<lambda>c. c \<noteq> CHR ''/'') (pair_text p) = fst p"
    using assms by (simp add: pair_text_def pair_ok_def takeWhile_not(2))
  have l: "length (pair_text p) = length (fst p) + Suc (length (snd p))" "pair_text p \<noteq> []" "fst p \<noteq> []" "snd p \<noteq> []"
    "take (length (fst p)) (pair_text p) = fst p" "drop (Suc (length (fst p))) (pair_text p) = snd p"
    using assms by (simp_all add: pair_text_def pair_ok_def)
  show ?thesis unfolding symbol_pairs.simps t w Let_def using l by simp
qed

lemma pair_text_tokens: "list_all pair_ok ps \<Longrightarrow> getline_tokens CHR '','' (pair_list ps) = map pair_text ps"
proof (induction ps rule: pair_list.induct)
  case (2 p)
  then show ?case by (auto simp: pair_ok_def pair_text_def intro!: getline_tokens_last)
next
  case (3 p q ps)
  have "CHR '','' \<notin> set (pair_text p)" using 3 by (auto simp: pair_ok_def pair_text_def)
  then show ?case using 3 by (simp add: getline_tokens_sep)
qed (simp add: getline_tokens.simps [of _ "[]"])

lemma parse_symbols_back: "list_all pair_ok ps \<Longrightarrow> parse_symbols (pair_list ps) = Some ps"
proof -
  assume ok: "list_all pair_ok ps"
  then have "symbol_pairs (map pair_text ps) = Some ps"
    by (induction ps) (simp_all add: symbol_pairs_text del: symbol_pairs.simps(2))
  with ok show ?thesis by (simp add: parse_symbols_def pair_text_tokens)
qed

section \<open>Files of their own\<close>

text \<open>Whatever the base path is, the suffix goes in at one place.\<close>

lemma derive_persist_path_split:
  assumes "path \<noteq> []"
  shows "\<exists>pre post. \<forall>b q. derive_persist_path path b q = pre @ pair_suffix b q @ post"
proof (cases "find_last_of (\<lambda>c. c = CHR ''.'') path")
  case None
  then show ?thesis using assms by (intro exI [of _ path] exI [of _ "[]"]) (simp add: derive_persist_path_def)
next
  case (Some d)
  define sep where "sep = find_last_of (\<lambda>c. c = CHR ''/'' \<or> c = CHR 0x5C) path"
  define dot2 where "dot2 = find_last_of (\<lambda>c. c = CHR ''.'') (take d path)"
  define in_dir where "in_dir = (case sep of None \<Rightarrow> False | Some s \<Rightarrow> d < s)"
  define double where "double d2 = (case sep of None \<Rightarrow> True | Some s \<Rightarrow> d2 > s)" for d2
  have path: "derive_persist_path path b q =
     (if in_dir then path @ pair_suffix b q
      else if drop d path = ''.gz'' then
        (case dot2 of None \<Rightarrow> take d path @ pair_suffix b q @ drop d path
         | Some d2 \<Rightarrow> (if double d2 then take d2 (take d path) @ pair_suffix b q @ drop d2 (take d path) @ ''.gz''
                       else take d path @ pair_suffix b q @ drop d path))
      else take d path @ pair_suffix b q @ drop d path)" for b q
    unfolding derive_persist_path_def sep_def [symmetric] Some Let_def option.case dot2_def [symmetric]
      in_dir_def [symmetric] double_def [symmetric]
    using assms by simp
  show ?thesis
  proof (cases "\<not> in_dir \<and> drop d path = ''.gz'' \<and> (\<exists>d2. dot2 = Some d2 \<and> double d2)")
    case True
    then obtain d2 where "dot2 = Some d2" "double d2" by blast
    with True show ?thesis
      by (intro exI [of _ "take d2 (take d path)"] exI [of _ "drop d2 (take d path) @ ''.gz''"]) (simp add: path)
  next
    case False
    show ?thesis
    proof (cases in_dir)
      case True
      then show ?thesis by (intro exI [of _ path] exI [of _ "[]"]) (simp add: path)
    next
      case out: False
      with False show ?thesis
        by (intro exI [of _ "take d path"] exI [of _ "drop d path"]) (auto simp: path split: option.split)
    qed
  qed
qed

lemma pair_suffix_inject:
  assumes "CHR ''_'' \<notin> set b" and "CHR ''_'' \<notin> set b'" and "pair_suffix b q = pair_suffix b' q'"
  shows "b = b' \<and> q = q'"
proof -
  have e: "b @ CHR ''_'' # q = b' @ CHR ''_'' # q'" using assms(3) by (simp add: pair_suffix_def)
  then have "takeWhile (\<lambda>c. c \<noteq> CHR ''_'') (b @ CHR ''_'' # q) = takeWhile (\<lambda>c. c \<noteq> CHR ''_'') (b' @ CHR ''_'' # q')"
    by (rule arg_cong)
  then have "b = b'" using takeWhile_not(2) assms(1,2) by metis
  with e show ?thesis by simp
qed

lemma derived_paths_distinct:
  assumes "path \<noteq> []" and "distinct ps" and "\<forall>p \<in> set ps. CHR ''_'' \<notin> set (fst p)"
  shows "distinct (map (\<lambda>p. derive_persist_path path (fst p) (snd p)) ps)"
proof -
  obtain pre post where d: "\<forall>b q. derive_persist_path path b q = pre @ pair_suffix b q @ post"
    using derive_persist_path_split [OF assms(1)] by blast
  have "inj_on (\<lambda>p. derive_persist_path path (fst p) (snd p)) (set ps)"
  proof (rule inj_onI)
    fix p p' assume "p \<in> set ps" "p' \<in> set ps"
      and "derive_persist_path path (fst p) (snd p) = derive_persist_path path (fst p') (snd p')"
    then show "p = p'"
      using pair_suffix_inject [of "fst p" "fst p'" "snd p" "snd p'"] assms(3) by (simp add: d prod_eq_iff)
  qed
  with assms(2) show ?thesis by (simp add: distinct_map)
qed

section \<open>Starting the handlers\<close>

text \<open>What a started handler is, for one pair of the symbol list.\<close>

definition file_of :: "CmdOptions \<Rightarrow> bool \<Rightarrow> string \<times> string \<Rightarrow> string" where
  "file_of options multi p =
     (let path = or_keep (co_persist_path options) []
      in if multi then derive_persist_path path (fst p) (snd p) else path)"

definition handler_started :: "CmdOptions \<Rightarrow> VenueId \<Rightarrow> bool \<Rightarrow> string \<times> string \<Rightarrow> gfh \<Rightarrow> bool" where
  "handler_started options vid multi p h \<longleftrightarrow> h_running h \<and>
     h_state h = (if vid = KUCOIN then BOOTSTRAPPING else CONNECTING) \<and>
     (\<exists>cfg. h_cfg h = Some cfg \<and> build_cfg options vid (fst p) (snd p) (file_of options multi p) = Some cfg)"

lemma build_cfg_known:
  assumes "vid \<noteq> UNKNOWN"
  obtains cfg where "build_cfg options vid b q path = Some cfg" and "FeedHandlerConfig.venue_name cfg = vid"
    and "base_ccy cfg = b" and "quote_ccy cfg = q" and "persist_path cfg = path"
    and "depthLevel cfg = int_to_size (or_keep (co_depthLevel options) 400)"
  using assms by (cases vid) (simp_all add: build_cfg_def map_ws_symbol_def map_rest_symbol_def Let_def)

lemma build_cfg_path: "build_cfg options vid b q path = Some cfg \<Longrightarrow> persist_path cfg = path"
  by (auto simp: build_cfg_def split: option.splits)

lemma started_files:
  "list_all2 (handler_started options vid multi) ps hs \<Longrightarrow>
    map (\<lambda>h. persist_path (the (h_cfg h))) hs = map (file_of options multi) ps"
  by (induction rule: list_all2_induct) (auto simp: handler_started_def build_cfg_path)

lemma start_fresh:
  assumes "0 < depthLevel cfg" and "FeedHandlerConfig.venue_name cfg = vid" and "vid \<noteq> UNKNOWN"
  obtains h h' where "init J can_open cfg (new_GenericFeedHandler null) = (OK, h)" and "start v h = (OK, h')"
    and "h_running h'" and "h_cfg h' = Some cfg" and "h_state h' = (if vid = KUCOIN then BOOTSTRAPPING else CONNECTING)"
proof -
  obtain c where c: "new_OrderBookController (depthLevel cfg) = Inr c"
    using assms(1) by (simp add: new_OrderBookController_def new_OrderBook_def)
  obtain h where i: "init J can_open cfg (new_GenericFeedHandler null) = (OK, h)" and h: "\<not> h_running h" "h_cfg h = Some cfg"
    "h_adapter h = makeAdapter vid" "rt_caps (h_rt h) = caps (makeAdapter vid)"
    using assms(1,2) c by (simp add: init_def new_GenericFeedHandler_def resolve_rt_def set_state_def Let_def)
  have "requires_ws_bootstrap (caps (makeAdapter vid)) = (vid = KUCOIN)" "vid = KUCOIN \<Longrightarrow> wsBootstrapTarget (makeAdapter vid) cfg \<noteq> []"
    using assms(3) by (cases vid; simp add: binance_caps_def okx_caps_def bybit_caps_def bitget_caps_def kucoin_caps_def default_caps_def kucoin_wsBootstrapTarget_def)+
  with h have "fst (start v h) = OK" "h_running (snd (start v h))" "h_cfg (snd (start v h)) = Some cfg"
    "h_state (snd (start v h)) = (if vid = KUCOIN then BOOTSTRAPPING else CONNECTING)"
    by (simp_all add: start_def bootstrapWS_def connectWS_def arm_heartbeat_def Let_def)
  then show thesis by (intro that [OF i, of "snd (start v h)"]) (simp_all add: prod_eq_iff)
qed

lemma start_handlers_all:
  assumes "vid \<noteq> UNKNOWN" and "0 < int_to_size (or_keep (co_depthLevel options) 400)"
  shows "\<exists>hs. start_handlers J can_open null v options vid multi n ps = Inr hs \<and> list_all2 (handler_started options vid multi) ps hs"
proof (induction ps arbitrary: n)
  case (Cons p ps)
  obtain b q where [simp]: "p = (b, q)" by (cases p)
  define path where "path = file_of options multi p"
  obtain cfg where c: "build_cfg options vid b q path = Some cfg" "FeedHandlerConfig.venue_name cfg = vid"
    "depthLevel cfg = int_to_size (or_keep (co_depthLevel options) 400)"
    by (rule build_cfg_known [OF assms(1), of options b q path])
  obtain h h' where h: "init J can_open cfg (new_GenericFeedHandler null) = (OK, h)" "start (v n) h = (OK, h')"
    "h_running h'" "h_cfg h' = Some cfg" "h_state h' = (if vid = KUCOIN then BOOTSTRAPPING else CONNECTING)"
    using start_fresh [OF _ c(2) assms(1), of J can_open null "v n"] assms(2) c(3) by auto
  have s: "handler_started options vid multi p h'" using h c(1) by (auto simp: handler_started_def path_def)
  obtain hs where hs: "start_handlers J can_open null v options vid multi (Suc n) ps = Inr hs"
    "list_all2 (handler_started options vid multi) ps hs"
    using Cons.IH by blast
  have f: "(if multi then derive_persist_path (or_keep (co_persist_path options) []) b q else or_keep (co_persist_path options) []) = path"
    by (simp add: path_def file_of_def Let_def)
  have "start_handlers J can_open null v options vid multi n (p # ps) = Inr (h' # hs)"
    by (simp add: Let_def f c(1) h(1,2) hs(1))
  then show ?case using s hs(2) by auto
qed simp

lemma pop_main_start:
  assumes "\<not> pv_help vm" and "parse_venue (pv_venue vm) \<noteq> UNKNOWN" and "0 < pv_depthLevel vm" and "pv_depthLevel vm < 2 ^ 31"
    and "symbol_list (assign_cmd_options vm default_CmdOptions) = Some ps" and "ps \<noteq> []"
  shows "\<exists>hs. pop_main J can_open True null v (Some vm) =
      Inr \<lparr>pp_options = assign_cmd_options vm default_CmdOptions, pp_handlers = hs, pp_running = True\<rparr> \<and>
    list_all2 (handler_started (assign_cmd_options vm default_CmdOptions) (parse_venue (pv_venue vm)) (length ps > 1)) ps hs"
proof -
  let ?o = "assign_cmd_options vm default_CmdOptions"
  have o: "co_venue ?o = pv_venue vm" "co_depthLevel ?o = Some (pv_depthLevel vm)" "\<not> co_show_help ?o"
    by (simp_all add: assign_cmd_options_def default_CmdOptions_def)
  have "0 < int_to_size (pv_depthLevel vm)"
    using assms(3,4) by (simp add: int_to_size_def unat_eq_nat_uint uint_word_of_int)
  then have d: "0 < int_to_size (or_keep (co_depthLevel ?o) 400)" by (simp add: o or_keep_def)
  obtain hs where "start_handlers J can_open null v ?o (parse_venue (pv_venue vm)) (length ps > 1) 0 ps = Inr hs"
    "list_all2 (handler_started ?o (parse_venue (pv_venue vm)) (length ps > 1)) ps hs"
    using start_handlers_all [OF assms(2) d] by blast
  then show ?thesis using assms(1,2,5,6) by (simp add: pop_main_def parse_cmdline_def o Let_def)
qed

text \<open>C38: The feed process comes up. Given a known venue in any capitalisation, a positive depth and a list of symbol
  pairs written as \<^verbatim>\<open>BASE/QUOTE\<close> with commas in between, the process starts; it has one handler
  per pair, in the order of the list, and every handler runs with the configuration of its pair and is connecting, or
  asking for its connection token when the venue is KuCoin.\<close>

theorem feed_process_comes_up:
  assumes "\<not> pv_help vm" and "map lower_char (pv_venue vm) = venue_to_string vid" and "vid \<noteq> UNKNOWN"
    and "0 < pv_depthLevel vm" and "pv_depthLevel vm < 2 ^ 31"
    and "pv_symbols vm = Some (pair_list ps)" and "list_all pair_ok ps" and "ps \<noteq> []"
  shows "\<exists>p. pop_main J can_open True null v (Some vm) = Inr p \<and>
    list_all2 (handler_started (pp_options p) vid (length ps > 1)) ps (pp_handlers p)"
proof -
  have v: "parse_venue (pv_venue vm) = vid" using assms(2,3) by (cases vid) (simp_all add: parse_venue_def)
  have "symbol_list (assign_cmd_options vm default_CmdOptions) = Some ps"
    using assms(6) parse_symbols_back [OF assms(7)] by (simp add: symbol_list_def assign_cmd_options_def given_def)
  from pop_main_start [OF assms(1) _ assms(4,5) this assms(8), of J can_open null v] v assms(3) show ?thesis by force
qed

definition two_symbols :: pop_vm where
  "two_symbols = pop_defaults\<lparr>pv_venue := ''OKX'', pv_symbols := Some ''BTC/USDT,ETH/USDT'', pv_persist_path := Some ''okx.jsonl.gz''\<rparr>"

definition calm :: env where
  "calm = \<lparr>env_now = 1, env_steady_ms = 1, env_jitter = Fin 0\<rparr>"

theorem feed_process_comes_up_witness:
  "\<exists>p. pop_main tree_api (\<lambda>_. True) True bridge_at_10 (\<lambda>_. calm) (Some two_symbols) = Inr p \<and> length (pp_handlers p) = 2"
proof -
  have low: "map lower_char ''OKX'' = ''okx''" by code_simp
  have "\<exists>p. pop_main tree_api (\<lambda>_. True) True bridge_at_10 (\<lambda>_. calm) (Some two_symbols) = Inr p \<and>
      list_all2 (handler_started (pp_options p) OKX (length [(''BTC'', ''USDT''), (''ETH'', ''USDT'')] > 1))
        [(''BTC'', ''USDT''), (''ETH'', ''USDT'')] (pp_handlers p)"
    by (rule feed_process_comes_up)
      (use low in \<open>simp_all add: two_symbols_def pop_defaults_def pair_text_def pair_ok_def is_blank_def\<close>)
  then show ?thesis by (auto dest: list_all2_lengthD)
qed

text \<open>Handlers do not share a file. When several symbol pairs are followed and a recording is asked for, the
  handlers of a process write to different files, provided the pairs differ and no base
  asset has an underscore in its name.\<close>

theorem handlers_have_files_of_their_own:
  assumes "pop_main J can_open True null v (Some vm) = Inr p" and "pv_persist_path vm = Some path" and "path \<noteq> []"
    and "0 < pv_depthLevel vm" and "pv_depthLevel vm < 2 ^ 31"
    and "symbol_list (pp_options p) = Some ps" and "distinct ps" and "\<forall>s \<in> set ps. CHR ''_'' \<notin> set (fst s)"
  shows "distinct (map (\<lambda>h. persist_path (the (h_cfg h))) (pp_handlers p)) \<and> length (pp_handlers p) = length ps"
proof -
  let ?o = "assign_cmd_options vm default_CmdOptions"
  have h: "\<not> pv_help vm" "parse_venue (pv_venue vm) \<noteq> UNKNOWN" "pp_options p = ?o" "ps \<noteq> []"
    using assms(1,6)
    by (auto simp: pop_main_def parse_cmdline_def Let_def assign_cmd_options_def map_sum_def
        split: if_splits option.splits sum.splits)
  obtain hs where hs: "pop_main J can_open True null v (Some vm) = Inr \<lparr>pp_options = ?o, pp_handlers = hs, pp_running = True\<rparr>"
    "list_all2 (handler_started ?o (parse_venue (pv_venue vm)) (length ps > 1)) ps hs"
    using pop_main_start [OF h(1,2) assms(4,5) _ h(4), of J can_open null v] assms(6) h(3) by auto
  have p: "pp_handlers p = hs" using assms(1) hs(1) by auto
  have "map (\<lambda>h. persist_path (the (h_cfg h))) hs = map (file_of ?o (length ps > 1)) ps"
    by (rule started_files [OF hs(2)])
  moreover have "distinct (map (file_of ?o (length ps > 1)) ps)"
  proof (cases "length ps > 1")
    case True
    have "file_of ?o True = (\<lambda>s. derive_persist_path path (fst s) (snd s))"
      using assms(2) by (simp add: fun_eq_iff file_of_def assign_cmd_options_def given_def or_keep_def)
    then show ?thesis using derived_paths_distinct [OF assms(3,7,8)] True by simp
  next
    case False
    then show ?thesis by (cases ps rule: list.exhaust; cases "tl ps") auto
  qed
  ultimately show ?thesis using hs(2) by (simp add: p list_all2_lengthD)
qed

lemma two_symbols_start:
  obtains p where "pop_main tree_api (\<lambda>_. True) True bridge_at_10 (\<lambda>_. calm) (Some two_symbols) = Inr p"
    and "symbol_list (pp_options p) = Some [(''BTC'', ''USDT''), (''ETH'', ''USDT'')]"
proof -
  have v: "parse_venue (pv_venue two_symbols) \<noteq> UNKNOWN" by code_simp
  have s: "symbol_list (assign_cmd_options two_symbols default_CmdOptions) = Some [(''BTC'', ''USDT''), (''ETH'', ''USDT'')]"
    by code_simp
  have n: "\<not> pv_help two_symbols" "0 < pv_depthLevel two_symbols" "pv_depthLevel two_symbols < 2 ^ 31"
    by (simp_all add: two_symbols_def pop_defaults_def)
  show thesis
    using pop_main_start [OF n(1) v n(2,3) s, of tree_api "\<lambda>_. True" bridge_at_10 "\<lambda>_. calm"] s that by auto
qed

theorem handlers_have_files_of_their_own_witness:
  "\<exists>p. pop_main tree_api (\<lambda>_. True) True bridge_at_10 (\<lambda>_. calm) (Some two_symbols) = Inr p \<and>
     distinct (map (\<lambda>h. persist_path (the (h_cfg h))) (pp_handlers p)) \<and> length (pp_handlers p) = 2"
proof -
  obtain p where p: "pop_main tree_api (\<lambda>_. True) True bridge_at_10 (\<lambda>_. calm) (Some two_symbols) = Inr p"
    and s: "symbol_list (pp_options p) = Some [(''BTC'', ''USDT''), (''ETH'', ''USDT'')]" by (rule two_symbols_start)
  have "pv_persist_path two_symbols = Some ''okx.jsonl.gz''" "''okx.jsonl.gz'' \<noteq> []"
    "0 < pv_depthLevel two_symbols" "pv_depthLevel two_symbols < 2 ^ 31"
    by (simp_all add: two_symbols_def pop_defaults_def)
  from handlers_have_files_of_their_own [OF p this s] p show ?thesis by simp
qed

text \<open>Where the suffix goes.\<close>

lemma derived_path_examples:
  "derive_persist_path ''/tmp/binance.jsonl'' ''BTC'' ''USDT'' = ''/tmp/binance_BTC_USDT.jsonl''"
  "derive_persist_path ''/tmp/binance.jsonl.gz'' ''BTC'' ''USDT'' = ''/tmp/binance_BTC_USDT.jsonl.gz''"
  "derive_persist_path ''/data.d/binance'' ''BTC'' ''USDT'' = ''/data.d/binance_BTC_USDT''"
  by code_simp+

text \<open>With an underscore in a base asset two pairs can share a file.\<close>

lemma underscore_collision:
  "derive_persist_path ''x.jsonl'' ''A_B'' ''C'' = derive_persist_path ''x.jsonl'' ''A'' ''B_C''"
  by code_simp

text \<open>A negative depth is converted to a huge one and passes the check of \<open>init\<close>.\<close>

lemma negative_depth_is_huge: "int_to_size (- 1) = 2 ^ 64 - 1"
  unfolding int_to_size_def by (transfer, simp add: mask_eq_exp_minus_1)

section \<open>After the start\<close>

text \<open>The signal stops every handler; the health document then is not ok.\<close>

lemma signal_stops_handlers:
  assumes "pp_running p"
  shows "list_all (\<lambda>h. \<not> h_running h \<and> h_state h = DISCONNECTED) (pp_handlers (pop_step J PopSignal p)) \<and>
    \<not> all_synced (pp_handlers (pop_step J PopSignal p))"
proof -
  have "\<not> h_running (snd (stop h)) \<and> h_state (snd (stop h)) = DISCONNECTED" for h
    by (simp add: stop_def disarm_ws_watchdog_def Let_def)
  then show ?thesis using assms by (cases "pp_handlers p") (simp_all add: list_all_iff all_synced_def sync_state_str_def)
qed

end
