(* ===== verification/HealthServer.thy ===== *)
theory HealthServer
  imports Zida_Prelude
begin

text \<open>
  The plain HTTP health endpoint of the processes, \<^verbatim>\<open>common/include/utils/HealthServer.hpp\<close>: an accept loop and one
  request per connection. The outcomes of the system calls of \<^verbatim>\<open>start()\<close> and of the asynchronous operations are
  arguments; the document is what the callback gives at the time of the request. A connection is a position in
  \<open>ht_socks\<close> with the stage it has reached.
\<close>

section \<open>State and operations\<close>

datatype http_stage = ReadingRequest | WritingReply string | ShutDown

record http_reply =
  hr_status :: nat
  hr_content_type :: string
  hr_connection :: string
  hr_content_length :: nat
  hr_body :: string

record health_server =
  ht_port :: "16 word"
  ht_listening :: bool
  ht_accept_pending :: bool
  ht_socks :: "http_stage list"
  ht_replies :: "(nat \<times> http_reply) list"

definition new_HealthServer :: "16 word \<Rightarrow> health_server" where
  "new_HealthServer port = \<lparr>ht_port = port, ht_listening = False, ht_accept_pending = False, ht_socks = [], ht_replies = []\<rparr>"

definition health_do_accept :: "health_server \<Rightarrow> health_server" where
  "health_do_accept s = s\<lparr>ht_accept_pending := True\<rparr>"

text \<open>An acceptor that was opened and could not be bound or put to listening stays open and idle.\<close>

definition health_start :: "bool \<Rightarrow> bool \<Rightarrow> bool \<Rightarrow> health_server \<Rightarrow> health_server" where
  "health_start open_ok bind_ok listen_ok s =
     (if ht_port s = 0 then s
      else if \<not> open_ok then s
      else if \<not> bind_ok then s
      else if \<not> listen_ok then s
      else health_do_accept (s\<lparr>ht_listening := True\<rparr>))"

definition health_stop :: "health_server \<Rightarrow> health_server" where
  "health_stop s = s\<lparr>ht_listening := False\<rparr>"

definition health_reply :: "string \<Rightarrow> http_reply" where
  "health_reply body = \<lparr>hr_status = 200, hr_content_type = ''application/json'', hr_connection = ''close'',
     hr_content_length = length body, hr_body = body\<rparr>"

definition health_serve :: "health_server \<Rightarrow> health_server" where
  "health_serve s = s\<lparr>ht_socks := ht_socks s @ [ReadingRequest]\<rparr>"

text \<open>The accept handler: closing the acceptor completes the pending accept with an error.\<close>

definition health_accepted :: "bool \<Rightarrow> health_server \<Rightarrow> health_server" where
  "health_accepted ec s =
     (if \<not> ht_accept_pending s then s
      else let s = s\<lparr>ht_accept_pending := False\<rparr>
           in if ec \<or> \<not> ht_listening s then s else health_do_accept (health_serve s))"

definition health_read :: "nat \<Rightarrow> bool \<Rightarrow> string \<Rightarrow> health_server \<Rightarrow> health_server" where
  "health_read i ec doc s =
     (if i < length (ht_socks s) \<and> ht_socks s ! i = ReadingRequest
      then (if ec then s\<lparr>ht_socks := (ht_socks s)[i := ShutDown]\<rparr>
            else s\<lparr>ht_socks := (ht_socks s)[i := WritingReply doc]\<rparr>)
      else s)"

definition health_written :: "nat \<Rightarrow> bool \<Rightarrow> health_server \<Rightarrow> health_server" where
  "health_written i ec s =
     (if i < length (ht_socks s)
      then (case ht_socks s ! i of
              WritingReply body \<Rightarrow>
                s\<lparr>ht_socks := (ht_socks s)[i := ShutDown],
                  ht_replies := (if ec then ht_replies s else ht_replies s @ [(i, health_reply body)])\<rparr>
            | _ \<Rightarrow> s)
      else s)"

datatype health_event = HealthAccept bool | HealthRead nat bool string | HealthWritten nat bool | HealthStop

fun health_step :: "health_event \<Rightarrow> health_server \<Rightarrow> health_server" where
  "health_step (HealthAccept ec) s = health_accepted ec s"
| "health_step (HealthRead i ec doc) s = health_read i ec doc s"
| "health_step (HealthWritten i ec) s = health_written i ec s"
| "health_step HealthStop s = health_stop s"

section \<open>At most one reply per connection\<close>

definition replied :: "health_server \<Rightarrow> nat list" where
  "replied s = map fst (ht_replies s)"

definition health_inv :: "health_server \<Rightarrow> bool" where
  "health_inv s \<longleftrightarrow> distinct (replied s) \<and> (\<forall>i \<in> set (replied s). i < length (ht_socks s) \<and> ht_socks s ! i = ShutDown) \<and>
     (\<forall>(i, r) \<in> set (ht_replies s). r = health_reply (hr_body r))"

lemma health_inv_step: "health_inv s \<Longrightarrow> health_inv (health_step e s)"
proof (cases e)
  case (HealthAccept ec)
  then show "health_inv s \<Longrightarrow> health_inv (health_step e s)"
    by (auto simp: health_inv_def replied_def health_accepted_def health_do_accept_def health_serve_def nth_append Let_def)
next
  case (HealthRead i ec doc)
  then show "health_inv s \<Longrightarrow> health_inv (health_step e s)"
    by (force simp: health_inv_def replied_def health_read_def nth_list_update)
next
  case (HealthWritten i ec)
  then show "health_inv s \<Longrightarrow> health_inv (health_step e s)"
    by (force simp: health_inv_def replied_def health_written_def nth_list_update health_reply_def split: http_stage.split)
next
  case HealthStop
  then show "health_inv s \<Longrightarrow> health_inv (health_step e s)"
    by (simp add: health_inv_def replied_def health_stop_def)
qed

interpretation health_endpoint: steps health_step health_inv
  by unfold_locales (rule health_inv_step)

lemma health_inv_new: "health_inv (health_start a b c (new_HealthServer p))"
  by (simp add: health_inv_def replied_def health_start_def new_HealthServer_def health_do_accept_def)

text \<open>Every connection is answered at most once, and every answer is a complete one.\<close>

lemma health_replies_once:
  "distinct (replied (fold health_step es (health_start a b c (new_HealthServer p))))"
  using health_endpoint.always [OF health_inv_new] by (simp add: health_inv_def)

text \<open>Without a port nothing listens and nothing is ever accepted.\<close>

lemma health_disabled:
  assumes "\<not> ht_accept_pending s" and "ht_socks s = []"
  shows "ht_socks (fold health_step es s) = [] \<and> \<not> ht_accept_pending (fold health_step es s)"
  using assms
proof (induction es arbitrary: s)
  case (Cons e es)
  then have "\<not> ht_accept_pending (health_step e s) \<and> ht_socks (health_step e s) = []"
    by (cases e) (simp_all add: health_accepted_def health_read_def health_written_def health_stop_def)
  with Cons.IH show ?case by simp
qed simp

end
