(* ===== verification/ExecMain.thy ===== *)
theory ExecMain
  imports ExecCmdLine WsClient
begin

text \<open>
  The execution process as \<^verbatim>\<open>main\<close> of \<^verbatim>\<open>exec/app/exec.cpp\<close> puts it together: the options, the assembled engine, and
  the WebSocket client on which the signals of the brain arrive. The client's callbacks run on its own
  strand; a message is dispatched to the strand of the execution state, where it waits in \<open>xm_inbox\<close> until it
  runs. The completion of a read is an event only while a read is pending. Loading the client certificate may fail, which is an
  argument; other TLS settings and the log are left out.
\<close>

section \<open>State and events\<close>

record exec_main =
  xm_opts :: ExecOptions
  xm_exec :: exec_proc
  xm_ws :: ws_client
  xm_reads_done :: nat
  xm_inbox :: "string list"
  xm_running :: bool

datatype exec_exit = ExecExit int | ExecUncaught

definition exec_start :: "bool \<Rightarrow> exec_vm option \<Rightarrow> exec_exit + exec_main" where
  "exec_start cert_ok parsed =
     (case parse_exec_cmdline parsed default_ExecOptions of None \<Rightarrow> Inl (ExecExit 1)
      | Some opts \<Rightarrow>
          (if opt_show_help opts then Inl (ExecExit 0)
           else if opt_certfile opts \<noteq> [] \<and> \<not> cert_ok then Inl ExecUncaught
           else Inr \<lparr>xm_opts = opts, xm_exec = assemble opts,
                     xm_ws = ws_connect (opt_brain_host opts) (nat_str (unat (opt_brain_port opts))) ''/'' new_WsClient,
                     xm_reads_done = 0, xm_inbox = [], xm_running = True\<rparr>))"

text \<open>Calls of the client's interface: \<^verbatim>\<open>main\<close> connects once and closes at shutdown.\<close>

fun ws_call :: "ws_event \<Rightarrow> bool" where
  "ws_call (Connect _ _ _) = True"
| "ws_call (SendText _) = True"
| "ws_call (SendBinary _) = True"
| "ws_call CloseCall = True"
| "ws_call CancelCall = True"
| "ws_call _ = False"

fun is_read :: "ws_event \<Rightarrow> bool" where
  "is_read (ReadDone _) = True"
| "is_read _ = False"

definition read_pending :: "exec_main \<Rightarrow> bool" where
  "read_pending m \<longleftrightarrow> xm_reads_done m < count_list (ws_log (xm_ws m)) StartRead"

text \<open>The callback \<^verbatim>\<open>on_raw_message\<close> of each message among the effects of a step.\<close>

fun messages :: "ws_effect list \<Rightarrow> string list" where
  "messages [] = []"
| "messages (CallMessage t # fx) = t # messages fx"
| "messages (_ # fx) = messages fx"

definition xm_network :: "ws_event \<Rightarrow> exec_main \<Rightarrow> exec_main" where
  "xm_network e m =
     (if ws_call e \<or> is_read e \<and> \<not> read_pending m then m
      else let w = ws_step e (xm_ws m)
           in m\<lparr>xm_ws := w, xm_reads_done := xm_reads_done m + of_bool (is_read e),
                xm_inbox := xm_inbox m @ messages (drop (length (ws_log (xm_ws m))) (ws_log w))\<rparr>)"

definition xm_message :: "'j json_api \<Rightarrow> double \<Rightarrow> i64 \<Rightarrow> exec_main \<Rightarrow> exec_main" where
  "xm_message J junk now m =
     (case xm_inbox m of [] \<Rightarrow> m
      | t # ts \<Rightarrow> m\<lparr>xm_inbox := ts, xm_exec := on_raw_message J junk now t (xm_exec m)\<rparr>)"

definition xm_shutdown :: "exec_main \<Rightarrow> exec_main" where
  "xm_shutdown m = m\<lparr>xm_exec := exec_step Shutdown (xm_exec m), xm_ws := ws_close (xm_ws m), xm_running := False\<rparr>"

datatype xm_event = XNetwork ws_event | XMessage double i64 | XPosted | XTimer string | XTerminate

fun xm_step :: "'j json_api \<Rightarrow> xm_event \<Rightarrow> exec_main \<Rightarrow> exec_main" where
  "xm_step J (XNetwork e) m = (if \<not> xm_running m then m else xm_network e m)"
| "xm_step J (XMessage junk now) m = (if \<not> xm_running m then m else xm_message J junk now m)"
| "xm_step J XPosted m = (if \<not> xm_running m then m else m\<lparr>xm_exec := exec_step RunNext (xm_exec m)\<rparr>)"
| "xm_step J (XTimer oid) m = (if \<not> xm_running m then m else m\<lparr>xm_exec := exec_step (Expire oid) (xm_exec m)\<rparr>)"
| "xm_step J XTerminate m = (if \<not> xm_running m then m else xm_shutdown m)"

section \<open>A lost connection\<close>

text \<open>Effects that bring the client no nearer to a message.\<close>

fun deaf_effect :: "ws_effect \<Rightarrow> bool" where
  "deaf_effect StartRead = False"
| "deaf_effect (CallMessage _) = False"
| "deaf_effect (StartResolve _ _) = False"
| "deaf_effect _ = True"

lemma closing_step:
  assumes "closing w" and "\<not> ws_call e" and "\<not> is_read e"
  shows "closing (ws_step e w) \<and> (\<exists>fx. ws_log (ws_step e w) = ws_log w @ fx \<and> list_all deaf_effect fx)"
  using assms by (cases e) (auto simp: ws_defs split: list.splits)

lemma deaf_messages: "list_all deaf_effect fx \<Longrightarrow> messages fx = [] \<and> count_list fx StartRead = 0"
  by (induction fx rule: messages.induct) auto

definition deaf :: "exec_main \<Rightarrow> bool" where
  "deaf m \<longleftrightarrow> closing (xm_ws m) \<and> \<not> read_pending m \<and> xm_inbox m = []"

lemma strand_submits_nothing:
  "p_submitted (exec_step RunNext p) = p_submitted p" "p_submitted (exec_step (Expire oid) p) = p_submitted p"
  "p_submitted (exec_step Shutdown p) = p_submitted p"
proof -
  have "p_submitted (run_handler h q) = p_submitted q" for h q by (cases h) simp_all
  then show "p_submitted (exec_step RunNext p) = p_submitted p" by (simp add: run_next_def split: list.split)
qed (simp_all add: case_prod_beta)

lemma deaf_step:
  assumes "deaf m"
  shows "deaf (xm_step J e m) \<and> p_submitted (xm_exec (xm_step J e m)) = p_submitted (xm_exec m) \<and>
    (\<exists>fx. ws_log (xm_ws (xm_step J e m)) = ws_log (xm_ws m) @ fx \<and> list_all deaf_effect fx)"
proof (cases e)
  case (XNetwork ev)
  show ?thesis
  proof (cases "xm_running m \<and> \<not> ws_call ev \<and> \<not> is_read ev")
    case True
    obtain fx where fx: "ws_log (ws_step ev (xm_ws m)) = ws_log (xm_ws m) @ fx" "list_all deaf_effect fx"
      and c: "closing (ws_step ev (xm_ws m))"
      using closing_step [of "xm_ws m" ev] assms True by (auto simp: deaf_def)
    have "xm_network ev m = m\<lparr>xm_ws := ws_step ev (xm_ws m)\<rparr>"
      using True fx deaf_messages [OF fx(2)] by (cases m) (simp add: xm_network_def)
    then show ?thesis
      using True XNetwork assms fx c deaf_messages [OF fx(2)] by (auto simp: deaf_def read_pending_def)
  next
    case False
    then show ?thesis using assms XNetwork by (auto simp: xm_network_def deaf_def)
  qed
next
  case (XMessage junk now)
  then show ?thesis using assms by (simp add: xm_message_def deaf_def)
next
  case XTerminate
  then show ?thesis
    using assms strand_submits_nothing(3) [of "xm_exec m"]
    by (simp add: xm_shutdown_def deaf_def read_pending_def ws_close_def del: exec_step.simps)
qed (use assms strand_submits_nothing in \<open>simp_all add: deaf_def read_pending_def del: exec_step.simps\<close>)

lemma deaf_run:
  "deaf m \<Longrightarrow> deaf (fold (xm_step J) es m) \<and> p_submitted (xm_exec (fold (xm_step J) es m)) = p_submitted (xm_exec m) \<and>
    (\<exists>fx. ws_log (xm_ws (fold (xm_step J) es m)) = ws_log (xm_ws m) @ fx \<and> list_all deaf_effect fx)"
proof (induction es arbitrary: m)
  case (Cons e es)
  note s = deaf_step [OF Cons.prems, of J e]
  from Cons.IH [of "xm_step J e m"] s show ?case by fastforce
qed simp

text \<open>C39: A lost signal stream is lost for good. The execution process connects once. When the connection attempt fails, for
  instance because the brain is not up yet, or when it is closed and the messages received before have
  been handled, then whatever happens later no further connection is attempted, no message arrives
  and no order is submitted until the process is restarted, although it keeps running.\<close>

theorem lost_signal_stream_is_final:
  assumes "closing (xm_ws m)" and "\<not> read_pending m" and "xm_inbox m = []"
  shows "p_submitted (xm_exec (fold (xm_step J) es m)) = p_submitted (xm_exec m) \<and>
    (\<exists>fx. ws_log (xm_ws (fold (xm_step J) es m)) = ws_log (xm_ws m) @ fx \<and>
      (\<forall>x \<in> set fx. \<not> is_connect x \<and> (\<forall>t. x \<noteq> CallMessage t)))"
proof -
  have "deaf m" using assms by (simp add: deaf_def)
  from deaf_run [OF this, of J es] obtain fx where
    "p_submitted (xm_exec (fold (xm_step J) es m)) = p_submitted (xm_exec m)"
    "ws_log (xm_ws (fold (xm_step J) es m)) = ws_log (xm_ws m) @ fx" "list_all deaf_effect fx" by blast
  moreover have "\<not> is_connect x \<and> (\<forall>t. x \<noteq> CallMessage t)" if "deaf_effect x" for x
    using that by (cases x) simp_all
  ultimately show ?thesis by (auto simp: list_all_iff)
qed

text \<open>An executor that is started while the brain is down: the connection is refused.\<close>

definition refused :: "exec_main" where
  "refused = \<lparr>xm_opts = default_ExecOptions, xm_exec = assemble default_ExecOptions,
     xm_ws = fold ws_step [Connect ''127.0.0.1'' ''9444'' ''/'', Resolved False, TcpConnected True False] new_WsClient,
     xm_reads_done = 0, xm_inbox = [], xm_running = True\<rparr>"

theorem lost_signal_stream_is_final_witness:
  "p_submitted (xm_exec (fold (xm_step tree_api) [XNetwork (HandshakeDone False), XNetwork (ReadDone (ReadMessage ''x'')),
     XMessage (Fin 0) 1] refused)) = [] \<and> xm_running refused"
proof -
  have "closing (xm_ws refused)" "\<not> read_pending refused" "xm_inbox refused = []" "p_submitted (xm_exec refused) = []"
    by (simp_all add: refused_def read_pending_def ws_defs new_WsClient_def assemble_def start_exec_def)
  from lost_signal_stream_is_final [OF this(1-3), of tree_api "[XNetwork (HandshakeDone False),
      XNetwork (ReadDone (ReadMessage ''x'')), XMessage (Fin 0) 1]"] this(4)
  show ?thesis by (simp add: refused_def)
qed

end
