(* ===== verification/ProcessLogging.thy ===== *)
theory ProcessLogging
  imports Zida_Prelude
begin

text \<open>
  The process log file of \<^verbatim>\<open>common/src/utils/ProcessLoggingUtils.cpp\<close>: the name of the file, and the stream
  buffer that puts the time in front of every line. The formatted time is an argument, one reading for the name and one per
  line; whether the file can be opened is an argument. Paths are those of POSIX: \<open>filename\<close> is what follows
  the last slash, \<open>parent_path\<close> what precedes it without the slashes that end it, unless it consists of slashes only.
\<close>

section \<open>The name of the file\<close>

definition is_slash :: "char \<Rightarrow> bool" where
  "is_slash c \<longleftrightarrow> c = CHR ''/''"

definition filename :: "string \<Rightarrow> string" where
  "filename p = rev (takeWhile (\<lambda>c. \<not> is_slash c) (rev p))"

definition parent_path :: "string \<Rightarrow> string" where
  "parent_path p =
     (let dir = rev (dropWhile (\<lambda>c. \<not> is_slash c) (rev p)); stem = rev (dropWhile is_slash (rev dir))
      in if stem = [] then dir else stem)"

definition join_path :: "string \<Rightarrow> string \<Rightarrow> string" where
  "join_path dir name = (if dir = [] then name else if is_slash (last dir) then dir @ name else dir @ ''/'' @ name)"

definition ends_with :: "string \<Rightarrow> string \<Rightarrow> bool" where
  "ends_with suf s \<longleftrightarrow> length s \<ge> length suf \<and> drop (length s - length suf) s = suf"

definition normalize_log_path :: "string \<Rightarrow> string \<Rightarrow> string" where
  "normalize_log_path ts path =
     (let stem = filename path;
          stem = (if stem = [] then ''pop'' else stem);
          stem = (if ends_with ''.log'' stem then take (length stem - 4) stem else stem)
      in join_path (parent_path path) (stem @ ''-'' @ ts @ ''.log''))"

section \<open>The stream buffer\<close>

record stamp_buf =
  sb_at_line_start :: bool
  sb_dest :: string

definition new_TimestampingStreambuf :: stamp_buf where
  "new_TimestampingStreambuf = \<lparr>sb_at_line_start = True, sb_dest = []\<rparr>"

definition make_prefix :: "string \<Rightarrow> string" where
  "make_prefix time = ''['' @ time @ ''] ''"

text \<open>\<^verbatim>\<open>overflow\<close> for a character other than the end of file, on a destination that accepts everything.\<close>

definition stamp_overflow :: "string \<Rightarrow> char \<Rightarrow> stamp_buf \<Rightarrow> stamp_buf" where
  "stamp_overflow time ch b =
     (let b = (if sb_at_line_start b then b\<lparr>sb_dest := sb_dest b @ make_prefix time, sb_at_line_start := False\<rparr> else b);
          b = b\<lparr>sb_dest := sb_dest b @ [ch]\<rparr>
      in if ch = CHR 0x0A then b\<lparr>sb_at_line_start := True\<rparr> else b)"

record log_session =
  ls_path :: string
  ls_buf :: stamp_buf

definition enable_process_file_logging :: "(string \<Rightarrow> bool) \<Rightarrow> string \<Rightarrow> string \<Rightarrow> log_session option" where
  "enable_process_file_logging can_open ts base_path =
     (let p = normalize_log_path ts base_path
      in if can_open p then Some \<lparr>ls_path = p, ls_buf = new_TimestampingStreambuf\<rparr> else None)"

section \<open>Every line is stamped once\<close>

lemma stamp_line:
  assumes "CHR 0x0A \<notin> set cs"
  shows "fold (stamp_overflow t) cs \<lparr>sb_at_line_start = False, sb_dest = d\<rparr> = \<lparr>sb_at_line_start = False, sb_dest = d @ cs\<rparr>"
  using assms by (induction cs arbitrary: d) (auto simp: stamp_overflow_def)

text \<open>A line, with the time at which its first character is written: the prefix, the line, the newline.\<close>

lemma stamp_full_line:
  assumes "CHR 0x0A \<notin> set cs" and "sb_at_line_start b"
  shows "fold (stamp_overflow t) (cs @ [CHR 0x0A]) b = \<lparr>sb_at_line_start = True, sb_dest = sb_dest b @ make_prefix t @ cs @ [CHR 0x0A]\<rparr>"
proof (cases cs)
  case Nil
  then show ?thesis using assms(2) by (cases b) (simp add: stamp_overflow_def)
next
  case (Cons c rest)
  have "stamp_overflow t c b = \<lparr>sb_at_line_start = False, sb_dest = sb_dest b @ make_prefix t @ [c]\<rparr>"
    using assms Cons by (cases b) (auto simp: stamp_overflow_def)
  then show ?thesis using stamp_line [of rest t] assms(1) Cons by (simp add: stamp_overflow_def)
qed

lemma stamped_text:
  assumes "list_all (\<lambda>p. CHR 0x0A \<notin> set (snd p)) ls"
  shows "sb_dest (fold (\<lambda>(t, cs) b. fold (stamp_overflow t) (cs @ [CHR 0x0A]) b) ls new_TimestampingStreambuf) =
    concat (map (\<lambda>(t, cs). make_prefix t @ cs @ [CHR 0x0A]) ls)"
proof -
  have "fold (\<lambda>(t, cs) b. fold (stamp_overflow t) (cs @ [CHR 0x0A]) b) ls b =
      \<lparr>sb_at_line_start = True, sb_dest = sb_dest b @ concat (map (\<lambda>(t, cs). make_prefix t @ cs @ [CHR 0x0A]) ls)\<rparr>"
    if "sb_at_line_start b" for b
    using assms that
  proof (induction ls arbitrary: b)
    case (Cons p ls)
    obtain t cs where [simp]: "p = (t, cs)" by (cases p)
    have "fold (stamp_overflow t) (cs @ [CHR 0x0A]) b = \<lparr>sb_at_line_start = True, sb_dest = sb_dest b @ make_prefix t @ cs @ [CHR 0x0A]\<rparr>"
      using Cons.prems by (intro stamp_full_line) simp_all
    with Cons show ?case by simp
  qed (cases b, simp)
  then show ?thesis by (simp add: new_TimestampingStreambuf_def)
qed

text \<open>The file name always ends in \<^verbatim>\<open>.log\<close>, whatever was asked for.\<close>

lemma normalized_ends_with_log: "ends_with ''.log'' (normalize_log_path ts path)"
  by (simp add: normalize_log_path_def join_path_def ends_with_def Let_def)

lemma normalize_log_path_examples:
  "normalize_log_path ''T'' ''/var/log/pop.log'' = ''/var/log/pop-T.log''" "normalize_log_path ''T'' ''feed'' = ''feed-T.log''"
  "normalize_log_path ''T'' ''logs/'' = ''logs/pop-T.log''" "normalize_log_path ''T'' ''/x'' = ''/x-T.log''"
  by code_simp+

end
