(* ===== verification/FeedRest.thy ===== *)
theory FeedRest
  imports FeedHandler RestClient
begin

text \<open>
  The feed handler with its REST client: \<^verbatim>\<open>GenericFeedHandler.cpp\<close> over \<^verbatim>\<open>RestClient.cpp\<close>. The handler owns
  the client and both run on the one thread of the handler's \<^verbatim>\<open>io_context\<close>, so the \<^verbatim>\<open>dispatch\<close> of a request runs
  it at once, and every call of the client stands at the end of the handler's function: a call is
  modelled by running the client's operation after the step that makes it. The call of \<^verbatim>\<open>cancel()\<close> in \<^verbatim>\<open>stop()\<close> is
  followed by other work, but its callback finds the handler stopped and does nothing. A callback is
  the position of its request in \<open>fr_cbs\<close>; what the client logs as called is delivered to the
  handler with the HTTP status that the client holds then. Deliveries make no new request
  (\<open>answers_call_nothing\<close>). The lemmas join the two components: the requests that the handler thinks are
  in flight are those the client holds.
\<close>

section \<open>The composition\<close>

record feed_rest =
  fr_h :: gfh
  fr_c :: rest_client
  fr_cbs :: "rest_wait list"

text \<open>The constructor makes a client with kept connections.\<close>

definition new_feed_rest :: "gfh \<Rightarrow> feed_rest" where
  "new_feed_rest h = \<lparr>fr_h = h, fr_c = set_keep_alive True new_RestClient, fr_cbs = []\<rparr>"

fun answer_event :: "rest_wait \<Rightarrow> rest_error option \<Rightarrow> int \<Rightarrow> string \<Rightarrow> feed_event" where
  "answer_event SnapshotGet ec status body = SnapshotReply (ec \<noteq> None) status body"
| "answer_event BootstrapPost ec status body = BootstrapReply (ec \<noteq> None) body"

definition answer :: "'j json_api \<Rightarrow> env \<Rightarrow> nat \<times> rest_error option \<times> string \<Rightarrow> feed_rest \<Rightarrow> feed_rest" where
  "answer J v r s = (case r of (k, ec, body) \<Rightarrow>
     s\<lparr>fr_h := feed_step J (v, answer_event (fr_cbs s ! k) ec (last_http_status (fr_c s)) body) (fr_h s)\<rparr>)"

definition client_does :: "'j json_api \<Rightarrow> env \<Rightarrow> rest_event \<Rightarrow> feed_rest \<Rightarrow> feed_rest" where
  "client_does J v e s =
     (let c = rest_step e (fr_c s)
      in fold (answer J v) (drop (length (rc_log (fr_c s))) (rc_log c)) (s\<lparr>fr_c := c\<rparr>))"

fun make_call :: "'j json_api \<Rightarrow> env \<Rightarrow> feed_effect \<Rightarrow> feed_rest \<Rightarrow> feed_rest" where
  "make_call J v (RestGet host port target) s =
     client_does J v (DoGet host port target (length (fr_cbs s))) (s\<lparr>fr_cbs := fr_cbs s @ [SnapshotGet]\<rparr>)"
| "make_call J v (RestPost host port target body) s =
     client_does J v (DoPost host port target body (length (fr_cbs s))) (s\<lparr>fr_cbs := fr_cbs s @ [BootstrapPost]\<rparr>)"
| "make_call J v RestCancel s = client_does J v DoCancel s"
| "make_call J v _ s = s"

definition handler_does :: "'j json_api \<Rightarrow> env \<Rightarrow> (gfh \<Rightarrow> gfh) \<Rightarrow> feed_rest \<Rightarrow> feed_rest" where
  "handler_does J v f s =
     (let h = f (fr_h s)
      in fold (make_call J v) (drop (length (h_log (fr_h s))) (h_log h)) (s\<lparr>fr_h := h\<rparr>))"

text \<open>Replies come from the client and requests from the handler; all other events come from outside.\<close>

datatype fr_event = OnHandler feed_event | OnClient rest_event

fun is_reply :: "feed_event \<Rightarrow> bool" where
  "is_reply (SnapshotReply _ _ _) = True"
| "is_reply (BootstrapReply _ _) = True"
| "is_reply _ = False"

fun is_request :: "rest_event \<Rightarrow> bool" where
  "is_request (DoGet _ _ _ _) = True"
| "is_request (DoPost _ _ _ _ _) = True"
| "is_request DoCancel = True"
| "is_request _ = False"

fun fr_step :: "'j json_api \<Rightarrow> env \<times> fr_event \<Rightarrow> feed_rest \<Rightarrow> feed_rest" where
  "fr_step J (v, OnHandler e) s = (if is_reply e then s else handler_does J v (feed_step J (v, e)) s)"
| "fr_step J (v, OnClient e) s = (if is_request e then s else client_does J v e s)"

definition fr_started :: "'j json_api \<Rightarrow> feed_rest \<Rightarrow> bool" where
  "fr_started J s \<longleftrightarrow> (\<exists>null can_open cfg h v. init J can_open cfg (new_GenericFeedHandler null) = (OK, h) \<and> env_ok v \<and>
     s = handler_does J v (\<lambda>h. snd (start v h)) (new_feed_rest h))"

section \<open>Steps of the handler that make no request\<close>

fun wait_of :: "feed_effect \<Rightarrow> rest_wait option" where
  "wait_of (RestGet _ _ _) = Some SnapshotGet"
| "wait_of (RestPost _ _ _ _) = Some BootstrapPost"
| "wait_of _ = None"

fun is_call :: "feed_effect \<Rightarrow> bool" where
  "is_call (RestGet _ _ _) = True"
| "is_call (RestPost _ _ _ _) = True"
| "is_call RestCancel = True"
| "is_call _ = False"

abbreviation waits :: "feed_effect list \<Rightarrow> rest_wait list" where
  "waits es \<equiv> List.map_filter wait_of es"

definition silent :: "gfh \<Rightarrow> gfh \<Rightarrow> bool" where
  "silent h h' \<longleftrightarrow> (\<exists>es. h_log h' = h_log h @ es \<and> list_all (\<lambda>e. \<not> is_call e) es) \<and> h_rest h' = h_rest h \<and>
     h_adapter h' = h_adapter h \<and> (h_running h' \<longrightarrow> h_running h) \<and>
     (h_state h' = WAIT_REST_SNAPSHOT \<longrightarrow> h_state h = WAIT_REST_SNAPSHOT) \<and>
     (h_reconnect_timer h' = Some SnapshotRetry \<longrightarrow> h_reconnect_timer h = Some SnapshotRetry)"

named_theorems silent_intros

lemma silent_refl [simp, intro]: "silent h h"
  by (simp add: silent_def)

lemma silent_trans: "silent h h' \<Longrightarrow> silent h' h'' \<Longrightarrow> silent h h''"
  unfolding silent_def by (metis append.assoc list_all_append)

text \<open>Updates of fields that play no role, and the elementary functions.\<close>

lemma silent_frame:
  assumes "silent h0 h" and "h_log h' = h_log h" and "h_rest h' = h_rest h" and "h_adapter h' = h_adapter h"
    and "h_running h' = h_running h" and "h_state h' = h_state h" and "h_reconnect_timer h' = h_reconnect_timer h"
  shows "silent h0 h'"
  using assms by (simp add: silent_def)

lemma silent_fields [silent_intros]:
  assumes "silent h0 h"
  shows "silent h0 (h\<lparr>h_ctl := c\<rparr>)" and "silent h0 (h\<lparr>h_buffer := b\<rparr>)" and "silent h0 (h\<lparr>h_ws := w\<rparr>)"
    and "silent h0 (h\<lparr>h_rt := rt\<rparr>)" and "silent h0 (h\<lparr>h_connect_id := i\<rparr>)" and "silent h0 (h\<lparr>h_closing_for_restart := cl\<rparr>)"
    and "silent h0 (h\<lparr>h_resyncs := n\<rparr>)" and "silent h0 (h\<lparr>h_book_updates := n\<rparr>)" and "silent h0 (h\<lparr>h_msgs_received := n\<rparr>)"
    and "silent h0 (h\<lparr>h_last_ws_message_ns := t\<rparr>)" and "silent h0 (h\<lparr>h_watchdog_timer := wt\<rparr>)"
    and "silent h0 (h\<lparr>h_heartbeat_timer := hb\<rparr>)" and "silent h0 (h\<lparr>h_updates_since_book := u\<rparr>)"
    and "silent h0 (h\<lparr>h_reconnect_scheduled := hb\<rparr>)" and "silent h0 (h\<lparr>h_reconnect_timer := None\<rparr>)"
    and "silent h0 (h\<lparr>h_state := WAIT_BRIDGE\<rparr>)" and "silent h0 (h\<lparr>h_ctl := c, h_buffer := b\<rparr>)"
  using assms by (simp_all add: silent_def)

lemma silent_publish [silent_intros]: "silent h0 h \<Longrightarrow> silent h0 (publish p h)"
  by (auto simp: silent_def publish_def list_all_iff)

lemma silent_persist [silent_intros]:
  "silent h0 h \<Longrightarrow> silent h0 (persist_event p h)" "silent h0 h \<Longrightarrow> silent h0 (persist_snapshot sn src h)"
  "silent h0 h \<Longrightarrow> silent h0 (persist_incremental inc src h)"
proof -
  have e: "silent h0 h \<Longrightarrow> silent h0 (persist_event p h)" for p
    by (auto simp: silent_def persist_event_def split: option.split)
  then show "silent h0 h \<Longrightarrow> silent h0 (persist_event p h)" .
  show "silent h0 h \<Longrightarrow> silent h0 (persist_snapshot sn src h)" "silent h0 h \<Longrightarrow> silent h0 (persist_incremental inc src h)"
    by (simp_all add: persist_snapshot_def persist_incremental_def e silent_publish)
qed

lemma silent_book [silent_intros]: "silent h0 h \<Longrightarrow> silent h0 (maybe_persist_book v src h)"
  by (auto simp: maybe_persist_book_def Let_def intro!: silent_intros)

lemma silent_set_state [silent_intros]: "silent h0 h \<Longrightarrow> n \<noteq> WAIT_REST_SNAPSHOT \<Longrightarrow> silent h0 (set_state n r h)"
proof -
  assume "silent h0 h" and "n \<noteq> WAIT_REST_SNAPSHOT"
  then have "silent h0 (h\<lparr>h_state := n\<rparr>)" "silent h0 (h\<lparr>h_state := n, h_reconnect_delay_ms := d\<rparr>)" for d
    by (simp_all add: silent_def)
  then show ?thesis
    using \<open>silent h0 h\<close> by (auto simp: set_state_def Let_def reset_reconnect_delay_def intro!: silent_intros)
qed

lemma silent_watchdog [silent_intros]:
  "silent h0 h \<Longrightarrow> silent h0 (arm_ws_watchdog h)" "silent h0 h \<Longrightarrow> silent h0 (disarm_ws_watchdog h)"
  by (simp_all add: arm_ws_watchdog_def disarm_ws_watchdog_def Let_def silent_def)

lemma silent_cancel [silent_intros]:
  "silent h0 h \<Longrightarrow> silent h0 (close_during_restart h)" "silent h0 h \<Longrightarrow> silent h0 (cancel_ws h)"
  "silent h0 h \<Longrightarrow> silent h0 (connectWS h)"
  by (auto simp: close_during_restart_def cancel_ws_def connectWS_def Let_def intro!: silent_intros)

lemma silent_restart [silent_intros]: "silent h0 h \<Longrightarrow> silent h0 (restartSync v r h)"
proof -
  assume h: "silent h0 h"
  have s: "silent h0 (schedule_ws_reconnect (fst (next_reconnect_delay v h')) (snd (next_reconnect_delay v h')))"
    if "silent h0 h'" for h'
    using that by (simp add: schedule_ws_reconnect_def next_reconnect_delay_def Let_def silent_def)
  show ?thesis
    unfolding restartSync_def Let_def case_prod_beta
    by (cases "h_running h") (use h in \<open>auto intro!: s silent_intros\<close>)
qed

lemma silent_drain: "silent h0 h \<Longrightarrow> silent h0 (fst (drain_loop J v buf h))"
proof (induction J v buf h rule: drain_loop.induct)
  case (2 J v payload ts rest h)
  show ?case
  proof (cases "filtered (isIncremental (h_adapter h) payload) (parseIncremental J (h_adapter h) payload)")
    case (Parsed inc0)
    obtain action c where oi: "onIncrement (inc0\<lparr>inc_ts_recv_ns := ts\<rparr>) (h_ctl h) = (action, c)" by fastforce
    have "silent h0 (h\<lparr>h_buffer := rest, h_ctl := c\<rparr>)" using 2(3) by (intro silent_intros)
    then have "silent h0 (persist_incremental (inc0\<lparr>inc_ts_recv_ns := ts\<rparr>) ''ws_incremental'' (h\<lparr>h_buffer := rest, h_ctl := c\<rparr>))"
      by (rule silent_intros)
    then show ?thesis
      using Parsed oi 2(1) [OF Parsed refl oi [symmetric] refl refl] by (simp add: Let_def silent_restart silent_book)
  qed (use 2 in \<open>simp_all add: silent_fields\<close>)
qed (simp add: silent_fields)

lemma silent_drain_sync [silent_intros]: "silent h0 h \<Longrightarrow> silent h0 (drain_and_sync J v r h)"
  using silent_drain [of h0 h J v "h_buffer h"]
  by (simp add: drain_and_sync_def drainBufferedIncrementals_def case_prod_beta Let_def silent_set_state)

lemma silent_snapshot [silent_intros]: "silent h0 h \<Longrightarrow> silent h0 (onSnapshotResponse J v body h)"
  by (auto simp: onSnapshotResponse_def Let_def case_prod_beta split: parsed.split intro!: silent_intros)

lemma silent_bootstrap [silent_intros]: "silent h0 h \<Longrightarrow> silent h0 (on_bootstrap_response J v ec body h)"
  by (auto simp: on_bootstrap_response_def split: parsed.split intro!: silent_intros)

lemma silent_buffer: "silent h0 h \<Longrightarrow> silent h0 (fst (buffer_incremental v r msg h))"
  by (auto simp: buffer_incremental_def intro!: silent_intros)

lemma silent_baseline [silent_intros]:
  "silent h0 h \<Longrightarrow> silent h0 (on_ws_baseline J v sn h)" "silent h0 h \<Longrightarrow> silent h0 (on_interrupting_snapshot v sn h)"
  "silent h0 h \<Longrightarrow> silent h0 (on_steady_incremental v st inc h)"
  by (auto simp: on_ws_baseline_def on_interrupting_snapshot_def on_steady_incremental_def Let_def case_prod_beta
      intro!: silent_intros)

lemma silent_message [silent_intros]: "silent h0 h \<Longrightarrow> silent h0 (onWSMessage J v msg h)"
proof -
  have live: "silent h0 h \<Longrightarrow> silent h0 (on_live_message J v st msg h)" for h st
    by (auto simp: on_live_message_def Let_def case_prod_beta split: parsed.split intro!: silent_intros silent_buffer)
  have "silent h0 h \<Longrightarrow> silent h0 (dispatch_message J v msg h)" for h
    by (auto simp: dispatch_message_def Let_def split: parsed.split intro!: silent_intros silent_buffer live)
  then show "silent h0 h \<Longrightarrow> silent h0 (onWSMessage J v msg h)"
    by (simp add: onWSMessage_def silent_watchdog silent_frame)
qed

lemma silent_timers [silent_intros]:
  "silent h0 h \<Longrightarrow> silent h0 (onWSClose v h)" "silent h0 h \<Longrightarrow> silent h0 (watchdog_expired v h)"
  "silent h0 h \<Longrightarrow> silent h0 (heartbeat_expired h)"
  by (auto simp: onWSClose_def watchdog_expired_def heartbeat_expired_def emit_heartbeat_def arm_heartbeat_def Let_def
      split: option.split intro!: silent_intros)

section \<open>Steps of the handler that make requests\<close>

text \<open>Every step enters its requests in the log and among the requests in flight; it starts to wait for a
  snapshot only by requesting one.\<close>

definition tallied :: "gfh \<Rightarrow> gfh \<Rightarrow> bool" where
  "tallied h h' \<longleftrightarrow> (\<exists>es. h_log h' = h_log h @ es \<and> h_rest h' = h_rest h @ waits es) \<and>
     h_adapter h' = h_adapter h \<and> (h_running h' \<longrightarrow> h_running h) \<and>
     (h_state h' = WAIT_REST_SNAPSHOT \<longrightarrow> h_state h = WAIT_REST_SNAPSHOT \<or> SnapshotGet \<in> set (h_rest h')) \<and>
     (h_reconnect_timer h' = Some SnapshotRetry \<longrightarrow> h_reconnect_timer h = Some SnapshotRetry)"

lemma waits_append [simp]: "waits (es @ fs) = waits es @ waits fs"
  by (simp add: List.map_filter_def)

lemma waits_none: "list_all (\<lambda>e. \<not> is_call e) es \<Longrightarrow> waits es = []"
proof (induction es)
  case (Cons e es)
  then show ?case by (cases e) (simp_all add: List.map_filter_def)
qed (simp add: List.map_filter_def)

lemma silent_tallied: "silent h h' \<Longrightarrow> tallied h h'"
  unfolding silent_def tallied_def by (metis append.right_neutral waits_none)

lemma tallied_trans: "tallied h h' \<Longrightarrow> tallied h' h'' \<Longrightarrow> tallied h h''"
  unfolding tallied_def by (elim conjE exE) (auto simp: waits_append)

text \<open>Entering the wait for a snapshot is silent but for the state.\<close>

lemma set_state_wait:
  assumes "silent h0 h"
  shows "silent (h0\<lparr>h_state := WAIT_REST_SNAPSHOT\<rparr>) (set_state WAIT_REST_SNAPSHOT r h)"
proof -
  have "silent (h0\<lparr>h_state := WAIT_REST_SNAPSHOT\<rparr>) (h\<lparr>h_state := WAIT_REST_SNAPSHOT\<rparr>)" using assms by (simp add: silent_def)
  moreover from this have "silent (h0\<lparr>h_state := WAIT_REST_SNAPSHOT\<rparr>) h" if "h_state h = WAIT_REST_SNAPSHOT"
    using that by (simp add: silent_def)
  ultimately show ?thesis by (auto simp: set_state_def Let_def intro!: silent_intros)
qed

lemma tallied_request:
  assumes "silent h0 h \<or> silent (h0\<lparr>h_state := WAIT_REST_SNAPSHOT\<rparr>) h"
  shows "tallied h0 (requestSnapshot v h)"
proof -
  have "silent (h0\<lparr>h_state := WAIT_REST_SNAPSHOT\<rparr>) (set_state WAIT_REST_SNAPSHOT ''request_snapshot'' h)"
    using assms set_state_wait [of h0 h] set_state_wait [of "h0\<lparr>h_state := WAIT_REST_SNAPSHOT\<rparr>" h] by auto
  then show ?thesis
    using waits_none by (auto simp: silent_def tallied_def requestSnapshot_def Let_def List.map_filter_def)
qed

lemma tallied_bootstrap: "tallied h (bootstrapWS v h)"
  using silent_tallied [OF silent_restart [OF silent_refl], of h v]
  by (auto simp: bootstrapWS_def Let_def split: option.split)
    (auto simp: tallied_def List.map_filter_def)

lemma tallied_open: "tallied h (onWSOpen v h)"
proof -
  let ?h = "arm_ws_watchdog (h\<lparr>h_last_ws_message_ns := env_now v\<rparr>)"
  let ?h1 = "if rt_wsSubscribeFrame (h_rt ?h) \<noteq> [] then ?h\<lparr>h_ws := send_text (rt_wsSubscribeFrame (h_rt ?h)) (h_ws ?h)\<rparr> else ?h"
  have s: "silent h ?h1" by (auto intro!: silent_intros)
  have "tallied h (set_state WAIT_WS_SNAPSHOT ''ws_open_ws_authoritative'' ?h1)"
    by (intro silent_tallied silent_set_state s) simp
  moreover have "tallied h (requestSnapshot v (set_state WAIT_REST_SNAPSHOT ''ws_open_rest_anchored'' ?h1))"
    by (intro tallied_request disjI2 set_state_wait s)
  ultimately show ?thesis
    using silent_tallied [OF silent_refl, of h] by (simp add: onWSOpen_def Let_def)
qed

lemma tallied_callbacks: "tallied h (fold (run_callback J v) es h)"
proof (induction es arbitrary: h)
  case (Cons e es)
  have "tallied h (run_callback J v e h)"
    by (cases e) (auto simp: tallied_open intro!: silent_tallied silent_intros)
  then show ?case using Cons tallied_trans by fastforce
qed (simp add: silent_tallied)

lemma tallied_reconnect: "tallied h (reconnect_expired v h)"
proof -
  let ?h = "h\<lparr>h_reconnect_timer := None\<rparr>"
  let ?h1 = "?h\<lparr>h_reconnect_scheduled := False\<rparr>"
  have s: "silent h ?h" "silent h ?h1" by (intro silent_intros silent_refl)+
  have "tallied h (bootstrapWS v (set_state BOOTSTRAPPING r ?h1))" for r
    by (rule tallied_trans [OF silent_tallied tallied_bootstrap]) (intro silent_set_state s, simp)
  moreover have "tallied h (connectWS (set_state CONNECTING r ?h1))" for r
    by (intro silent_tallied silent_cancel silent_set_state s) simp
  moreover have "tallied h (requestSnapshot v ?h)" by (intro tallied_request disjI1 s)
  ultimately show ?thesis
    using s silent_tallied [OF silent_refl, of h]
    by (auto simp: reconnect_expired_def Let_def silent_tallied split: option.split reconnect_wait.split)
qed

lemma tallied_stop: "tallied h (snd (stop h))"
proof -
  let ?k = "h\<lparr>h_running := False, h_log := h_log h @ [RestCancel], h_ws := ws_close (h_ws h)\<rparr>"
  let ?h = "(disarm_ws_watchdog (?k\<lparr>h_log := h_log ?k @ map SinkStop (h_sinks ?k)\<rparr>))\<lparr>h_heartbeat_timer := False\<rparr>"
  have "tallied h ?k" by (simp add: tallied_def List.map_filter_def)
  moreover have "silent ?k (?k\<lparr>h_log := h_log ?k @ map SinkStop (h_sinks ?k)\<rparr>)" by (simp add: silent_def list_all_iff)
  then have "silent ?k (set_state DISCONNECTED ''stop'' ?h)" by (intro silent_intros) simp_all
  then have "silent ?k (snd (stop h))" by (rule silent_frame) (simp_all add: stop_def Let_def)
  ultimately show ?thesis using tallied_trans silent_tallied by blast
qed

lemma tallied_step:
  assumes "\<not> is_reply e"
  shows "tallied h (feed_step J (v, e) h)"
proof (cases e)
  case (WsHappens w)
  have "tallied h (h\<lparr>h_ws := w'\<rparr>)" for w' by (intro silent_tallied silent_intros silent_refl)
  then show ?thesis
    unfolding WsHappens feed_step.simps ws_happens_def Let_def by (rule tallied_trans [OF _ tallied_callbacks])
qed (use assms in \<open>simp_all add: tallied_reconnect tallied_stop silent_tallied silent_timers\<close>)

section \<open>What the client answers\<close>

text \<open>An answer without error carries a status of the 2xx range, or none at all: a stale shutdown
  can end a request before its response.\<close>

definition good_status :: "int \<Rightarrow> bool" where
  "good_status n \<longleftrightarrow> n = 0 \<or> 200 \<le> n \<and> n < 300"

definition client_ok :: "rest_client \<Rightarrow> bool" where
  "client_ok c \<longleftrightarrow> (rc_final_ec c = None \<longrightarrow> good_status (rc_last_status c))"

definition answers :: "rest_client \<Rightarrow> rest_client \<Rightarrow> bool" where
  "answers c c' \<longleftrightarrow> client_ok c' \<and> (\<exists>rs. rc_log c' = rc_log c @ rs \<and>
     (\<forall>r \<in> set rs. fst (snd r) = None \<longrightarrow> good_status (rc_last_status c')))"

lemma answers_frame: "rc_log c1 = rc_log c \<Longrightarrow> answers c1 c' \<Longrightarrow> answers c c'"
  by (simp add: answers_def)

lemma answers_quiet: "client_ok c' \<Longrightarrow> rc_log c' = rc_log c \<Longrightarrow> answers c c'"
  by (simp add: answers_def)

lemma answers_finish: "client_ok c \<Longrightarrow> answers c (finish c)"
  by (auto simp: answers_def client_ok_def finish_def call_handler_def rest_timer_defs Let_def split: option.split)

lemma answers_shutdown: "client_ok c \<Longrightarrow> answers c (do_tls_shutdown c)"
  by (rule answers_quiet) (simp_all add: client_ok_def do_tls_shutdown_def rest_timer_defs)

lemma answers_fail: "client_ok c \<Longrightarrow> answers c (rest_fail e c)"
proof -
  assume c: "client_ok c"
  have "answers c (finish (rest_close_socket (c\<lparr>rc_final_ec := Some e\<rparr>)))"
    by (rule answers_frame [OF _ answers_finish]) (simp_all add: client_ok_def rest_timer_defs)
  moreover have "answers c (do_tls_shutdown (c\<lparr>rc_final_ec := Some e\<rparr>))"
    by (rule answers_frame [OF _ answers_shutdown]) (simp_all add: client_ok_def)
  ultimately show ?thesis using c by (simp add: rest_fail_def Let_def answers_quiet)
qed

lemma answers_handlers:
  assumes "client_ok c"
  shows "answers c (rest_resolved ec c)" and "answers c (rest_connected ec sni c)"
    and "answers c (rest_handshaken ec c)" and "answers c (rest_written ec c)"
proof -
  have "answers c (rest_fail e (c\<lparr>rc_socket_open := True\<rparr>))" for e
    by (rule answers_frame [OF _ answers_fail]) (use assms in \<open>simp_all add: client_ok_def\<close>)
  moreover have "answers c (start_op p c')" if "client_ok c'" "rc_log c' = rc_log c" for p c'
    using that by (intro answers_quiet) (simp_all add: client_ok_def start_op_def)
  ultimately show "answers c (rest_resolved ec c)" "answers c (rest_connected ec sni c)"
    "answers c (rest_handshaken ec c)" "answers c (rest_written ec c)"
    using assms answers_fail [OF assms]
    by (auto simp: rest_resolved_def rest_connected_def rest_handshaken_def rest_written_def client_ok_def Let_def split: option.split)
qed

lemma answers_read: "client_ok c \<Longrightarrow> answers c (rest_read r c)"
proof (cases r)
  case (Inr res)
  define d where "d = (disarm_deadline c)\<lparr>rc_last_status := rs_status res, rc_server_keep_alive := rs_keep_alive res,
    rc_response_body := rs_body res, rc_final_ec := (if rs_status res < 200 \<or> rs_status res \<ge> 300 then Some Non2xx else None)\<rparr>"
  have "rc_log d = rc_log c" "client_ok d" by (simp_all add: d_def client_ok_def good_status_def rest_timer_defs)
  then have "answers c (finish d)" "answers c (do_tls_shutdown d)"
    using answers_frame answers_finish answers_shutdown by blast+
  moreover have "rest_read r c = finish d \<or> rest_read r c = do_tls_shutdown d"
    by (auto simp: rest_read_def Inr d_def Let_def)
  ultimately show ?thesis by auto
qed (simp add: rest_read_def answers_fail)

lemma answers_ending:
  assumes "client_ok c"
  shows "answers c (rest_shut_down ec c)" and "answers c (deadline_fires c)" and "answers c (shutdown_deadline_fires c)"
    and "answers c (rest_cancel c)"
proof -
  have f: "answers c (finish c')" "answers c (do_tls_shutdown c')" "answers c (rest_fail e c')" if "client_ok c'" "rc_log c' = rc_log c" for c' e
    using that answers_frame answers_finish answers_shutdown answers_fail by blast+
  show "answers c (rest_shut_down ec c)" "answers c (deadline_fires c)" "answers c (shutdown_deadline_fires c)"
    "answers c (rest_cancel c)"
    using assms
    by (auto simp: rest_shut_down_def deadline_fires_def shutdown_deadline_fires_def rest_cancel_def client_ok_def rest_timer_defs
        Let_def answers_quiet intro!: f)
qed

lemma answers_request: "client_ok c \<Longrightarrow> answers c (async_request m h p t b k c)"
proof -
  assume c: "client_ok c"
  have bad: "answers c (finish (c\<lparr>rc_in_flight := True, rc_host := h, rc_port := p, rc_target := t, rc_cb := Some k, rc_final_ec := Some InvalidArgument\<rparr>))"
    by (rule answers_frame [OF _ answers_finish]) (simp_all add: client_ok_def)
  have "answers c (async_request m h p t b k c)" if "\<not> rc_in_flight c" "\<not> bad_target t"
    using that by (intro answers_quiet)
      (simp_all add: async_request_def client_ok_def good_status_def reset_per_request_state_def rest_timer_defs Let_def)
  then show ?thesis
    using c bad by (auto simp: async_request_def Let_def) (auto simp: answers_def call_handler_def client_ok_def)
qed

lemma answers_step:
  assumes "client_ok c"
  shows "answers c (rest_step e c)"
proof -
  have "answers c (complete p h c)" if "\<And>c. client_ok c \<Longrightarrow> answers c (h c)" for p h
  proof -
    have "client_ok (c\<lparr>rc_pending := remove1 p (rc_pending c)\<rparr>)" using assms by (simp add: client_ok_def)
    from that [OF this] show ?thesis using assms by (auto simp: complete_def answers_quiet answers_def)
  qed
  then show ?thesis
    using assms
    by (cases e) (auto simp: answers_handlers answers_read answers_ending answers_request answers_quiet async_get_def async_post_def)
qed

section \<open>Answers in the handler\<close>

text \<open>Delivering an answer makes no call and only takes its request off the handler's list.\<close>

lemma answers_call_nothing:
  assumes "w \<in> set (h_rest h)" and "ec = None \<longrightarrow> good_status st"
  shows "silent (h\<lparr>h_rest := remove1 w (h_rest h)\<rparr>) (feed_step J (v, answer_event w ec st body) h)"
proof -
  let ?h = "h\<lparr>h_rest := remove1 w (h_rest h)\<rparr>"
  have "st \<noteq> 429 \<and> st \<noteq> 418" if "ec = None" using assms(2) that by (auto simp: good_status_def)
  then have "silent ?h (on_snapshot_reply J v (ec \<noteq> None) st body ?h)"
    by (auto simp: on_snapshot_reply_def intro!: silent_intros)
  moreover have "silent ?h (on_bootstrap_response J v (ec \<noteq> None) body ?h)" by (intro silent_intros silent_refl)
  ultimately show ?thesis using assms(1) by (cases w) simp_all
qed

lemma restart_state: "h_running h \<Longrightarrow> h_state (restartSync v r h) = CONNECTING"
  by (erule restart_unfold [of h v r]) (simp add: core_def schedule_ws_reconnect_def next_reconnect_delay_def Let_def)

lemma snapshot_answer_ends_wait:
  assumes "SnapshotGet \<in> set (h_rest h)" and "ec = None \<longrightarrow> good_status st" and "\<forall>b. parseSnapshot J (h_adapter h) b \<noteq> Threw"
    and "h_running (feed_step J (v, answer_event SnapshotGet ec st body) h)"
  shows "h_state (feed_step J (v, answer_event SnapshotGet ec st body) h) \<noteq> WAIT_REST_SNAPSHOT"
proof -
  let ?h = "h\<lparr>h_rest := remove1 SnapshotGet (h_rest h)\<rparr>"
  have run: "h_running h" using answers_call_nothing [OF assms(1,2), of J v body] assms(4) by (simp add: silent_def)
  have drained: "h_state (drain_and_sync J v r (set_state WAIT_BRIDGE r' k)) \<noteq> WAIT_REST_SNAPSHOT" for r r' k
    using silent_drain_sync [OF silent_refl, where h = "set_state WAIT_BRIDGE r' k" and J = J and v = v and r = r] by (auto simp: silent_def)
  have "h_state (onSnapshotResponse J v body ?h) \<noteq> WAIT_REST_SNAPSHOT"
    using run assms(3) [rule_format, of body] drained
    by (auto simp: onSnapshotResponse_def restart_state Let_def case_prod_beta split: parsed.split)
  then show ?thesis
    using assms(1,2) run by (auto simp: on_snapshot_reply_def restart_state good_status_def)
qed

text \<open>Only KuCoin's parser lets an exception out.\<close>

lemma parser_throws_nothing: "a \<noteq> KucoinAdapter \<Longrightarrow> parseSnapshot J a body \<noteq> Threw"
  by (cases a) (simp_all add: binance_parseSnapshot_def split: parsed.split)

section \<open>The joint invariant\<close>

text \<open>With \<open>rs\<close> still to deliver and \<open>es\<close> still to call: the requests of the handler's list are the
  undelivered ones, the one the client holds and those not yet called.\<close>

definition slot :: "rest_client \<Rightarrow> nat multiset" where
  "slot c = (case rc_cb c of None \<Rightarrow> {#} | Some k \<Rightarrow> {#k#})"

definition joint :: "(nat \<times> rest_error option \<times> string) list \<Rightarrow> feed_effect list \<Rightarrow> feed_rest \<Rightarrow> bool" where
  "joint rs es s \<longleftrightarrow>
     mset (h_rest (fr_h s)) = image_mset ((!) (fr_cbs s)) (mset (map fst rs) + slot (fr_c s)) + mset (waits es) \<and>
     (\<forall>k \<in># mset (map fst rs) + slot (fr_c s). k < length (fr_cbs s)) \<and>
     rest_reachable (fr_c s) \<and> client_ok (fr_c s) \<and> (\<forall>r \<in> set rs. fst (snd r) = None \<longrightarrow> good_status (rc_last_status (fr_c s))) \<and>
     h_reconnect_timer (fr_h s) \<noteq> Some SnapshotRetry \<and>
     (h_adapter (fr_h s) \<noteq> KucoinAdapter \<and> h_running (fr_h s) \<and> h_state (fr_h s) = WAIT_REST_SNAPSHOT \<longrightarrow>
       SnapshotGet \<in> set (h_rest (fr_h s)))"

lemma joint_answer:
  assumes "joint (r # rs) es s"
  shows "joint rs es (answer J v r s)"
proof -
  obtain k ec body where r: "r = (k, ec, body)" by (cases r)
  let ?w = "fr_cbs s ! k" and ?st = "last_http_status (fr_c s)" and ?h = "fr_h s"
  let ?h' = "feed_step J (v, answer_event ?w ec ?st body) ?h"
  note j = assms [unfolded joint_def, simplified r]
  have "?w \<in># mset (h_rest ?h)" using j by simp
  then have w: "?w \<in> set (h_rest ?h)" by simp
  have g: "ec = None \<longrightarrow> good_status ?st" using j by (simp add: last_http_status_def)
  have s: "silent (?h\<lparr>h_rest := remove1 ?w (h_rest ?h)\<rparr>) ?h'" by (rule answers_call_nothing [OF w g])
  then have rest: "h_rest ?h' = remove1 ?w (h_rest ?h)" by (simp add: silent_def)
  have wait: "SnapshotGet \<in> set (h_rest ?h')"
    if "h_adapter ?h' \<noteq> KucoinAdapter" "h_running ?h'" "h_state ?h' = WAIT_REST_SNAPSHOT"
  proof (cases ?w)
    case SnapshotGet
    have "h_adapter ?h \<noteq> KucoinAdapter" using s that(1) by (simp add: silent_def)
    then have "\<forall>b. parseSnapshot J (h_adapter ?h) b \<noteq> Threw" using parser_throws_nothing by blast
    from snapshot_answer_ends_wait [OF _ g this, of v body] w that(2,3) SnapshotGet show ?thesis by simp
  next
    case BootstrapPost
    have "SnapshotGet \<in> set (h_rest ?h)" using s that j by (simp add: silent_def)
    then show ?thesis unfolding rest using BootstrapPost by (simp add: in_set_remove1)
  qed
  have "mset (h_rest ?h') = image_mset ((!) (fr_cbs s)) (mset (map fst rs) + slot (fr_c s)) + mset (waits es)"
    using j by (simp add: rest)
  moreover have "h_reconnect_timer ?h' \<noteq> Some SnapshotRetry" using s j by (simp add: silent_def)
  ultimately show ?thesis using j wait by (simp add: joint_def answer_def r)
qed

lemma joint_answers: "joint rs es s \<Longrightarrow> joint [] es (fold (answer J v) rs s)"
  by (induction rs arbitrary: s) (simp_all add: joint_answer)

text \<open>An event of the client, with the request it makes if it makes one.\<close>

lemma joint_client:
  assumes "mset (h_rest (fr_h s)) = image_mset ((!) (fr_cbs s)) (slot (fr_c s) + mset (requested [e])) + mset (waits es)"
    and "\<forall>k \<in># slot (fr_c s) + mset (requested [e]). k < length (fr_cbs s)"
    and "rest_reachable (fr_c s)" and "client_ok (fr_c s)" and "h_reconnect_timer (fr_h s) \<noteq> Some SnapshotRetry"
    and "h_adapter (fr_h s) \<noteq> KucoinAdapter \<and> h_running (fr_h s) \<and> h_state (fr_h s) = WAIT_REST_SNAPSHOT \<longrightarrow>
       SnapshotGet \<in> set (h_rest (fr_h s))"
  shows "joint [] es (client_does J v e s)"
proof -
  let ?c = "rest_step e (fr_c s)"
  obtain rs where rs: "rc_log ?c = rc_log (fr_c s) @ rs" "\<forall>r \<in> set rs. fst (snd r) = None \<longrightarrow> good_status (rc_last_status ?c)"
    and ok: "client_ok ?c"
    using answers_step [OF assms(4), of e] by (auto simp: answers_def)
  have "account ?c = account (fr_c s) + mset (requested [e])"
    using account_step [OF reachable_holds [OF assms(3)], of e] by simp
  then have a: "mset (map fst rs) + slot ?c = slot (fr_c s) + mset (requested [e])"
    by (simp add: account_def rs(1) slot_def)
  have "joint rs es (s\<lparr>fr_c := ?c\<rparr>)"
    using assms(1,2,5,6) rs(2) ok rest_reachable.step [OF assms(3)] unfolding a [symmetric] by (simp add: joint_def)
  then show ?thesis unfolding client_does_def Let_def rs(1) by (simp add: joint_answers)
qed

lemma joint_call: "joint [] (e # es) s \<Longrightarrow> joint [] es (make_call J v e s)"
proof -
  assume j: "joint [] (e # es) s"
  have old: "image_mset ((!) (fr_cbs s @ [w])) (slot (fr_c s)) = image_mset ((!) (fr_cbs s)) (slot (fr_c s))" for w
    using j by (intro image_mset_cong) (simp add: joint_def nth_append)
  have lt: "k < length (fr_cbs s)" if "k \<in># slot (fr_c s)" for k using j that by (simp add: joint_def)
  show ?thesis
  proof (cases e)
    case (RestGet host port target)
    show ?thesis
      unfolding RestGet make_call.simps
      by (rule joint_client) (use j lt in \<open>auto simp: joint_def old RestGet List.map_filter_def less_SucI\<close>)
  next
    case (RestPost host port target body)
    show ?thesis
      unfolding RestPost make_call.simps
      by (rule joint_client) (use j lt in \<open>auto simp: joint_def old RestPost List.map_filter_def less_SucI\<close>)
  next
    case RestCancel
    show ?thesis
      unfolding RestCancel make_call.simps
      by (rule joint_client) (use j in \<open>auto simp: joint_def RestCancel List.map_filter_def\<close>)
  qed (use j in \<open>simp_all add: joint_def List.map_filter_def\<close>)
qed

lemma joint_calls: "joint [] es s \<Longrightarrow> joint [] [] (fold (make_call J v) es s)"
  by (induction es arbitrary: s) (simp_all add: joint_call)

lemma joint_handler:
  assumes "joint [] [] s" and "\<exists>es. h_log (f (fr_h s)) = h_log (fr_h s) @ es \<and> h_rest (f (fr_h s)) = h_rest (fr_h s) @ waits es"
    and "h_reconnect_timer (f (fr_h s)) \<noteq> Some SnapshotRetry"
    and "h_adapter (f (fr_h s)) \<noteq> KucoinAdapter \<and> h_running (f (fr_h s)) \<and> h_state (f (fr_h s)) = WAIT_REST_SNAPSHOT \<longrightarrow>
       SnapshotGet \<in> set (h_rest (f (fr_h s)))"
  shows "joint [] [] (handler_does J v f s)"
proof -
  obtain es where es: "h_log (f (fr_h s)) = h_log (fr_h s) @ es" "h_rest (f (fr_h s)) = h_rest (fr_h s) @ waits es"
    using assms(2) by blast
  have "joint [] es (s\<lparr>fr_h := f (fr_h s)\<rparr>)" using assms(1,3,4) es(2) by (simp add: joint_def List.map_filter_def)
  then show ?thesis by (simp add: handler_does_def Let_def es(1) joint_calls)
qed

lemma joint_step: "joint [] [] s \<Longrightarrow> joint [] [] (fr_step J ve s)"
proof -
  assume j: "joint [] [] s"
  obtain v e where ve: "ve = (v, e)" by (cases ve)
  show ?thesis
  proof (cases e)
    case (OnHandler f)
    have "joint [] [] (handler_does J v (feed_step J (v, f)) s)" if "\<not> is_reply f"
      using tallied_step [OF that, of "fr_h s" J v] j by (intro joint_handler) (auto simp: tallied_def joint_def)
    then show ?thesis using j by (simp add: ve OnHandler)
  next
    case (OnClient c)
    have "requested [c] = []" if "\<not> is_request c" using that by (cases c) simp_all
    then have "joint [] [] (client_does J v c s)" if "\<not> is_request c"
      using that j by (intro joint_client) (auto simp: joint_def List.map_filter_def)
    then show ?thesis using j by (simp add: ve OnClient)
  qed
qed

interpretation joint_steps: steps "fr_step J" "joint [] []" for J
  by unfold_locales (rule joint_step)

section \<open>Runs of the composition\<close>

text \<open>What the composition does to the handler is a run of the handler in the same environments.\<close>

definition handler_run :: "'j json_api \<Rightarrow> env set \<Rightarrow> gfh \<Rightarrow> gfh \<Rightarrow> bool" where
  "handler_run J vs h h' \<longleftrightarrow> (\<exists>evs. h' = fold (feed_step J) evs h \<and> fst ` set evs \<subseteq> vs)"

lemma handler_run_refl [simp, intro]: "handler_run J vs h h"
  by (auto simp: handler_run_def intro: exI [of _ "[]"])

lemma handler_run_step: "handler_run J vs h h' \<Longrightarrow> v \<in> vs \<Longrightarrow> handler_run J vs h (feed_step J (v, e) h')"
  unfolding handler_run_def by (elim exE conjE) (rule_tac x = "evs @ [(v, e)]" in exI, simp)

lemma handler_run_answers:
  "handler_run J vs h (fr_h s) \<Longrightarrow> v \<in> vs \<Longrightarrow> handler_run J vs h (fr_h (fold (answer J v) rs s))"
proof (induction rs arbitrary: s)
  case (Cons r rs)
  have "handler_run J vs h (fr_h (answer J v r s))"
    using Cons.prems by (simp add: answer_def case_prod_beta handler_run_step)
  from Cons.IH [OF this Cons.prems(2)] show ?case by simp
qed simp

lemma handler_run_client: "handler_run J vs h (fr_h s) \<Longrightarrow> v \<in> vs \<Longrightarrow> handler_run J vs h (fr_h (client_does J v e s))"
  by (simp add: client_does_def Let_def handler_run_answers)

lemma handler_run_calls:
  "handler_run J vs h (fr_h s) \<Longrightarrow> v \<in> vs \<Longrightarrow> handler_run J vs h (fr_h (fold (make_call J v) es s))"
proof (induction es arbitrary: s)
  case (Cons e es)
  have "handler_run J vs h (fr_h (make_call J v e s))"
    using Cons.prems by (cases e) (simp_all add: handler_run_client)
  from Cons.IH [OF this Cons.prems(2)] show ?case by simp
qed simp

lemma handler_run_fr:
  "handler_run J vs h (fr_h s) \<Longrightarrow> fst ` set evs \<subseteq> vs \<Longrightarrow> handler_run J vs h (fr_h (fold (fr_step J) evs s))"
proof (induction evs arbitrary: s)
  case (Cons ve evs)
  obtain v e where ve: "ve = (v, e)" by (cases ve)
  have v: "v \<in> vs" using Cons.prems(2) by (simp add: ve)
  have "handler_run J vs h (fr_h (fr_step J ve s))"
    using Cons.prems(1) v unfolding ve
    by (cases e) (simp_all add: handler_does_def Let_def handler_run_client handler_run_calls handler_run_step)
  from Cons.IH [OF this] Cons.prems(2) show ?case by simp
qed simp

text \<open>The REST client changes nothing that the handler's theorems rely on. Every run of a started handler with its client,
  with the answers exactly as the client gives them, is a run of the handler alone from its start, in
  the environments of the run: all that is shown of the handler under arbitrary REST
  answers holds of the composition.\<close>

theorem composed_runs_are_handler_runs:
  assumes "fr_started J s" and "list_all (\<lambda>e. env_ok (fst e)) evs"
  shows "\<exists>h0 evs'. started J h0 \<and> list_all (\<lambda>e. env_ok (fst e)) evs' \<and>
    fr_h (fold (fr_step J) evs s) = fold (feed_step J) evs' h0"
proof -
  obtain null can_open cfg h v where i: "init J can_open cfg (new_GenericFeedHandler null) = (OK, h)" "env_ok v"
    and s: "s = handler_does J v (\<lambda>h. snd (start v h)) (new_feed_rest h)"
    using assms(1) by (auto simp: fr_started_def)
  let ?h0 = "snd (start v h)" and ?vs = "insert v (fst ` set evs)"
  have "start v h = (OK, ?h0)" using init_base(2) [OF i(1)] by (simp add: start_def Let_def)
  then have "started J ?h0" using i unfolding started_def by blast
  moreover have "handler_run J ?vs ?h0 (fr_h s)"
    by (simp add: s handler_does_def Let_def new_feed_rest_def handler_run_calls)
  then have "handler_run J ?vs ?h0 (fr_h (fold (fr_step J) evs s))" by (rule handler_run_fr) auto
  then obtain evs' where "fr_h (fold (fr_step J) evs s) = fold (feed_step J) evs' ?h0" "fst ` set evs' \<subseteq> ?vs"
    by (auto simp: handler_run_def)
  moreover have "list_all (\<lambda>e. env_ok (fst e)) evs'"
    using \<open>fst ` set evs' \<subseteq> ?vs\<close> assms(2) i(2) by (fastforce simp: list_all_iff)
  ultimately show ?thesis by blast
qed

lemma started_joint:
  assumes "fr_started J s"
  shows "joint [] [] s"
proof -
  obtain null can_open cfg h v where i: "init J can_open cfg (new_GenericFeedHandler null) = (OK, h)"
    and s: "s = handler_does J v (\<lambda>h. snd (start v h)) (new_feed_rest h)"
    using assms by (auto simp: fr_started_def)
  have h: "h_rest h = []" "h_reconnect_timer h = None"
    using i by (auto simp: init_def new_GenericFeedHandler_def Let_def split: if_splits sum.splits)
  have n: "\<not> h_running h" "h_state h = DISCONNECTED" using init_base [OF i] by simp_all
  let ?r = "h\<lparr>h_running := True\<rparr>"
  let ?k = "set_state CONNECTING ''start'' ?r"
  let ?k1 = "?k\<lparr>h_connect_id := makeConnectId v, h_log := h_log ?k @ map SinkStart (h_sinks ?k)\<rparr>"
  have "silent ?r ?k" by (intro silent_intros silent_refl) simp
  then have k1: "silent ?r ?k1" by (auto simp: silent_def list_all_iff)
  have "tallied ?r (bootstrapWS v (set_state BOOTSTRAPPING ''venue_bootstrap_required'' ?k1))"
    by (rule tallied_trans [OF silent_tallied tallied_bootstrap]) (intro silent_set_state k1, simp)
  moreover have "tallied ?r (connectWS (arm_heartbeat ?k1))"
    unfolding arm_heartbeat_def by (intro silent_tallied silent_intros k1)
  ultimately have t: "tallied ?r (snd (start v h))" using n(1) by (simp add: start_def Let_def)
  have "slot (set_keep_alive True new_RestClient) = {#}" "client_ok (set_keep_alive True new_RestClient)"
    by (simp_all add: slot_def client_ok_def good_status_def set_keep_alive_def new_RestClient_def)
  then have "joint [] [] (new_feed_rest h)"
    using h n by (simp add: joint_def new_feed_rest_def rest_reachable.start List.map_filter_def)
  then show ?thesis
    unfolding s using t h n(2) by (intro joint_handler) (auto simp: tallied_def new_feed_rest_def)
qed

lemma composed_joint: "fr_started J s \<Longrightarrow> joint [] [] (fold (fr_step J) evs s)"
  by (rule joint_steps.always) (rule started_joint)

lemma joint_requests:
  assumes "joint [] [] s"
  shows "h_rest (fr_h s) = (case rc_cb (fr_c s) of None \<Rightarrow> [] | Some k \<Rightarrow> [fr_cbs s ! k])"
  using assms by (auto simp: joint_def slot_def List.map_filter_def split: option.splits)

text \<open>Answers leave the client alone.\<close>

lemma answers_keep_client: "fr_c (fold (answer J v) rs s) = fr_c s"
  by (induction rs arbitrary: s) (simp_all add: answer_def case_prod_beta)

lemma client_runs:
  "list_all (\<lambda>e. \<not> is_request e) ces \<Longrightarrow>
    fr_c (fold (fr_step J) (map (\<lambda>e. (v, OnClient e)) ces) s) = fold rest_step ces (fr_c s)"
  by (induction ces arbitrary: s) (simp_all add: client_does_def Let_def answers_keep_client)

lemma enabled_no_request: "enabled_run enabled rest_step ces c \<Longrightarrow> list_all (\<lambda>e. \<not> is_request e) ces"
proof (induction ces arbitrary: c)
  case (Cons e ces)
  then show ?case by (cases e) auto
qed simp

lemma waits_with_request:
  assumes "joint [] [] s" and "h_adapter (fr_h s) \<noteq> KucoinAdapter" and "h_running (fr_h s)"
    and "h_state (fr_h s) = WAIT_REST_SNAPSHOT"
  obtains k where "rc_cb (fr_c s) = Some k" and "fr_cbs s ! k = SnapshotGet" and "rc_in_flight (fr_c s)" and "\<exists>e. enabled e (fr_c s)"
proof -
  have "SnapshotGet \<in> set (h_rest (fr_h s))" and r: "rest_reachable (fr_c s)" using assms by (simp_all add: joint_def)
  then obtain k where k: "rc_cb (fr_c s) = Some k" "fr_cbs s ! k = SnapshotGet"
    using joint_requests [OF assms(1)] by (auto split: option.splits)
  then have "rc_in_flight (fr_c s)" using reachable_holds [OF r] by (simp add: holds_handler_def)
  with k in_flight_enabled [OF r] show thesis by (intro that) simp_all
qed

text \<open>C6: A wait for a snapshot ends. The requests that the handler counts as in flight are exactly the one that the client
  holds, in every run. Whenever a running handler of any venue but KuCoin waits for a REST snapshot, the client has that
  request in flight and something it waits for; and however its completions and timers
  then come, when none is left the handler no longer waits: it has a snapshot, or it has started
  over.\<close>

theorem snapshot_wait_ends:
  assumes "fr_started J s" and "s' = fold (fr_step J) evs s"
  shows "h_rest (fr_h s') = (case rc_cb (fr_c s') of None \<Rightarrow> [] | Some k \<Rightarrow> [fr_cbs s' ! k]) \<and>
    (h_adapter (fr_h s') \<noteq> KucoinAdapter \<and> h_running (fr_h s') \<and> h_state (fr_h s') = WAIT_REST_SNAPSHOT \<longrightarrow>
       rc_in_flight (fr_c s') \<and> fr_cbs s' ! the (rc_cb (fr_c s')) = SnapshotGet \<and> (\<exists>e. enabled e (fr_c s'))) \<and>
    (\<forall>ces v. enabled_run enabled rest_step ces (fr_c s') \<and> \<not> (\<exists>e. enabled e (fold rest_step ces (fr_c s'))) \<longrightarrow>
       (let h = fr_h (fold (fr_step J) (map (\<lambda>e. (v, OnClient e)) ces) s')
        in h_adapter h \<noteq> KucoinAdapter \<and> h_running h \<longrightarrow> h_state h \<noteq> WAIT_REST_SNAPSHOT))"
proof (intro conjI allI impI)
  have j: "joint [] [] s'" unfolding assms(2) by (rule composed_joint [OF assms(1)])
  show "h_rest (fr_h s') = (case rc_cb (fr_c s') of None \<Rightarrow> [] | Some k \<Rightarrow> [fr_cbs s' ! k])" by (rule joint_requests [OF j])
  assume w: "h_adapter (fr_h s') \<noteq> KucoinAdapter \<and> h_running (fr_h s') \<and> h_state (fr_h s') = WAIT_REST_SNAPSHOT"
  obtain k where "rc_cb (fr_c s') = Some k" "fr_cbs s' ! k = SnapshotGet" "rc_in_flight (fr_c s')" "\<exists>e. enabled e (fr_c s')"
    by (rule waits_with_request [OF j]) (use w in simp_all)
  then show "rc_in_flight (fr_c s')" "fr_cbs s' ! the (rc_cb (fr_c s')) = SnapshotGet" "\<exists>e. enabled e (fr_c s')" by simp_all
next
  fix ces v
  assume run: "enabled_run enabled rest_step ces (fr_c s') \<and> \<not> (\<exists>e. enabled e (fold rest_step ces (fr_c s')))"
  let ?s = "fold (fr_step J) (map (\<lambda>e. (v, OnClient e)) ces) s'"
  have "fr_c ?s = fold rest_step ces (fr_c s')" by (rule client_runs) (use run enabled_no_request in blast)
  moreover have "joint [] [] ?s" unfolding assms(2) by (intro joint_steps.always started_joint [OF assms(1)])
  ultimately show "let h = fr_h ?s in h_adapter h \<noteq> KucoinAdapter \<and> h_running h \<longrightarrow> h_state h \<noteq> WAIT_REST_SNAPSHOT"
    using waits_with_request [of ?s] run unfolding Let_def by metis
qed

text \<open>KuCoin's parser throws on a level it cannot read; the client swallows the exception, and the
  handler goes on waiting with no request in flight.\<close>

lemma throwing_snapshot_keeps_waiting:
  assumes "joint [(k, None, body)] [] s" and "fr_cbs s ! k = SnapshotGet" and "h_state (fr_h s) = WAIT_REST_SNAPSHOT"
    and "parseSnapshot J (h_adapter (fr_h s)) body = Threw" and "200 \<le> rc_last_status (fr_c s)"
  shows "h_state (fr_h (answer J v (k, None, body) s)) = WAIT_REST_SNAPSHOT"
    and "slot (fr_c s) = {#} \<Longrightarrow> h_rest (fr_h (answer J v (k, None, body) s)) = []"
proof -
  have r: "SnapshotGet \<in># mset (h_rest (fr_h s))" using assms(1,2) by (simp add: joint_def)
  have st: "\<not> rc_last_status (fr_c s) < 200" "\<not> 300 \<le> rc_last_status (fr_c s)" "rc_last_status (fr_c s) \<noteq> 429"
    "rc_last_status (fr_c s) \<noteq> 418"
    using assms(1,5) by (auto simp: joint_def good_status_def)
  have a: "fr_h (answer J v (k, None, body) s) = (fr_h s)\<lparr>h_rest := remove1 SnapshotGet (h_rest (fr_h s))\<rparr>"
    using r assms(2,4) st by (simp add: answer_def on_snapshot_reply_def onSnapshotResponse_def last_http_status_def)
  show "h_state (fr_h (answer J v (k, None, body) s)) = WAIT_REST_SNAPSHOT" by (simp add: a assms(3))
  assume "slot (fr_c s) = {#}"
  then have "mset (h_rest (fr_h s)) = {#SnapshotGet#}" using assms(1,2) by (simp add: joint_def List.map_filter_def)
  then show "h_rest (fr_h (answer J v (k, None, body) s)) = []" by (simp add: a)
qed

text \<open>C40: A rate-limited snapshot is not retried. The client reports every status outside the 2xx range
  as an error, and the handler looks at the error before the status: in no run is the retry of
  the 429 and 418 branch ever armed. Instead such an answer, once the connection is shut down,
  throws the book and the buffer away, cancels the WebSocket and schedules a reconnect.\<close>

theorem rate_limited_snapshot_restarts:
  assumes "fr_started J s" and "s' = fold (fr_step J) evs s" and "h_running (fr_h s')"
    and "rc_in_flight (fr_c s')" and "\<not> rc_shutting_down (fr_c s')" and "OpRead \<in> set (rc_pending (fr_c s'))"
    and "fr_cbs s' ! the (rc_cb (fr_c s')) = SnapshotGet" and "rs_status res = 429 \<or> rs_status res = 418"
  shows "h_reconnect_timer (fr_h s') \<noteq> Some SnapshotRetry \<and>
    fr_h (fold (fr_step J) [(v, OnClient (ReadResponse (Inr res))), (v', OnClient (ShutDown ec))] s') =
      restartSync v' ''rest_snapshot_transport_error'' ((fr_h s')\<lparr>h_rest := []\<rparr>)"
proof
  have j: "joint [] [] s'" unfolding assms(2) by (rule composed_joint [OF assms(1)])
  then show "h_reconnect_timer (fr_h s') \<noteq> Some SnapshotRetry" by (simp add: joint_def)
  have "rest_reachable (fr_c s')" using j by (simp add: joint_def)
  then obtain k where k: "rc_cb (fr_c s') = Some k" using reachable_holds assms(4) by (auto simp: holds_handler_def)
  have h: "h_rest (fr_h s') = [SnapshotGet]" using joint_requests [OF j] k assms(7) by simp
  let ?c1 = "rest_step (ReadResponse (Inr res)) (fr_c s')"
  let ?c2 = "rest_step (ShutDown ec) ?c1"
  have c1: "rc_log ?c1 = rc_log (fr_c s')" "rc_in_flight ?c1" "OpShutdown \<in> set (rc_pending ?c1)" "rc_cb ?c1 = Some k"
    "rc_final_ec ?c1 = Some Non2xx" "rc_response_body ?c1 = rs_body res"
    using assms(4-6,8) k by (auto simp: complete_def rest_read_def do_tls_shutdown_def rest_timer_defs Let_def)
  then have c2: "rc_log ?c2 = rc_log ?c1 @ [(k, Some Non2xx, rs_body res)]"
    by (simp add: complete_def rest_shut_down_def finish_def call_handler_def rest_timer_defs Let_def)
  have s1: "fr_step J (v, OnClient (ReadResponse (Inr res))) s' = s'\<lparr>fr_c := ?c1\<rparr>"
    unfolding fr_step.simps client_does_def Let_def c1(1) by simp
  have "fr_step J (v', OnClient (ShutDown ec)) (s'\<lparr>fr_c := ?c1\<rparr>) = answer J v' (k, Some Non2xx, rs_body res) (s'\<lparr>fr_c := ?c2\<rparr>)"
    by (simp add: client_does_def Let_def c2 del: rest_step.simps)
  then show "fr_h (fold (fr_step J) [(v, OnClient (ReadResponse (Inr res))), (v', OnClient (ShutDown ec))] s') =
      restartSync v' ''rest_snapshot_transport_error'' ((fr_h s')\<lparr>h_rest := []\<rparr>)"
    using s1 h k assms(3,7) by (simp add: answer_def on_snapshot_reply_def del: fr_step.simps)
qed

section \<open>A concrete run\<close>

definition binance_cfg :: FeedHandlerConfig where
  "binance_cfg = demo_cfg\<lparr>venue_name := BINANCE, brain_ws_host := []\<rparr>"

definition binance_started :: feed_rest where
  "binance_started = handler_does tree_api demo_env (\<lambda>h. snd (start demo_env h))
     (new_feed_rest (snd (init tree_api (\<lambda>_. False) binance_cfg (new_GenericFeedHandler demo_ctl))))"

definition binance_events :: "(env \<times> fr_event) list" where
  "binance_events = map (Pair demo_env) [OnHandler (WsHappens (HandshakeDone False)),
     OnClient (Resolve None), OnClient (TcpConnect None None), OnClient (TlsHandshakeDone None), OnClient (Written None)]"


lemmas binance_defs = demo_defs binance_started_def binance_cfg_def handler_does_def new_feed_rest_def arm_connect_deadline_def
  disarm_connect_deadline_def stop_ping_loop_def set_idle_ping_def arm_heartbeat_def binance_caps_def

lemma binance_started: "fr_started tree_api binance_started"
proof -
  let ?i = "init tree_api (\<lambda>_. False) binance_cfg (new_GenericFeedHandler demo_ctl)"
  have "fst ?i = OK" by (simp add: demo_defs binance_cfg_def Let_def)
  then have "?i = (OK, snd ?i)" by (metis prod.collapse)
  then show ?thesis using demo_env_ok unfolding fr_started_def binance_started_def by blast
qed

lemma binance_client: "fr_c binance_started = set_keep_alive True new_RestClient" "fr_cbs binance_started = []"
  by (simp_all add: binance_defs Let_def)

lemma binance_fields:
  "h_running (fr_h binance_started)" "h_adapter (fr_h binance_started) = BinanceAdapter"
  "sync_mode (rt_caps (h_rt (fr_h binance_started))) = RestAnchored" "h_rest (fr_h binance_started) = []"
  "h_sinks (fr_h binance_started) = []" "h_state (fr_h binance_started) = CONNECTING"
  "\<not> closing (h_ws (fr_h binance_started))" "outbox (h_ws (fr_h binance_started)) = []" "\<not> write_in_flight (h_ws (fr_h binance_started))"
  by (simp_all add: binance_defs Let_def)

lemma binance_target: "\<not> bad_target (rt_restSnapshotTarget (h_rt (fr_h binance_started)))"
  by (simp add: binance_defs Let_def bad_target_def binance_restSnapshotTarget_def)

lemma run_only_callbacks: "fold (run_callback J v) es h = fold (run_callback J v) (filter is_callback es) h"
proof (induction es arbitrary: h)
  case (Cons e es)
  then show ?case by (cases e) simp_all
qed simp

lemma open_requests:
  assumes "h_running h" and "sync_mode (rt_caps (h_rt h)) = RestAnchored" and "h_sinks h = []"
  shows "h_state (onWSOpen v h) = WAIT_REST_SNAPSHOT" and "h_running (onWSOpen v h)" and "h_adapter (onWSOpen v h) = h_adapter h"
    and "h_log (onWSOpen v h) = h_log h @ [RestGet (ep_host (rt_rest (h_rt h))) (ep_port (rt_rest (h_rt h))) (rt_restSnapshotTarget (h_rt h))]"
proof -
  have s: "h_sinks h' = [] \<Longrightarrow> h_log (set_state n r h') = h_log h'" for n r h'
    by (simp add: set_state_def Let_def reset_reconnect_delay_def)
  have "h_log (arm_ws_watchdog h') = h_log h'" for h' by (simp add: arm_ws_watchdog_def Let_def)
  then show "h_state (onWSOpen v h) = WAIT_REST_SNAPSHOT" "h_running (onWSOpen v h)" "h_adapter (onWSOpen v h) = h_adapter h"
    "h_log (onWSOpen v h) = h_log h @ [RestGet (ep_host (rt_rest (h_rt h))) (ep_port (rt_rest (h_rt h))) (rt_restSnapshotTarget (h_rt h))]"
    using assms by (simp_all add: onWSOpen_def requestSnapshot_def Let_def s)
qed

text \<open>The open WebSocket makes the handler request its snapshot.\<close>

definition binance_waiting :: feed_rest where
  "binance_waiting = fr_step tree_api (demo_env, OnHandler (WsHappens (HandshakeDone False))) binance_started"

lemma binance_open:
  obtains host port target where "\<not> bad_target target"
    and "fr_c binance_waiting = rest_step (DoGet host port target 0) (set_keep_alive True new_RestClient)"
    and "fr_cbs binance_waiting = [SnapshotGet]" and "h_state (fr_h binance_waiting) = WAIT_REST_SNAPSHOT"
    and "h_running (fr_h binance_waiting)" and "h_adapter (fr_h binance_waiting) = BinanceAdapter"
proof -
  let ?h = "fr_h binance_started"
  let ?w = "handshake_done False (h_ws ?h)"
  define h1 where "h1 = feed_step tree_api (demo_env, WsHappens (HandshakeDone False)) ?h"
  obtain es where es: "ws_log ?w = ws_log (h_ws ?h) @ es" "filter is_callback es = [CallOpen]"
    using binance_fields by (auto simp: handshake_done_def ws_defs start_ping_loop_def Let_def)
  have "h1 = onWSOpen demo_env (?h\<lparr>h_ws := ?w\<rparr>)"
    unfolding h1_def by (simp add: ws_happens_def Let_def es run_only_callbacks [of _ _ es])
  then have h1: "h_state h1 = WAIT_REST_SNAPSHOT" "h_running h1" "h_adapter h1 = BinanceAdapter"
     "\<exists>host port. h_log h1 = h_log ?h @ [RestGet host port (rt_restSnapshotTarget (h_rt ?h))]"
    using binance_fields open_requests [of "?h\<lparr>h_ws := ?w\<rparr>" demo_env] by simp_all
  then obtain host port where log: "h_log h1 = h_log ?h @ [RestGet host port (rt_restSnapshotTarget (h_rt ?h))]" by blast
  let ?c = "rest_step (DoGet host port (rt_restSnapshotTarget (h_rt ?h)) 0) (set_keep_alive True new_RestClient)"
  have c: "rc_log ?c = rc_log (set_keep_alive True new_RestClient)"
    using binance_target
    by (simp add: async_get_def async_request_def set_keep_alive_def new_RestClient_def reset_per_request_state_def rest_timer_defs Let_def)
  have w: "binance_waiting = binance_started\<lparr>fr_h := h1, fr_cbs := [SnapshotGet], fr_c := ?c\<rparr>"
    using log c by (simp add: binance_waiting_def handler_does_def h1_def [symmetric] client_does_def binance_client Let_def
        del: rest_step.simps feed_step.simps)
  show thesis by (rule that [OF binance_target]; simp only: w; simp add: h1)
qed

text \<open>The first four completions of a fresh request answer nothing.\<close>

lemma quiet_client: "rc_log (rest_step e (fr_c s)) = rc_log (fr_c s) \<Longrightarrow> \<not> is_request e \<Longrightarrow>
    fr_step J (v, OnClient e) s = s\<lparr>fr_c := rest_step e (fr_c s)\<rparr>"
  by (simp add: client_does_def Let_def)

lemma binance_reads:
  fixes s
  defines "s \<equiv> fold (fr_step tree_api) binance_events binance_started"
  shows "rc_cb (fr_c s) = Some 0" and "rc_in_flight (fr_c s)" and "\<not> rc_shutting_down (fr_c s)" and "OpRead \<in> set (rc_pending (fr_c s))"
    and "fr_cbs s = [SnapshotGet]" and "h_running (fr_h s)" and "h_state (fr_h s) = WAIT_REST_SNAPSHOT" and "h_adapter (fr_h s) = BinanceAdapter"
proof -
  obtain host port target where w: "\<not> bad_target target"
    "fr_c binance_waiting = rest_step (DoGet host port target 0) (set_keep_alive True new_RestClient)"
    "fr_cbs binance_waiting = [SnapshotGet]" "h_state (fr_h binance_waiting) = WAIT_REST_SNAPSHOT"
    "h_running (fr_h binance_waiting)" "h_adapter (fr_h binance_waiting) = BinanceAdapter" by (rule binance_open)
  let ?c1 = "rest_step (Resolve None) (fr_c binance_waiting)"
  let ?c2 = "rest_step (TcpConnect None None) ?c1"
  let ?c3 = "rest_step (TlsHandshakeDone None) ?c2"
  let ?c4 = "rest_step (Written None) ?c3"
  note d = async_get_def async_request_def set_keep_alive_def new_RestClient_def reset_per_request_state_def rest_timer_defs
    can_reuse_connection_def Let_def complete_def rest_resolved_def rest_connected_def rest_handshaken_def rest_written_def
  have q: "rc_log ?c1 = rc_log (fr_c binance_waiting)" "rc_log ?c2 = rc_log ?c1" "rc_log ?c3 = rc_log ?c2" "rc_log ?c4 = rc_log ?c3"
    unfolding w(2) using w(1) by (simp_all add: d)
  have s: "s = binance_waiting\<lparr>fr_c := ?c4\<rparr>"
    using q by (simp add: s_def binance_events_def binance_waiting_def [symmetric] quiet_client del: rest_step.simps fr_step.simps)
  have "rc_cb ?c4 = Some 0" "rc_in_flight ?c4" "\<not> rc_shutting_down ?c4" "OpRead \<in> set (rc_pending ?c4)"
    unfolding w(2) using w(1) by (simp_all add: d)
  then show "rc_cb (fr_c s) = Some 0" "rc_in_flight (fr_c s)" "\<not> rc_shutting_down (fr_c s)" "OpRead \<in> set (rc_pending (fr_c s))"
    "fr_cbs s = [SnapshotGet]" "h_running (fr_h s)" "h_state (fr_h s) = WAIT_REST_SNAPSHOT" "h_adapter (fr_h s) = BinanceAdapter"
    using s w by simp_all
qed

theorem composed_runs_are_handler_runs_witness:
  "\<exists>h0 evs'. started tree_api h0 \<and>
     fr_h (fold (fr_step tree_api) binance_events binance_started) = fold (feed_step tree_api) evs' h0"
  using composed_runs_are_handler_runs [OF binance_started, of binance_events] demo_env_ok
  by (auto simp: binance_events_def list_all_iff)

theorem snapshot_wait_ends_witness:
  "h_state (fr_h (fold (fr_step tree_api) binance_events binance_started)) = WAIT_REST_SNAPSHOT \<and>
   (\<exists>e. enabled e (fr_c (fold (fr_step tree_api) binance_events binance_started)))"
  using snapshot_wait_ends [OF binance_started refl, of binance_events] binance_reads by simp

theorem rate_limited_snapshot_restarts_witness:
  "h_state (fr_h (fold (fr_step tree_api) [(demo_env, OnClient (ReadResponse (Inr \<lparr>rs_status = 429, rs_keep_alive = True, rs_body = []\<rparr>))),
     (demo_env, OnClient (ShutDown None))] (fold (fr_step tree_api) binance_events binance_started))) = CONNECTING"
  using rate_limited_snapshot_restarts [OF binance_started refl, of binance_events "\<lparr>rs_status = 429, rs_keep_alive = True, rs_body = []\<rparr>" demo_env demo_env None]
    binance_reads restart_state
  by (simp del: fold_simps)

end
