(* ===== verification/BrainReplay.thy ===== *)
theory BrainReplay
  imports Brain Backtest
begin

text \<open>
  The live brain against the back-test engine: \<^verbatim>\<open>brain/app/brain.cpp\<close> takes events from its queue on the scan thread,
  with clients, writer rounds and operator signals in between, where \<^verbatim>\<open>BacktestEngine.cpp\<close> is called line by line.
  A simulation relates the two: the same book, detectors of the same configuration and the same rate-limiter table.
  It gives that a replay finds, cross for cross, what the brain found and wrote.
\<close>

section \<open>Runs of the engine and consumed events\<close>

fun feed_lines :: "'j json_api \<Rightarrow> (string \<times> i64 \<times> i64) list \<Rightarrow> backtest \<Rightarrow> ArbCross list \<times> backtest" where
  "feed_lines J [] e = ([], e)"
| "feed_lines J ((line, now, now') # rest) e =
     (let (cs, e) = feed_event J now now' line e; (cs', e) = feed_lines J rest e in (cs @ cs', e))"

text \<open>The events that the scan thread takes off the queue in a run, with its clock readings.\<close>

fun taken :: "brain_event \<Rightarrow> 'j brain_proc \<Rightarrow> ('j \<times> i64 \<times> i64) list" where
  "taken (BScan now now') b = (if bp_scan_running b \<and> bp_queue b \<noteq> [] then [(hd (bp_queue b), now, now')] else [])"
| "taken _ b = []"

fun consumed :: "'j json_api \<Rightarrow> (string \<Rightarrow> bool) \<Rightarrow> brain_event list \<Rightarrow> 'j brain_proc \<Rightarrow> ('j \<times> i64 \<times> i64) list" where
  "consumed J opens [] b = []"
| "consumed J opens (e # es) b = taken e b @ consumed J opens es (brain_step J opens e b)"

text \<open>Lines that decode to the events, with the same readings.\<close>

definition records :: "'j json_api \<Rightarrow> (string \<times> i64 \<times> i64) list \<Rightarrow> ('j \<times> i64 \<times> i64) list \<Rightarrow> bool" where
  "records J lines evs \<longleftrightarrow> map (\<lambda>(l, c). (j_parse J l, c)) lines = map (\<lambda>(j, c). (Some j, c)) evs"

section \<open>The simulation\<close>

definition twin :: "detector \<Rightarrow> detector \<Rightarrow> bool" where
  "twin d d' \<longleftrightarrow> same_config d d' \<and> last_emit_ns d = last_emit_ns d'"

definition mirrors :: "'j brain_proc \<Rightarrow> backtest \<Rightarrow> bool" where
  "mirrors b e \<longleftrightarrow> bp_book b = bt_book e \<and> twin (bp_arb b) (bt_arb e)"

lemma same_config_sym: "same_config d d' \<Longrightarrow> same_config d' d"
  by (simp add: same_config_def)

lemma same_config_trans: "same_config d d' \<Longrightarrow> same_config d' d'' \<Longrightarrow> same_config d d''"
  by (simp add: same_config_def)

lemma twin_emit: "twin d d' \<Longrightarrow> twin (emit J c d) (emit J c' d')"
  using same_config_emit [of d' J c d] same_config_emit [of "emit J c d" J c' d'] same_config_sym [of d d']
    same_config_sym [of d' "emit J c d"]
  by (simp add: twin_def)

lemma twin_rate:
  assumes "twin d d'"
  shows "fst (check_rate_limit k t d) = fst (check_rate_limit k t d')"
    and "twin (snd (check_rate_limit k t d)) (snd (check_rate_limit k t d'))"
  using assms by (auto simp: twin_def check_rate_limit_def same_config_def split: option.split)

lemma twin_pair:
  assumes "twin (fst st) (fst st')" and "snd st = snd st'" and "same_config cfg cfg'"
  shows "twin (fst (scan_pair J now vs cfg p st)) (fst (scan_pair J now vs cfg' p st')) \<and>
    snd (scan_pair J now vs cfg p st) = snd (scan_pair J now vs cfg' p st')"
  using assms(1,2)
  by (auto simp: scan_pair_def Let_def case_prod_beta same_config_guards [OF assms(3)] twin_rate(1) [OF assms(1)]
      intro!: twin_emit twin_rate(2))

lemma twin_scan:
  assumes "twin d d'"
  shows "twin (fst (scan J now vs d)) (fst (scan J now vs d'))" and "snd (scan J now vs d) = snd (scan J now vs d')"
proof -
  have c: "same_config d d'" using assms by (simp add: twin_def)
  have "twin (fst (fold (scan_pair J now us d) ps st)) (fst (fold (scan_pair J now us d') ps st')) \<and>
      snd (fold (scan_pair J now us d) ps st) = snd (fold (scan_pair J now us d') ps st')"
    if "twin (fst st) (fst st')" "snd st = snd st'" for us ps st st'
    using that
  proof (induction ps arbitrary: st st')
    case (Cons p ps)
    from Cons.IH [OF conjunct1 conjunct2, OF twin_pair twin_pair, OF Cons.prems c Cons.prems c] show ?case by simp
  qed simp
  then show "twin (fst (scan J now vs d)) (fst (scan J now vs d'))" "snd (scan J now vs d) = snd (scan J now vs d')"
    using assms unfolding scan_pairs by simp_all
qed

section \<open>What the brain has written\<close>

text \<open>With an open output file and no rotation: the file and the queue hold one line per cross, in order.\<close>

definition ledger :: "'j json_api \<Rightarrow> string \<Rightarrow> ArbCross list \<Rightarrow> detector \<Rightarrow> bool" where
  "ledger J old cs d \<longleftrightarrow> ad_active d \<and> ad_open d \<and> output_max_bytes d = 0 \<and> crosses_total d = of_nat (length cs) \<and>
     length (write_queue d) \<le> length cs \<and>
     (\<exists>text. ad_disk d (output_path_base d) = Some text \<and>
        text @ concat (write_queue d) = old @ concat (map (cross_line J) cs))"

lemma ledger_scan:
  assumes "ledger J old cs d" and "length (cs @ snd (scan J now vs d)) \<le> kWriteQueueCap"
  shows "ledger J old (cs @ snd (scan J now vs d)) (fst (scan J now vs d))"
proof -
  let ?d = "fst (scan J now vs d)" and ?cs = "snd (scan J now vs d)"
  have "queued J d (snd (d, [])) (fst (d, []))" using assms(1) by (simp add: queued_def ledger_def)
  from queued_fold [OF this] have q: "queued J d ?cs ?d" unfolding scan_pairs .
  have "emitted d (snd (d, [])) (fst (d, []))" by (simp add: emitted_def)
  from emitted_fold [OF this] have "emitted d ?cs ?d" unfolding scan_pairs .
  then have n: "crosses_total ?d = of_nat (length (cs @ ?cs))" using assms(1) by (simp add: emitted_def ledger_def)
  have w: "write_queue ?d = write_queue d @ map (cross_line J) ?cs"
    using q assms cross_queue.fold_push_room [of "write_queue d" "map (cross_line J) ?cs"]
    by (simp add: queued_def ledger_def)
  have f: "ad_active ?d" "ad_open ?d" "output_max_bytes ?d = output_max_bytes d" "ad_disk ?d = ad_disk d"
    "output_path_base ?d = output_path_base d"
    using q by (simp_all add: queued_def)
  show ?thesis using assms(1) f(1,2) unfolding ledger_def w n f(3-5) by (auto simp: append_assoc [symmetric] simp del: append_assoc)
qed

lemma ledger_writer: "ledger J old cs d \<Longrightarrow> ledger J old cs (writer_step opens d)"
  by (auto simp: ledger_def writer_step_def write_line_def Let_def split: list.split)

section \<open>Runs\<close>

text \<open>One event applied by the scan thread and by the engine.\<close>

lemma mirror_event:
  assumes "mirrors b e" and "j_parse J line = Some j"
  shows "mirrors (apply_event J now now' j b) (snd (feed_event J now now' line e))"
    and "bp_arb (apply_event J now now' j b) = bp_arb b \<and> fst (feed_event J now now' line e) = [] \<or>
      (\<exists>vs. bp_arb (apply_event J now now' j b) = fst (scan J now' vs (bp_arb b)) \<and>
        fst (feed_event J now now' line e) = snd (scan J now' vs (bp_arb b)))"
proof -
  have eq: "bt_book e = bp_book b" and t: "twin (bp_arb b) (bt_arb e)" using assms(1) by (simp_all add: mirrors_def)
  note s = twin_scan [OF t, of J now']
  note f = feed_event_def apply_event_def scan_books_def push_signals_frame assms(2) eq case_prod_beta Let_def
  show "mirrors (apply_event J now now' j b) (snd (feed_event J now now' line e))"
    using s(1) t by (auto simp: f mirrors_def split: sum.split)
  show "bp_arb (apply_event J now now' j b) = bp_arb b \<and> fst (feed_event J now now' line e) = [] \<or>
      (\<exists>vs. bp_arb (apply_event J now now' j b) = fst (scan J now' vs (bp_arb b)) \<and>
        fst (feed_event J now now' line e) = snd (scan J now' vs (bp_arb b)))"
    using s(2) by (auto simp: f split: sum.split)
qed

text \<open>The other events change the detector only by a round of the writer or by the promotion.\<close>

lemma other_events:
  assumes "taken e b = []"
  shows "bp_book (brain_step J opens e b) = bp_book b"
    and "bp_arb (brain_step J opens e b) \<in> {bp_arb b, writer_step opens (bp_arb b), set_active True (bp_arb b)}"
  using assms
  by (cases e; auto simp: brain_defs split: list.split option.split prod.split if_splits)+

lemma twin_writer: "twin (writer_step opens d) d' = twin d d'"
  by (simp add: twin_def same_config_def writer_step_def write_line_def rotate_output_def Let_def split: list.split option.split)

lemma replay_run:
  assumes "mirrors b e" and "ledger J old cs0 (bp_arb b)" and "records J lines (consumed J opens es b)"
    and "length (cs0 @ fst (feed_lines J lines e)) \<le> kWriteQueueCap"
  shows "mirrors (run_brain J opens es b) (snd (feed_lines J lines e)) \<and>
    ledger J old (cs0 @ fst (feed_lines J lines e)) (bp_arb (run_brain J opens es b))"
  using assms
proof (induction es arbitrary: b e lines cs0)
  case Nil
  then show ?case by (simp add: run_brain_def records_def)
next
  case (Cons ev es)
  show ?case
  proof (cases "taken ev b = []")
    case True
    note o = other_events [OF True, of J opens]
    have "mirrors (brain_step J opens ev b) e"
      using Cons.prems(1) o by (auto simp: mirrors_def twin_writer) (simp_all add: twin_def same_config_def set_active_def)
    moreover have "ledger J old cs0 (set_active True (bp_arb b))" using Cons.prems(2) by (simp add: ledger_def set_active_def)
    then have "ledger J old cs0 (bp_arb (brain_step J opens ev b))" using Cons.prems(2) o(2) by (auto simp: ledger_writer)
    moreover have "records J lines (consumed J opens es (brain_step J opens ev b))" using Cons.prems(3) True by simp
    ultimately show ?thesis using Cons.IH Cons.prems(4) by (simp add: run_brain_def)
  next
    case False
    then obtain now now' j rest where ev: "ev = BScan now now'" "bp_scan_running b" "bp_queue b = j # rest"
      by (cases ev) (auto split: if_splits simp: neq_Nil_conv)
    then obtain line lines' where l: "lines = (line, now, now') # lines'" "j_parse J line = Some j"
      "records J lines' (consumed J opens es (brain_step J opens ev b))"
      using Cons.prems(3) by (auto simp: records_def)
    let ?b = "b\<lparr>bp_queue := rest\<rparr>" and ?e = "snd (feed_event J now now' line e)" and ?cs = "fst (feed_event J now now' line e)"
    have m: "mirrors ?b e" using Cons.prems(1) by (simp add: mirrors_def)
    note me = mirror_event [OF m l(2), of now now']
    have b: "brain_step J opens ev b = update_health_snapshot (apply_event J now now' j ?b)" by (simp add: ev scan_round_def)
    have "mirrors (brain_step J opens ev b) ?e" using me(1) by (simp add: b mirrors_def update_health_snapshot_def)
    moreover have len: "length ((cs0 @ ?cs) @ fst (feed_lines J lines' ?e)) \<le> kWriteQueueCap"
      using Cons.prems(4) by (simp add: l(1) case_prod_beta Let_def)
    then have "ledger J old (cs0 @ ?cs) (bp_arb (brain_step J opens ev b))"
      using me(2) Cons.prems(2) ledger_scan [of J old cs0 "bp_arb b" now'] by (auto simp: b update_health_snapshot_def)
    ultimately show ?thesis
      using Cons.IH [of "brain_step J opens ev b" ?e "cs0 @ ?cs" lines'] l len by (simp add: run_brain_def case_prod_beta Let_def)
  qed
qed

section \<open>The brain and its replay\<close>

text \<open>The engine with the options of the brain.\<close>

definition brain_engine :: "BrainOptions \<Rightarrow> backtest" where
  "brain_engine opts = new_BacktestEngine (unat (bo_depth opts)) (bo_min_spread_bps opts) (bo_max_spread_bps opts)
     (bo_rate_limit_ms opts * 1000000) (bo_max_age_ms opts * 1000000) (bo_max_price_deviation_pct opts)"

lemma started_mirrors:
  assumes "brain_main opens disk tls_ok addr_ok server_ok signal_ok (Some vm) = Inr b0"
    and "bo_venue_fee_bps (bp_opts b0) = Map.empty"
  shows "mirrors b0 (brain_engine (bp_opts b0))"
  using assms(2)
  by (cases rule: brain_main_started [OF assms(1)])
    (simp add: mirrors_def brain_engine_def new_BacktestEngine_def twin_def same_config_def new_detector_def set_active_def
      new_ArbDetector_def make_arb_def Let_def)

lemma started_ledger:
  assumes "brain_main opens disk tls_ok addr_ok server_ok signal_ok (Some vm) = Inr b0" and "\<not> bv_standby vm"
    and "bo_output_max_mb (bp_opts b0) = 0" and "bo_output (bp_opts b0) \<noteq> []" and "opens (bo_output (bp_opts b0))"
  shows "ledger J (case disk (bo_output (bp_opts b0)) of Some t \<Rightarrow> t | None \<Rightarrow> []) [] (bp_arb b0)"
    and "output_path_base (bp_arb b0) = bo_output (bp_opts b0)"
  using assms(2-)
  by (cases rule: brain_main_started [OF assms(1)],
      auto simp: ledger_def new_detector_def set_active_def new_ArbDetector_def Let_def split: option.split)+

lemma writer_path: "output_path_base (writer_step opens d) = output_path_base d"
  by (simp add: writer_step_def write_line_def rotate_output_def Let_def split: list.split option.split)

lemma scan_path: "output_path_base (fst (scan J now vs d)) = output_path_base d"
proof -
  have e: "output_path_base (emit J c d) = output_path_base d" for c d by (simp add: emit_def Let_def)
  have "output_path_base (fst (fold (scan_pair J now venues cfg) ps st)) = output_path_base (fst st)" for venues cfg ps st
  proof (induction ps arbitrary: st)
    case (Cons p ps)
    have "output_path_base (fst (scan_pair J now venues cfg p st)) = output_path_base (fst st)"
      by (cases rule: scan_pair_cases [of J now venues cfg p st]) (simp_all add: e rate_frame)
    with Cons show ?case by simp
  qed simp
  then show ?thesis by (simp add: scan_pairs)
qed

lemma run_path: "output_path_base (bp_arb (run_brain J opens es b)) = output_path_base (bp_arb b)"
proof -
  have "output_path_base (bp_arb (brain_step J opens e b)) = output_path_base (bp_arb b)" for e b
  proof (cases "taken e b = []")
    case True
    then show ?thesis using other_events(2) [OF True, of J opens] by (auto simp: writer_path set_active_def)
  next
    case False
    then obtain now now' j rest where "e = BScan now now'" "bp_scan_running b" "bp_queue b = j # rest"
      by (cases e) (auto split: if_splits simp: neq_Nil_conv)
    then show ?thesis
      using apply_event_frame(3) [of J now now' j "b\<lparr>bp_queue := rest\<rparr>"]
      by (auto simp: scan_round_def update_health_snapshot_def scan_path)
  qed
  then show ?thesis unfolding run_brain_def by (induction es arbitrary: b) simp_all
qed

text \<open>C4: A replay finds what the brain found. Take any run of an active brain, with clients, messages, writer rounds and
  signals interleaved in any way, no venue fees and an output file without rotation. Feed the back-test
  engine with the options of the brain and with lines that decode to the events the scan thread took from its queue,
  at the same clock readings. Then the engine ends with the books of the brain; the brain has counted exactly
  the crosses the engine returned; and once the writer is flushed its file holds, after what it
  held before, one line for each of them in order. This holds up to 4096 crosses, the size of the write queue, also when the writer
  never got a turn.\<close>

theorem replay_finds_the_brains_crosses:
  assumes "brain_main opens disk tls_ok addr_ok server_ok signal_ok (Some vm) = Inr b0" and "\<not> bv_standby vm"
    and "bo_venue_fee_bps (bp_opts b0) = Map.empty" and "bo_output_max_mb (bp_opts b0) = 0"
    and "bo_output (bp_opts b0) \<noteq> []" and "opens (bo_output (bp_opts b0))"
    and "records J lines (consumed J opens es b0)"
    and "feed_lines J lines (brain_engine (bp_opts b0)) = (cs, e)" and "length cs \<le> 4096"
  shows "let b = run_brain J opens es b0 in
    bp_book b = bt_book e \<and> crosses_total (bp_arb b) = of_nat (length cs) \<and>
    ad_disk (flush_detector opens (bp_arb b)) (bo_output (bp_opts b0)) =
      Some ((case disk (bo_output (bp_opts b0)) of Some t \<Rightarrow> t | None \<Rightarrow> []) @ concat (map (cross_line J) cs))"
proof -
  let ?b = "run_brain J opens es b0" and ?old = "case disk (bo_output (bp_opts b0)) of Some t \<Rightarrow> t | None \<Rightarrow> []"
  note l0 = started_ledger [OF assms(1,2,4-6)]
  have m: "mirrors ?b e" and l: "ledger J ?old cs (bp_arb ?b)"
    using replay_run [OF started_mirrors [OF assms(1,3)] l0(1) assms(7)] assms(8,9) by (simp_all add: kWriteQueueCap_def)
  then obtain content where t: "ad_disk (bp_arb ?b) (output_path_base (bp_arb ?b)) = Some content"
    "content @ concat (write_queue (bp_arb ?b)) = ?old @ concat (map (cross_line J) cs)"
    by (auto simp: ledger_def)
  have "output_path_base (bp_arb ?b) = bo_output (bp_opts b0)" by (simp add: run_path l0(2))
  then have "ad_disk (flush_detector opens (bp_arb ?b)) (bo_output (bp_opts b0)) = Some (?old @ concat (map (cross_line J) cs))"
    using fold_write_line [of "(bp_arb ?b)\<lparr>write_stop := True, write_queue := []\<rparr>" content opens "write_queue (bp_arb ?b)"] l t
    by (simp add: flush_detector_def ledger_def)
  then show ?thesis using m l by (simp add: mirrors_def ledger_def Let_def)
qed

section \<open>A run with two crossing books\<close>

definition live_vm :: brain_vm where
  "live_vm = demo_vm\<lparr>bv_standby := False, bv_output := Some ''out''\<rparr>"

definition okx_text :: string where
  "okx_text = j_dump tree_api (event_json tree_api ''okx'' ''BTCUSDT'' 1 6 (PubBook okx_book 42 5 ''ws'' 4))"

definition bybit_text :: string where
  "bybit_text = j_dump tree_api (event_json tree_api ''bybit'' ''BTCUSDT'' 1 7 (PubBook high_book 9 5 ''ws'' 5))"

definition live_run :: "brain_event list" where
  "live_run = [BServer (AcceptDone False), BServer (SessionTls 0 False), BServer (SessionAccept 0 False),
     BServer (SessionRead 0 (ReadFrame okx_text False)), BServer (SessionRead 0 (ReadFrame bybit_text False)),
     BScan 8 9, BWriter, BScan 8 9]"

lemma live_brain_starts:
  obtains b0 :: "jtree brain_proc" where
    "brain_main (\<lambda>_. True) Map.empty True (\<lambda>_. True) True True (Some live_vm) = Inr b0"
    and "bo_venue_fee_bps (bp_opts b0) = Map.empty" and "bo_output_max_mb (bp_opts b0) = 0"
    and "bo_output (bp_opts b0) = ''out''" and "bp_running b0" and "bo_depth (bp_opts b0) = 50"
proof -
  have "bv_signal_port live_vm = 0" "bv_certfile live_vm = Some ''cert.pem''" "bv_keyfile live_vm = Some ''key.pem''"
    "\<not> bv_help live_vm" "bv_output live_vm = Some ''out''" "bv_output_max_mb live_vm = 0" "bv_venue_fees live_vm = []" "bv_depth live_vm = 50"
    by (simp_all add: live_vm_def demo_vm_def brain_defaults_def)
  then show thesis
    using that by (auto simp: brain_main_def parse_brain_cmdline_def or_keep_def open_signal_server_def assign_brain_options_def
        parse_venue_fees_def getline_tokens.simps [of _ "[]"] Let_def)
qed

lemma live_events_ok:
  "event_text_ok (PubBook okx_book 42 5 ''ws'' 4)" "event_text_ok (PubBook high_book 9 5 ''ws'' 5)"
  "clean_string ''okx''" "clean_string ''bybit''" "clean_string ''BTCUSDT''"
  using demo_recordings_ok by (simp_all add: demo_recordings_def recording_ok_def)

lemma event_parses:
  assumes "json_denotes J den" and "event_text_ok e" and "clean_string v" and "clean_string y"
  obtains j where "j_parse J (j_dump J (event_json J v y seq now e)) = Some j"
  using den_text [OF assms(1) clean_event [OF assms]] by metis

lemma live_parses:
  obtains j1 j2 where "j_parse tree_api okx_text = Some j1" and "j_parse tree_api bybit_text = Some j2"
  unfolding okx_text_def bybit_text_def
  by (rule event_parses [OF tree_api_denotes live_events_ok(1,3,5)], rule event_parses [OF tree_api_denotes live_events_ok(2,4,5)]) blast

lemma apply_event_running: "bp_scan_running (apply_event J now now' j b) = bp_scan_running b"
  by (auto simp: apply_event_def scan_books_def push_signals_frame Let_def split: sum.split)

lemma live_consumed:
  assumes "brain_main (\<lambda>_. True) Map.empty True (\<lambda>_. True) True True (Some live_vm) = Inr b0" and "bp_running b0"
    and "j_parse tree_api okx_text = Some j1" and "j_parse tree_api bybit_text = Some j2"
  shows "consumed tree_api (\<lambda>_. True) live_run b0 = [(j1, 8, 9), (j2, 8, 9)]"
  using assms(2-4)
  by (cases rule: brain_main_started [OF assms(1)])
    (simp add: live_run_def start_server_def new_WsServer_def do_accept_def on_accept_def prune_def kMaxSessions_def in_phase_def on_session_def
      session_create_def session_tls_done_def session_accept_done_def on_message_def scan_round_def update_health_snapshot_def
      apply_event_frame(1) apply_event_running push_while_def kEventQueueCap_def Let_def)

text \<open>What the engine makes of the two lines.\<close>

lemma feed_event_length: "length (fst (feed_event J now now' line e)) \<le> 256"
  by (auto simp: feed_event_def Let_def case_prod_beta scan_length split: option.split sum.split)

lemma live_replay:
  assumes "bo_depth opts = 50"
  obtains cs e where "feed_lines tree_api [(okx_text, 8, 9), (bybit_text, 8, 9)] (brain_engine opts) = (cs, e)" and "length cs \<le> 4096"
    and "synced_count (bt_book e) = 2"
proof -
  let ?e0 = "brain_engine opts" and ?age = "bo_max_age_ms opts * 1000000"
  let ?e1 = "snd (feed_event tree_api 8 9 okx_text ?e0)"
  let ?e2 = "snd (feed_event tree_api 8 9 bybit_text ?e1)"
  have s0: "sound_engine 5 ?age ?e0" and b0: "bt_book ?e0 = new_UnifiedBook 50"
    using assms by (simp_all add: sound_engine_def brain_engine_def new_BacktestEngine_def new_UnifiedBook_def make_arb_def
        new_ArbDetector_def Let_def)
  have n: "(5 :: i64) \<le> 8 + kMaxFutureNs" by (simp add: kMaxFutureNs_def)
  note l1 = recorded_line(1,2) [OF tree_api_denotes live_events_ok(1,3,5) _ _ n s0, where seq = 1 and t = 6 and now' = 9, folded okx_text_def]
  have s1: "sound_engine 5 ?age ?e1" and b1: "bt_book ?e1 = apply_recorded ''okx'' ''BTCUSDT'' (PubBook okx_book 42 5 ''ws'' 4) (bt_book ?e0)"
    using l1 by simp_all
  note l2 = recorded_line(1) [OF tree_api_denotes live_events_ok(2,4,5) _ _ n s1, where seq = 1 and t = 7 and now' = 9, folded bybit_text_def]
  have "bt_book ?e2 = recorded_books demo_recordings (new_UnifiedBook 50)"
    using l2 by (simp add: b1 b0 recorded_books_def demo_recordings_def new_FilePersistSink_def)
  then have "synced_count (bt_book ?e2) = 2"
    by (cases rule: demo_recordings_cross) (simp add: synced_count_def)
  moreover have "length (fst (feed_event tree_api 8 9 okx_text ?e0) @ fst (feed_event tree_api 8 9 bybit_text ?e1)) \<le> 4096"
    using feed_event_length [of tree_api 8 9 okx_text ?e0] feed_event_length [of tree_api 8 9 bybit_text ?e1] by simp
  ultimately show thesis
    by (intro that [of "fst (feed_event tree_api 8 9 okx_text ?e0) @ fst (feed_event tree_api 8 9 bybit_text ?e1)" ?e2])
      (simp_all add: case_prod_beta Let_def)
qed

theorem replay_finds_the_brains_crosses_witness:
  "\<exists>(b0 :: jtree brain_proc) cs e. brain_main (\<lambda>_. True) Map.empty True (\<lambda>_. True) True True (Some live_vm) = Inr b0 \<and>
     feed_lines tree_api [(okx_text, 8, 9), (bybit_text, 8, 9)] (brain_engine (bp_opts b0)) = (cs, e) \<and>
     bp_book (run_brain tree_api (\<lambda>_. True) live_run b0) = bt_book e \<and> synced_count (bt_book e) = 2 \<and>
     ad_disk (flush_detector (\<lambda>_. True) (bp_arb (run_brain tree_api (\<lambda>_. True) live_run b0))) ''out'' =
       Some (concat (map (cross_line tree_api) cs))"
proof -
  obtain b0 :: "jtree brain_proc" where b0: "brain_main (\<lambda>_. True) Map.empty True (\<lambda>_. True) True True (Some live_vm) = Inr b0"
    "bo_venue_fee_bps (bp_opts b0) = Map.empty" "bo_output_max_mb (bp_opts b0) = 0" "bo_output (bp_opts b0) = ''out''" "bp_running b0"
    "bo_depth (bp_opts b0) = 50" by (rule live_brain_starts)
  obtain j1 j2 where j: "j_parse tree_api okx_text = Some j1" "j_parse tree_api bybit_text = Some j2" by (rule live_parses)
  obtain cs e where r: "feed_lines tree_api [(okx_text, 8, 9), (bybit_text, 8, 9)] (brain_engine (bp_opts b0)) = (cs, e)"
    "length cs \<le> 4096" "synced_count (bt_book e) = 2" by (rule live_replay [OF b0(6)])
  have "records tree_api [(okx_text, 8, 9), (bybit_text, 8, 9)] (consumed tree_api (\<lambda>_. True) live_run b0)"
    using live_consumed [OF b0(1,5) j] j by (simp add: records_def)
  from replay_finds_the_brains_crosses [OF b0(1) _ b0(2,3) _ _ this r(1,2)] b0 r show ?thesis
    by (intro exI [of _ b0] exI [of _ cs] exI [of _ e]) (simp add: live_vm_def Let_def)
qed

end
