(* ===== verification/TlsTrust.thy ===== *)
theory TlsTrust
  imports BrainCmdLine WsClient ExecCmdLine
begin

text \<open>
  Who is trusted at the other end of a connection: the verification settings of the REST client
  (\<^verbatim>\<open>feed/src/connection_handler/RestClient.cpp\<close>), of the WebSocket client and its client certificate
  (\<^verbatim>\<open>common/src/connection_handler/WsClient.cpp\<close>), and of the brain's servers (\<^verbatim>\<open>brain/app/brain.cpp\<close>). OpenSSL and Boost are not part of the
  repository: whether a certificate at a given depth verifies (\<open>pre\<close>) and whether it is for a host (\<open>check_host\<close>, one
  for a match) are parameters. A chain is the list of the certificates by depth, the peer's own first;
  the documented rule of the handshake is that the callback is asked at every depth and each must agree.
\<close>

section \<open>Settings\<close>

datatype verify_mode = VerifyNone | VerifyPeer | VerifyPeerRequired

definition rest_verify_callback :: "('c \<Rightarrow> string \<Rightarrow> int) \<Rightarrow> string \<Rightarrow> bool \<Rightarrow> nat \<Rightarrow> 'c option \<Rightarrow> bool" where
  "rest_verify_callback check_host host_for_verify preverified depth cert =
     (if \<not> preverified then False
      else if depth \<noteq> 0 then True
      else case cert of None \<Rightarrow> False | Some c \<Rightarrow> check_host c host_for_verify = 1)"

definition rest_verify_mode :: verify_mode where
  "rest_verify_mode = VerifyPeer"

text \<open>The WebSocket client's switch, from the options of the publisher and of the execution process.\<close>

definition ws_verify_mode :: "bool \<Rightarrow> verify_mode" where
  "ws_verify_mode tls_verify_peer = (if tls_verify_peer then VerifyPeer else VerifyNone)"

definition exec_verify_peer :: "ExecOptions \<Rightarrow> bool" where
  "exec_verify_peer opts \<longleftrightarrow> \<not> opt_insecure_tls opts"

definition brain_verify_mode :: "BrainOptions \<Rightarrow> verify_mode" where
  "brain_verify_mode opts = (if bo_ca_certfile opts \<noteq> [] then VerifyPeerRequired else VerifyNone)"

text \<open>\<^verbatim>\<open>set_client_cert\<close>: the certificate and key go into the context and into the stream's own object. The
  first failing call throws and leaves what was set before it.\<close>

record tls_identity =
  ctx_cert :: "string option"
  ctx_key :: "string option"
  ssl_cert :: "string option"
  ssl_key :: "string option"

datatype cert_error = CtxCert | CtxKey | SslCert | SslKey

definition set_client_cert ::
  "(cert_error \<Rightarrow> string \<Rightarrow> bool) \<Rightarrow> string \<Rightarrow> string \<Rightarrow> tls_identity \<Rightarrow> cert_error option \<times> tls_identity" where
  "set_client_cert loads certfile keyfile t =
     (if \<not> loads CtxCert certfile then (Some CtxCert, t)
      else let t = t\<lparr>ctx_cert := Some certfile\<rparr>
      in if \<not> loads CtxKey keyfile then (Some CtxKey, t)
      else let t = t\<lparr>ctx_key := Some keyfile\<rparr>
      in if \<not> loads SslCert certfile then (Some SslCert, t)
      else let t = t\<lparr>ssl_cert := Some certfile\<rparr>
      in if \<not> loads SslKey keyfile then (Some SslKey, t)
      else (None, t\<lparr>ssl_key := Some keyfile\<rparr>))"

section \<open>Handshakes\<close>

text \<open>A client with verification needs a chain; a server that requires a certificate does too.\<close>

definition client_accepts :: "verify_mode \<Rightarrow> (bool \<Rightarrow> nat \<Rightarrow> 'c option \<Rightarrow> bool) \<Rightarrow> ('c list \<Rightarrow> nat \<Rightarrow> bool) \<Rightarrow> 'c list \<Rightarrow> bool" where
  "client_accepts mode cb pre chain \<longleftrightarrow> mode = VerifyNone \<or>
     chain \<noteq> [] \<and> (\<forall>d < length chain. cb (pre chain d) d (Some (chain ! d)))"

definition server_accepts :: "verify_mode \<Rightarrow> ('c list \<Rightarrow> nat \<Rightarrow> bool) \<Rightarrow> 'c list \<Rightarrow> bool" where
  "server_accepts mode pre chain \<longleftrightarrow> mode = VerifyNone \<or>
     (mode = VerifyPeerRequired \<longrightarrow> chain \<noteq> []) \<and> (\<forall>d < length chain. pre chain d)"

lemma rest_callback_iff:
  "rest_verify_callback check_host host p d (Some c) \<longleftrightarrow> p \<and> (d = 0 \<longrightarrow> check_host c host = 1)"
  by (simp add: rest_verify_callback_def)

text \<open>The REST client talks only to peers whose whole chain verifies and whose own certificate is for the host of the request.\<close>

lemma rest_peer_is_the_host:
  "client_accepts rest_verify_mode (rest_verify_callback check_host host) pre chain \<longleftrightarrow>
     chain \<noteq> [] \<and> (\<forall>d < length chain. pre chain d) \<and> check_host (hd chain) host = 1"
proof (cases chain)
  case (Cons c cs)
  have "(\<forall>d < Suc (length cs). P d \<and> (d = 0 \<longrightarrow> Q)) \<longleftrightarrow> (\<forall>d < Suc (length cs). P d) \<and> Q" for P Q
    by blast
  then show ?thesis
    using Cons by (simp add: client_accepts_def rest_verify_mode_def rest_callback_iff cong: conj_cong)
qed (simp add: client_accepts_def rest_verify_mode_def)

text \<open>A brain with a CA file serves only peers with a verified certificate; without one it serves anybody.\<close>

lemma brain_requires_certificates:
  "server_accepts (brain_verify_mode opts) pre chain \<longleftrightarrow>
     bo_ca_certfile opts = [] \<or> chain \<noteq> [] \<and> (\<forall>d < length chain. pre chain d)"
  by (auto simp: server_accepts_def brain_verify_mode_def)

lemma insecure_executor_trusts_anybody:
  "opt_insecure_tls opts \<Longrightarrow> client_accepts (ws_verify_mode (exec_verify_peer opts)) cb pre chain"
  by (simp add: client_accepts_def ws_verify_mode_def exec_verify_peer_def)

text \<open>An identity is complete or the call throws; a stream that has the key has the certificate.\<close>

lemma set_client_cert_complete:
  "fst (set_client_cert loads c k t) = None \<longleftrightarrow> loads CtxCert c \<and> loads CtxKey k \<and> loads SslCert c \<and> loads SslKey k"
  "fst (set_client_cert loads c k t) = None \<Longrightarrow>
     snd (set_client_cert loads c k t) = \<lparr>ctx_cert = Some c, ctx_key = Some k, ssl_cert = Some c, ssl_key = Some k\<rparr>"
  by (auto simp: set_client_cert_def Let_def split: if_splits)

section \<open>Protocols and ciphers\<close>

text \<open>What the code sets on a context. A stream takes its settings from the context when it is made (\<open>ssl_new\<close>): the
  WebSocket client's stream is a member that is initialised before the body of the constructor runs, the REST client makes its
  first stream at the end of the constructor, and the brain's streams are made per connection.\<close>

datatype tls_option = default_workarounds | no_sslv2 | no_sslv3 | no_tlsv1 | no_tlsv1_1

record tls_ctx =
  tc_options :: "tls_option list"
  tc_ciphers :: "string option"
  tc_default_paths :: bool
  tc_ca :: "string option"
  tc_cert :: "(string \<times> string) option"
  tc_verify :: verify_mode

definition hardened_options :: "tls_option list" where
  "hardened_options = [default_workarounds, no_sslv2, no_sslv3, no_tlsv1, no_tlsv1_1]"

definition cipher_list :: string where
  "cipher_list = ''ECDHE-ECDSA-AES256-GCM-SHA384:'' @ ''ECDHE-RSA-AES256-GCM-SHA384:'' @ ''ECDHE-ECDSA-CHACHA20-POLY1305:'' @
     ''ECDHE-RSA-CHACHA20-POLY1305:'' @ ''ECDHE-ECDSA-AES128-GCM-SHA256:'' @ ''ECDHE-RSA-AES128-GCM-SHA256''"

definition new_WsClient_tls :: "(tls_ctx \<Rightarrow> 's) \<Rightarrow> tls_ctx \<Rightarrow> tls_ctx \<times> 's" where
  "new_WsClient_tls ssl_new ctx =
     (let stream = ssl_new ctx;
          ctx = ctx\<lparr>tc_options := tc_options ctx @ hardened_options\<rparr>;
          ctx = ctx\<lparr>tc_ciphers := Some cipher_list\<rparr>;
          ctx = ctx\<lparr>tc_default_paths := True, tc_verify := VerifyPeer\<rparr>
      in (ctx, stream))"

definition new_RestClient_tls :: "(tls_ctx \<Rightarrow> 's) \<Rightarrow> tls_ctx \<Rightarrow> tls_ctx \<times> 's" where
  "new_RestClient_tls ssl_new ctx =
     (let ctx = ctx\<lparr>tc_default_paths := True, tc_verify := VerifyPeer\<rparr>
      in (ctx, ssl_new ctx))"

text \<open>The brain's context: \<open>None\<close> when a file does not load, which ends the process.\<close>

definition brain_tls_ctx :: "(string \<Rightarrow> bool) \<Rightarrow> BrainOptions \<Rightarrow> tls_ctx \<Rightarrow> tls_ctx option" where
  "brain_tls_ctx loads opts ctx =
     (if \<not> loads (bo_certfile opts) then None
      else if \<not> loads (bo_keyfile opts) then None
      else let ctx = ctx\<lparr>tc_cert := Some (bo_certfile opts, bo_keyfile opts),
                         tc_options := tc_options ctx @ hardened_options, tc_ciphers := Some cipher_list\<rparr>
           in if bo_ca_certfile opts = [] then Some ctx
              else if \<not> loads (bo_ca_certfile opts) then None
              else Some (ctx\<lparr>tc_ca := Some (bo_ca_certfile opts), tc_verify := VerifyPeerRequired\<rparr>))"

text \<open>The brain's streams refuse the legacy protocols; its verification is that of \<open>brain_verify_mode\<close> on a fresh context.\<close>

lemma brain_refuses_legacy:
  assumes "brain_tls_ctx loads opts ctx = Some ctx'" and "\<And>c. options_of (ssl_new c) = tc_options c"
  shows "{no_sslv2, no_sslv3, no_tlsv1, no_tlsv1_1} \<subseteq> set (options_of (ssl_new ctx'))"
  using assms by (auto simp: brain_tls_ctx_def hardened_options_def Let_def split: if_splits)

lemma brain_ctx_verifies:
  "brain_tls_ctx loads opts ctx = Some ctx' \<Longrightarrow> tc_verify ctx = VerifyNone \<Longrightarrow> tc_verify ctx' = brain_verify_mode opts"
  by (auto simp: brain_tls_ctx_def brain_verify_mode_def Let_def split: if_splits)

text \<open>The WebSocket client sets the same on its context, but after its stream was made: where streams copy the options of their context when
  they are made, the stream has those of the fresh context.\<close>

lemma ws_stream_keeps_legacy_protocols:
  assumes "\<And>c. options_of (ssl_new c) = tc_options c" and "tc_options ctx = []"
  shows "options_of (snd (new_WsClient_tls ssl_new ctx)) = []"
    and "set (tc_options (fst (new_WsClient_tls ssl_new ctx))) = set hardened_options"
  using assms by (simp_all add: new_WsClient_tls_def Let_def)


end
