(* ===== verification/DebugLog.thy ===== *)
theory DebugLog
  imports OrderBook
begin

text \<open>
  The logger's set-up (\<^verbatim>\<open>common/src/utils/Log.cpp\<close>) and the debug output of the feed (\<^verbatim>\<open>feed/include/utils/DebugConfigUtils.hpp\<close>,
  \<^verbatim>\<open>feed/app/main.cpp\<close>): the switches, the sampling of messages and what is printed of a message and of a list of levels. The
  levels of spdlog and the parser of their names are parameters. Sizes are cast to \<^verbatim>\<open>int\<close>, with the wrap-around written out.
\<close>

section \<open>The logger\<close>

datatype log_sink = StderrSink | FileSink string

record 'l log_setup =
  lg_name :: string
  lg_pattern :: string
  lg_sinks :: "log_sink list"
  lg_level :: 'l
  lg_flush_on :: 'l

text \<open>\<open>None\<close>: the file cannot be opened and the sink's constructor throws.\<close>

definition log_init :: "(string \<Rightarrow> bool) \<Rightarrow> (string \<Rightarrow> 'l) \<Rightarrow> 'l \<Rightarrow> string \<Rightarrow> string \<Rightarrow> 'l log_setup option" where
  "log_init opens from_str warn level_str file_path =
     (if file_path \<noteq> [] \<and> \<not> opens file_path then None
      else Some \<lparr>lg_name = ''pop'', lg_pattern = ''[%Y-%m-%d %H:%M:%S.%e] [%^%l%$] %v'',
                 lg_sinks = StderrSink # (if file_path \<noteq> [] then [FileSink file_path] else []),
                 lg_level = from_str level_str, lg_flush_on = warn\<rparr>)"

section \<open>Debug switches\<close>

record debug_switches =
  dbg_enabled :: bool
  dbg_raw_on :: bool
  dbg_every :: int
  dbg_raw_max :: int
  dbg_top_levels :: int
  dbg_show_checksum :: bool
  dbg_show_seq :: bool

definition default_switches :: debug_switches where
  "default_switches = \<lparr>dbg_enabled = False, dbg_raw_on = False, dbg_every = 200, dbg_raw_max = 512, dbg_top_levels = 3,
     dbg_show_checksum = True, dbg_show_seq = True\<rparr>"

definition dbg_on :: "debug_switches \<Rightarrow> bool" where
  "dbg_on g \<longleftrightarrow> dbg_enabled g"

definition dbg_sample :: "debug_switches \<Rightarrow> u64 \<Rightarrow> bool \<times> u64" where
  "dbg_sample g counter =
     (let every = dbg_every g
      in if every > 0 then (let c = counter + 1 in (c mod word_of_int every = 0, c)) else (False, counter))"

text \<open>\<^verbatim>\<open>static_cast<int>\<close> of a size.\<close>

definition size_to_int :: "nat \<Rightarrow> int" where
  "size_to_int n = sint (word_of_nat n :: 32 word)"

definition dbg_raw :: "debug_switches \<Rightarrow> string \<Rightarrow> string option" where
  "dbg_raw g msg =
     (if \<not> dbg_raw_on g then None
      else let maxc = dbg_raw_max g
           in if maxc \<le> 0 then None
              else Some (if size_to_int (length msg) > maxc then take (nat maxc) msg else msg))"

fun level_lines :: "nat \<Rightarrow> level list \<Rightarrow> (nat \<times> string \<times> string) list" where
  "level_lines i [] = []"
| "level_lines i (l # ls) = (i, price l, quantity l) # level_lines (Suc i) ls"

text \<open>The header line and the lines of the levels: the loop runs while the index is below both \<^verbatim>\<open>top\<close> and the cast size.\<close>

definition dbg_levels ::
  "debug_switches \<Rightarrow> string \<Rightarrow> level list \<Rightarrow> ((string \<times> int) \<times> (nat \<times> string \<times> string) list) option" where
  "dbg_levels g side v =
     (let top = dbg_top_levels g
      in if top \<le> 0 then None
         else Some ((side, top), level_lines 0 (take (nat (min top (size_to_int (length v)))) v)))"

definition print_book_bbo :: "order_book \<Rightarrow> string option" where
  "print_book_bbo book =
     (case bid_ptr book 0 of None \<Rightarrow> None
      | Some bb \<Rightarrow>
          (case ask_ptr book 0 of None \<Rightarrow> None
           | Some ba \<Rightarrow> Some (''[BBO] bid='' @ int_str (priceTick bb) @ '' qty='' @ int_str (quantityLot bb) @ '' | ask='' @
               int_str (priceTick ba) @ '' qty='' @ int_str (quantityLot ba) @ [CHR 0x0A])))"

section \<open>Sampling\<close>

text \<open>The outcomes of successive calls.\<close>

fun samples :: "debug_switches \<Rightarrow> nat \<Rightarrow> u64 \<Rightarrow> bool list" where
  "samples g 0 c = []"
| "samples g (Suc n) c = (let (b, c') = dbg_sample g c in b # samples g n c')"

lemma mod_word_zero:
  fixes c :: u64
  assumes "unat c + 1 < 2 ^ 64" and "0 < k" and "k < 2 ^ 31"
  shows "(c + 1) mod word_of_int (int k) = 0 \<longleftrightarrow> (unat c + 1) mod k = 0"
proof -
  have "unat (c + 1) = unat c + 1" using assms(1) by (simp add: unat_word_ariths)
  moreover have "unat (word_of_int (int k) :: u64) = k" using assms(3) by (simp add: unat_of_nat take_bit_nat_eq_self)
  ultimately show ?thesis by (simp add: unat_eq_zero [symmetric] unat_mod)
qed

text \<open>Of \<open>n\<close> messages every \<open>k\<close>-th is logged, whatever came before, until the counter wraps.\<close>

lemma sampling_rate:
  assumes "dbg_every g = int k" and "0 < k" and "k < 2 ^ 31" and "unat c + n < 2 ^ 64"
  shows "length (filter (\<lambda>b. b) (samples g n c)) = (unat c + n) div k - unat c div k"
  using assms(4)
proof (induction n arbitrary: c)
  case (Suc n)
  have u: "unat (c + 1) = unat c + 1" using Suc.prems by (simp add: unat_word_ariths)
  have z: "(c + 1) mod word_of_int (int k) = 0 \<longleftrightarrow> (unat c + 1) mod k = 0"
    by (rule mod_word_zero [OF _ assms(2,3)]) (use Suc.prems in simp)
  have d: "(unat c + 1) div k = unat c div k + (if (unat c + 1) mod k = 0 then 1 else 0)"
    using assms(2) div_Suc [of "unat c" k] by simp
  have m: "(unat c + 1) div k \<le> (unat c + 1 + n) div k" by (rule div_le_mono) simp
  have "length (filter (\<lambda>b. b) (samples g n (c + 1))) = (unat c + 1 + n) div k - (unat c + 1) div k"
    using Suc.IH [of "c + 1"] Suc.prems by (simp add: u)
  then show ?case
    using d m z assms(1,2) by (simp add: dbg_sample_def Let_def add.assoc [symmetric] split: if_splits)
qed simp

lemma sampling_off: "dbg_every g \<le> 0 \<Longrightarrow> filter (\<lambda>b. b) (samples g n c) = []"
  by (induction n arbitrary: c) (simp_all add: dbg_sample_def)

section \<open>Bounds of the output\<close>

lemma size_to_int_small: "n < 2 ^ 31 \<Longrightarrow> size_to_int n = int n"
  by (simp add: size_to_int_def signed_of_nat signed_take_bit_int_eq_self)

lemma raw_output_bounded:
  "length msg < 2 ^ 31 \<Longrightarrow> dbg_raw g msg = Some out \<Longrightarrow> int (length out) \<le> dbg_raw_max g \<and> prefix out msg"
  by (auto simp: dbg_raw_def size_to_int_small Let_def take_is_prefix split: if_splits)

text \<open>A message of two gigabytes is not cut: its size is negative as an \<^verbatim>\<open>int\<close>.\<close>

lemma huge_message_not_cut:
  "length msg = 2 ^ 31 \<Longrightarrow> dbg_raw_on g \<Longrightarrow> 0 < dbg_raw_max g \<Longrightarrow> dbg_raw g msg = Some msg"
  by (simp add: dbg_raw_def size_to_int_def Let_def)

lemma level_lines_length [simp]: "length (level_lines i ls) = length ls"
  by (induction ls arbitrary: i) simp_all

lemma levels_output_bounded:
  "length v < 2 ^ 31 \<Longrightarrow> dbg_levels g side v = Some (header, out) \<Longrightarrow> length out = min (nat (dbg_top_levels g)) (length v)"
  by (auto simp: dbg_levels_def size_to_int_small Let_def split: if_splits)

end
