(* ===== verification/VenueMessages.thy ===== *)
theory VenueMessages
  imports VenueAdapters
begin

text \<open>
  What the venues' messages mean. The adapters of \<^verbatim>\<open>feed/src/md/adapters\<close> read five different JSON formats; here
  each format is a predicate on the tree that a text decodes to: which member holds which sequence number, which side, and
  which column of a level is the price and which the quantity. Messages may have other members and
  levels may have further columns. The theorem is that an adapter reads a message of its format as exactly
  the update or snapshot that the message carries, and takes neither for the other.
\<close>

section \<open>The formats\<close>

text \<open>Documented behaviour of the JSON library beyond \<open>json_denotes\<close>: the type tests and the size of an array. An integer
  that does not fit the signed type is stored unsigned.\<close>

definition json_kinds :: "'j json_api \<Rightarrow> ('j \<Rightarrow> jtree) \<Rightarrow> bool" where
  "json_kinds J den \<longleftrightarrow>
     (\<forall>j. j_is_string J j \<longleftrightarrow> (\<exists>s. den j = TStr s)) \<and>
     (\<forall>j ts. den j = TArr ts \<longrightarrow> j_size J j = length ts) \<and>
     (\<forall>j. j_is_integer J j \<longleftrightarrow> (\<exists>n. den j = TNum n)) \<and>
     (\<forall>j. j_is_unsigned J j \<longrightarrow> j_is_integer J j) \<and>
     (\<forall>j n. den j = TNum n \<and> 2 ^ 63 \<le> n \<longrightarrow> j_is_unsigned J j)"

definition holds :: "jtree \<Rightarrow> string \<Rightarrow> (jtree \<Rightarrow> bool) \<Rightarrow> bool" where
  "holds t k P \<longleftrightarrow> (case t_find t k of None \<Rightarrow> False | Some v \<Rightarrow> P v)"

fun elems_of :: "jtree \<Rightarrow> jtree list" where
  "elems_of (TArr ts) = ts"
| "elems_of _ = []"

definition first_holds :: "jtree \<Rightarrow> string \<Rightarrow> (jtree \<Rightarrow> bool) \<Rightarrow> bool" where
  "first_holds t k P \<longleftrightarrow> holds t k (\<lambda>v. elems_of v \<noteq> [] \<and> P (hd (elems_of v)))"

text \<open>A level is an array that starts with its price and its quantity as text, of which the level has the parsed values.\<close>

fun column_ok :: "level \<Rightarrow> jtree \<Rightarrow> bool" where
  "column_ok l (TArr (TStr px # TStr qt # _)) \<longleftrightarrow> level_text_ok l \<and> px = price l \<and> qt = quantity l"
| "column_ok l _ \<longleftrightarrow> False"

fun columns :: "level list \<Rightarrow> jtree \<Rightarrow> bool" where
  "columns ls (TArr ts) \<longleftrightarrow> list_all2 column_ok ls ts"
| "columns ls _ \<longleftrightarrow> False"

definition side_of :: "jtree \<Rightarrow> string \<Rightarrow> level list \<Rightarrow> bool" where
  "side_of t k ls \<longleftrightarrow> (case t_find t k of None \<Rightarrow> ls = [] | Some v \<Rightarrow> columns ls v)"

definition is_number :: "u64 \<Rightarrow> jtree \<Rightarrow> bool" where
  "is_number w t \<longleftrightarrow> t = TNum (uint w)"

definition num_or_text :: "u64 \<Rightarrow> jtree \<Rightarrow> bool" where
  "num_or_text w t \<longleftrightarrow> t = TNum (uint w) \<or> t = TStr (nat_str (unat w))"

definition checksum_num :: "i64 \<Rightarrow> jtree \<Rightarrow> bool" where
  "checksum_num c t \<longleftrightarrow> t = TNum c \<and> i64_ok c"

definition checksum_of :: "jtree \<Rightarrow> jtree \<Rightarrow> i64 \<Rightarrow> bool" where
  "checksum_of d0 t c \<longleftrightarrow> (case t_find d0 ''checksum'' of Some v \<Rightarrow> checksum_num c v
     | None \<Rightarrow> (case t_find t ''checksum'' of Some v \<Rightarrow> checksum_num c v | None \<Rightarrow> c = 0))"

fun carries_update :: "adapter \<Rightarrow> jtree \<Rightarrow> GenericIncrementalFormat \<Rightarrow> bool" where
  "carries_update BinanceAdapter t m \<longleftrightarrow> holds t ''e'' (\<lambda>v. v = TStr ''depthUpdate'') \<and>
     holds t ''U'' (is_number (first_seq m)) \<and> holds t ''u'' (is_number (last_seq m)) \<and>
     (if t_find t ''pu'' = None then prev_last m = prev_seq (last_seq m) else holds t ''pu'' (is_number (prev_last m))) \<and>
     inc_checksum m = 0 \<and> holds t ''b'' (columns (inc_bids m)) \<and> holds t ''a'' (columns (inc_asks m))"
| "carries_update BybitAdapter t m \<longleftrightarrow> holds t ''type'' (\<lambda>v. v = TStr ''delta'') \<and>
     holds t ''data'' (\<lambda>d. holds d ''u'' (is_number (last_seq m)) \<and> side_of d ''b'' (inc_bids m) \<and> side_of d ''a'' (inc_asks m)) \<and>
     first_seq m = last_seq m \<and> prev_last m = prev_seq (last_seq m) \<and> inc_checksum m = 0"
| "carries_update BitgetAdapter t m \<longleftrightarrow> holds t ''action'' (\<lambda>v. v = TStr ''update'') \<and>
     first_holds t ''data'' (\<lambda>d. holds d ''seq'' (num_or_text (last_seq m)) \<and>
       (if t_find d ''checksum'' = None then inc_checksum m = 0 else holds d ''checksum'' (checksum_num (inc_checksum m))) \<and>
       holds d ''bids'' (columns (inc_bids m)) \<and> holds d ''asks'' (columns (inc_asks m))) \<and>
     first_seq m = last_seq m \<and> prev_last m = prev_seq (last_seq m)"
| "carries_update OKXAdapter t m \<longleftrightarrow> holds t ''action'' (\<lambda>v. v = TStr ''update'') \<and>
     first_holds t ''data'' (\<lambda>d. holds d ''seqId'' (is_number (last_seq m)) \<and>
       holds d ''prevSeqId'' (\<lambda>v. \<exists>n. v = TNum n \<and> i64_ok n \<and> prev_last m = (if n < 0 then 0 else word_of_int n)) \<and>
       checksum_of d t (inc_checksum m) \<and> side_of d ''bids'' (inc_bids m) \<and> side_of d ''asks'' (inc_asks m)) \<and>
     first_seq m = prev_last m + 1"
| "carries_update KucoinAdapter t m \<longleftrightarrow> holds t ''type'' (\<lambda>v. v = TStr ''message'') \<and>
     holds t ''subject'' (\<lambda>v. v = TStr ''trade.l2update'') \<and>
     holds t ''data'' (\<lambda>d. holds d ''sequenceStart'' (num_or_text (first_seq m)) \<and> holds d ''sequenceEnd'' (num_or_text (last_seq m)) \<and>
       holds d ''changes'' (\<lambda>c. side_of c ''bids'' (inc_bids m) \<and> side_of c ''asks'' (inc_asks m))) \<and>
     prev_last m = prev_seq (first_seq m) \<and> inc_checksum m = 0"

fun carries_snapshot :: "adapter \<Rightarrow> jtree \<Rightarrow> GenericSnapshotFormat \<Rightarrow> bool" where
  "carries_snapshot BinanceAdapter t s \<longleftrightarrow> t_find t ''e'' = None \<and> holds t ''lastUpdateId'' (is_number (lastUpdateId s)) \<and>
     side_of t ''bids'' (snap_bids s) \<and> side_of t ''asks'' (snap_asks s) \<and> snap_checksum s = 0"
| "carries_snapshot BybitAdapter t s \<longleftrightarrow> holds t ''type'' (\<lambda>v. v = TStr ''snapshot'') \<and>
     holds t ''data'' (\<lambda>d. holds d ''u'' (is_number (lastUpdateId s)) \<and> side_of d ''b'' (snap_bids s) \<and> side_of d ''a'' (snap_asks s)) \<and>
     snap_checksum s = 0"
| "carries_snapshot BitgetAdapter t s \<longleftrightarrow> holds t ''action'' (\<lambda>v. v = TStr ''snapshot'') \<and>
     first_holds t ''data'' (\<lambda>d. holds d ''seq'' (num_or_text (lastUpdateId s)) \<and> checksum_of d t (snap_checksum s) \<and>
       holds d ''bids'' (columns (snap_bids s)) \<and> holds d ''asks'' (columns (snap_asks s)))"
| "carries_snapshot OKXAdapter t s \<longleftrightarrow> holds t ''action'' (\<lambda>v. v = TStr ''snapshot'') \<and>
     first_holds t ''data'' (\<lambda>d. holds d ''seqId'' (is_number (lastUpdateId s)) \<and> checksum_of d t (snap_checksum s) \<and>
       side_of d ''bids'' (snap_bids s) \<and> side_of d ''asks'' (snap_asks s))"
| "carries_snapshot KucoinAdapter t s \<longleftrightarrow> t_find t ''type'' = None \<and>
     holds t ''data'' (\<lambda>d. holds d ''sequence'' (num_or_text (lastUpdateId s)) \<and>
       side_of d ''bids'' (snap_bids s) \<and> side_of d ''asks'' (snap_asks s)) \<and> snap_checksum s = 0"

section \<open>Reading trees\<close>

text \<open>The access functions on a value, in terms of what it denotes.\<close>

lemma find_None: "json_denotes J den \<Longrightarrow> t_find (den j) k = None \<longleftrightarrow> j_find J j k = None"
  by (simp add: den_find [symmetric])

lemma holds_iff: "json_denotes J den \<Longrightarrow> holds (den j) k P \<longleftrightarrow> (\<exists>v. j_find J j k = Some v \<and> P (den v))"
  by (auto simp: holds_def den_find [symmetric] split: option.splits)

lemma holds_tobj: "holds t k P \<Longrightarrow> is_tobj t"
  by (cases t) (simp_all add: holds_def)

lemma first_holdsD:
  assumes "json_denotes J den" and "first_holds (den j) k P"
  shows "\<exists>v d ds. j_find J j k = Some v \<and> j_is_array J v \<and> j_elems J v = d # ds \<and> P (den d)"
proof -
  obtain v where v: "j_find J j k = Some v" "elems_of (den v) \<noteq> []" "P (hd (elems_of (den v)))"
    using assms(2) unfolding first_holds_def holds_iff [OF assms(1)] by blast
  then obtain t ts where t: "den v = TArr (t # ts)" "P t" by (cases "den v") (auto simp: neq_Nil_conv)
  then have "j_is_array J v \<and> map den (j_elems J v) = t # ts" using den_get(6) [OF assms(1)] by blast
  then show ?thesis using v(1) t(2) by (auto simp: map_eq_Cons_conv)
qed

lemma str_member:
  assumes "json_denotes J den" and "holds (den j) k (\<lambda>v. v = TStr s)"
  shows "j_value J (j_str J) j k d = Some s" and "\<exists>v. j_find J j k = Some v \<and> den v = TStr s \<and> j_str J v = Some s"
proof -
  obtain v where v: "j_find J j k = Some v" "den v = TStr s"
    using assms(2) unfolding holds_iff [OF assms(1)] by blast
  moreover have "is_tobj (den j)" using assms(2) by (rule holds_tobj)
  moreover have "j_str J v = Some s" using v(2) by (rule den_get(1) [OF assms(1)])
  ultimately show "j_value J (j_str J) j k d = Some s" "\<exists>v. j_find J j k = Some v \<and> den v = TStr s \<and> j_str J v = Some s"
    by (simp_all add: j_value_def den_object [OF assms(1)])
qed

lemma num_den: "json_denotes J den \<Longrightarrow> is_number w (den v) \<Longrightarrow> j_u64 J v = Some w"
  by (simp add: is_number_def den_get(2))

lemma num_or_text_den:
  assumes "json_denotes J den" and "json_kinds J den" and "num_or_text w (den v)"
  shows "json_to_u64_flexible J v = Some w" and "as_u64 J v = Some w" and "is_num_or_str J v"
proof -
  consider (num) "den v = TNum (uint w)" | (str) "den v = TStr (nat_str (unat w))" using assms(3) num_or_text_def by blast
  then have "json_to_u64_flexible J v = Some w \<and> as_u64 J v = Some w \<and> is_num_or_str J v"
  proof cases
    case num
    then have k: "\<not> j_is_string J v" "j_is_integer J v" "2 ^ 63 \<le> uint w \<longrightarrow> j_is_unsigned J v"
      using assms(2) num unfolding json_kinds_def by (metis jtree.distinct(25), blast+)
    have "0 \<le> uint w" by simp
    then have "- (2 ^ 63) \<le> uint w" by (rule order_trans [rotated]) simp
    then have "\<not> j_is_unsigned J v \<Longrightarrow> j_i64 J v = Some (uint w)"
      using k(3) den_get(3) [OF assms(1) num] by (auto simp: i64_ok_def)
    then show ?thesis
      using k num den_get(2) [OF assms(1) num]
      by (cases "j_is_unsigned J v") (simp_all add: json_to_u64_flexible_def as_u64_def is_num_or_str_def)
  next
    case str
    then have k: "j_is_string J v" "\<not> j_is_integer J v" "\<not> j_is_unsigned J v"
      using assms(2) by (auto simp: json_kinds_def)
    have t: "j_str J v = Some (nat_str (unat w))" using den_get(1) [OF assms(1) str] .
    note d = nat_str_digits [of "unat w"]
    have "stoull (nat_str (unat w)) = Some (w, length (nat_str (unat w)))"
      using stoull_digits [of "nat_str (unat w)"] d unsigned_less [of w, where 'a = int] by simp
    then show ?thesis
      using k t as_u64_reads_decimal_text [OF k(1) t] by (simp add: json_to_u64_flexible_def is_num_or_str_def)
  qed
  then show "json_to_u64_flexible J v = Some w" "as_u64 J v = Some w" "is_num_or_str J v" by blast+
qed

lemma checksum_den:
  assumes "json_denotes J den" and "json_kinds J den" and "checksum_num c (den v)"
  shows "checksum_value J v = Some c" and "json_to_i64_flexible J v = Some c"
proof -
  have "den v = TNum c" "j_i64 J v = Some c" using assms(3) den_get(3) [OF assms(1)] by (auto simp: checksum_num_def)
  moreover from this have "\<not> j_is_string J v" "j_is_integer J v" using assms(2) by (auto simp: json_kinds_def)
  ultimately show "checksum_value J v = Some c" "json_to_i64_flexible J v = Some c"
    by (simp_all add: checksum_value_def json_to_i64_flexible_def)
qed

lemma find_checksum_den:
  assumes "json_denotes J den" and "json_kinds J den" and "checksum_of (den d) (den j) c"
  shows "find_checksum J d j = Some c"
  using assms(3) checksum_den(1) [OF assms(1,2)]
  by (auto simp: find_checksum_def checksum_of_def den_find [OF assms(1), symmetric] split: option.splits)

text \<open>Levels: the first two columns of every row, in the order of the rows.\<close>

lemma column_den:
  assumes "json_denotes J den" and "json_kinds J den" and "column_ok l (den v)"
  shows "string_level J v = Some l" and "kucoin_level J v = Some l" and "has_two J v"
proof -
  obtain rest where t: "den v = TArr (TStr (price l) # TStr (quantity l) # rest)" and l: "level_text_ok l"
    using assms(3) by (cases "(l, den v)" rule: column_ok.cases) simp_all
  have a: "j_is_array J v" "map den (j_elems J v) = TStr (price l) # TStr (quantity l) # rest"
    using den_get(6) [OF assms(1) t] by simp_all
  then obtain p q r where e: "j_elems J v = p # q # r" "den p = TStr (price l)" "den q = TStr (quantity l)"
    by (auto simp: map_eq_Cons_conv)
  have s: "j_str J p = Some (price l)" "j_str J q = Some (quantity l)" using den_get(1) [OF assms(1)] e by simp_all
  have "j_is_string J p" "j_is_string J q" "j_size J v \<ge> 2" using assms(2) e t by (auto simp: json_kinds_def)
  moreover have "text_level (price l) (quantity l) = Some l"
    using l by (cases l) (simp add: text_level_def level_text_ok_def)
  ultimately show "string_level J v = Some l" "kucoin_level J v = Some l" "has_two J v"
    using a e s by (simp_all add: string_level_def kucoin_level_def has_two_def j_idx_def text_or_dump_def)
qed

lemma columns_den:
  assumes "json_denotes J den" and "json_kinds J den" and "columns ls (den v)"
  shows "j_is_array J v" and "those (map (string_level J) (j_elems J v)) = Some ls"
    and "those (map (kucoin_level J) (j_elems J v)) = Some ls" and "filter (has_two J) (j_elems J v) = j_elems J v"
proof -
  obtain ts where t: "den v = TArr ts" "list_all2 column_ok ls ts"
    using assms(3) by (cases "den v") simp_all
  then have a: "j_is_array J v" "map den (j_elems J v) = ts" using den_get(6) [OF assms(1)] by blast+
  have "list_all2 (\<lambda>l e. column_ok l (den e)) ls (j_elems J v)"
    using t(2) unfolding a(2) [symmetric] by (simp add: list_all2_map2)
  then have "those (map (string_level J) (j_elems J v)) = Some ls \<and> those (map (kucoin_level J) (j_elems J v)) = Some ls \<and>
      filter (has_two J) (j_elems J v) = j_elems J v"
    by (induction rule: list_all2_induct) (simp_all add: column_den [OF assms(1,2)])
  then show "those (map (string_level J) (j_elems J v)) = Some ls" "those (map (kucoin_level J) (j_elems J v)) = Some ls"
    "filter (has_two J) (j_elems J v) = j_elems J v" by blast+
  show "j_is_array J v" by (rule a(1))
qed

lemmas level_parsers = parseLevels2col_bybit_def bitget_parseLevels2col_def okx_parseLevels2col_def kucoin_parseLevels2col_def

lemma side_den:
  assumes "json_denotes J den" and "json_kinds J den" and "side_of (den d) k ls"
  shows "opt_levels J (parseLevels2col_bybit J) d k = Some ls" and "opt_levels J (okx_parseLevels2col J) d k = Some ls"
    and "opt_levels J (kucoin_parseLevels2col J) d k = Some ls"
    and "opt_levels J (\<lambda>v. those (map (string_level J) (j_elems J v))) d k = Some ls"
  using assms(3) columns_den [OF assms(1,2), of ls]
  by (auto simp: side_of_def opt_levels_def level_parsers den_find [OF assms(1), symmetric] split: option.splits)

section \<open>Updates and snapshots are read back\<close>

lemmas parser_steps = parse_text_def attempt_def member_def first_of_def

text \<open>The record that a parser fills is the message carried, apart from the time of reception, which is set later.\<close>

lemma filled_update:
  "inc_ts_recv_ns m = 0 \<Longrightarrow> incremental_reset\<lparr>first_seq := first_seq m, last_seq := last_seq m, prev_last := prev_last m,
     inc_checksum := inc_checksum m, inc_bids := inc_bids m, inc_asks := inc_asks m\<rparr> = m"
  by (cases m) (simp add: incremental_reset_def)

lemma filled_snapshot:
  "snap_ts_recv_ns s = 0 \<Longrightarrow> snapshot_reset\<lparr>lastUpdateId := lastUpdateId s, snap_checksum := snap_checksum s,
     snap_bids := snap_bids s, snap_asks := snap_asks s\<rparr> = s"
  by (cases s) (simp add: snapshot_reset_def)

lemma binance_update:
  assumes D: "json_denotes J den" "json_kinds J den" and "j_parse J msg = Some j" and "inc_ts_recv_ns m = 0"
    and "carries_update BinanceAdapter (den j) m"
  shows "binance_parseIncremental J msg = Parsed m"
proof -
  obtain e where e: "j_find J j ''e'' = Some e" "den e = TStr ''depthUpdate''" "j_str J e = Some ''depthUpdate''"
    using str_member(2) [OF D(1), of j "''e''" "''depthUpdate''"] assms(5) by auto
  have "j_is_string J e" using D(2) e(2) by (auto simp: json_kinds_def)
  obtain U u b a where f: "j_find J j ''U'' = Some U" "is_number (first_seq m) (den U)" "j_find J j ''u'' = Some u"
    "is_number (last_seq m) (den u)" "j_find J j ''b'' = Some b" "columns (inc_bids m) (den b)"
    "j_find J j ''a'' = Some a" "columns (inc_asks m) (den a)"
    using assms(5) by (auto simp: holds_iff [OF D(1)])
  have "is_tobj (den j)" using assms(5) holds_tobj by auto
  then have "j_value J (j_u64 J) j ''pu'' (prev_seq (last_seq m)) = Some (prev_last m)"
    using assms(5) num_den [OF D(1)]
    by (auto simp: j_value_def den_object [OF D(1)] find_None [OF D(1)] holds_iff [OF D(1)] split: if_splits)
  then show ?thesis
    using e f num_den [OF D(1)] columns_den(2) [OF D] assms(3) \<open>j_is_string J e\<close> assms(5) filled_update [OF assms(4)]
    by (simp add: binance_parseIncremental_def parser_steps prev_seq_def [symmetric] incremental_reset_def)
qed

lemma bybit_update:
  assumes D: "json_denotes J den" "json_kinds J den" and "j_parse J msg = Some j" and "inc_ts_recv_ns m = 0"
    and "carries_update BybitAdapter (den j) m"
  shows "bybit_parseIncremental J msg = Parsed m"
proof -
  have ty: "j_value J (j_str J) j ''type'' [] = Some ''delta''" using str_member(1) [OF D(1)] assms(5) by simp
  obtain d where d: "j_find J j ''data'' = Some d" "holds (den d) ''u'' (is_number (last_seq m))"
    "side_of (den d) ''b'' (inc_bids m)" "side_of (den d) ''a'' (inc_asks m)"
    using assms(5) by (auto simp: holds_iff [OF D(1), of j])
  then obtain u where u: "j_find J d ''u'' = Some u" "is_number (last_seq m) (den u)" unfolding holds_iff [OF D(1)] by blast
  show ?thesis
    using ty d(1) u(1) holds_tobj [OF d(2)] num_den [OF D(1) u(2)] side_den(1) [OF D d(3)] side_den(1) [OF D d(4)] assms(3,5) filled_update [OF assms(4)]
    by (simp add: bybit_parseIncremental_def parser_steps den_object [OF D(1)] incremental_reset_def)
qed

lemma bitget_seq_den:
  assumes "json_denotes J den" and "json_kinds J den" and "holds (den d) ''seq'' (num_or_text w)"
  shows "bitget_seq J d = w"
  using assms(3) num_or_text_den(1) [OF assms(1,2)] by (auto simp: holds_iff [OF assms(1)] bitget_seq_def)

lemma bitget_update:
  assumes D: "json_denotes J den" "json_kinds J den" and "j_parse J msg = Some j" and "inc_ts_recv_ns m = 0"
    and "carries_update BitgetAdapter (den j) m"
  shows "bitget_parseIncremental J msg = Parsed m"
proof -
  have ty: "j_value J (j_str J) j ''action'' [] = Some ''update''" using str_member(1) [OF D(1)] assms(5) by simp
  obtain v d ds where v: "j_find J j ''data'' = Some v" "j_is_array J v" "j_elems J v = d # ds"
    and d: "holds (den d) ''seq'' (num_or_text (last_seq m))"
      "if t_find (den d) ''checksum'' = None then inc_checksum m = 0 else holds (den d) ''checksum'' (checksum_num (inc_checksum m))"
      "holds (den d) ''bids'' (columns (inc_bids m))" "holds (den d) ''asks'' (columns (inc_asks m))"
    using first_holdsD [OF D(1), of j "''data''"] assms(5) by (simp, blast)
  obtain b a where f: "j_find J d ''bids'' = Some b" "columns (inc_bids m) (den b)"
    "j_find J d ''asks'' = Some a" "columns (inc_asks m) (den a)"
    using d(3,4) by (auto simp: holds_iff [OF D(1)])
  have "(case j_find J d ''checksum'' of None \<Rightarrow> 0
      | Some v \<Rightarrow> (case json_to_i64_flexible J v of Some c \<Rightarrow> c | None \<Rightarrow> 0)) = inc_checksum m"
    using d(2) checksum_den(2) [OF D] by (auto simp: find_None [OF D(1)] holds_iff [OF D(1)] split: if_splits option.splits)
  then show ?thesis
    using ty v f bitget_seq_den [OF D d(1)] columns_den [OF D f(2)] columns_den [OF D f(4)] assms(3,5) filled_update [OF assms(4)]
    by (simp add: bitget_parseIncremental_def parser_steps level_parsers incremental_reset_def)
qed

lemma okx_update:
  assumes D: "json_denotes J den" "json_kinds J den" and "j_parse J msg = Some j" and "inc_ts_recv_ns m = 0"
    and "carries_update OKXAdapter (den j) m"
  shows "okx_parseIncremental J msg = Parsed m"
proof -
  have ty: "j_value J (j_str J) j ''action'' [] = Some ''update''" using str_member(1) [OF D(1)] assms(5) by simp
  obtain v d ds where v: "j_find J j ''data'' = Some v" "j_is_array J v" "j_elems J v = d # ds"
    and d: "holds (den d) ''seqId'' (is_number (last_seq m))"
      "holds (den d) ''prevSeqId'' (\<lambda>v. \<exists>n. v = TNum n \<and> i64_ok n \<and> prev_last m = (if n < 0 then 0 else word_of_int n))"
      "checksum_of (den d) (den j) (inc_checksum m)" "side_of (den d) ''bids'' (inc_bids m)" "side_of (den d) ''asks'' (inc_asks m)"
    using first_holdsD [OF D(1), of j "''data''"] assms(5) by (simp, blast)
  obtain q p n where f: "j_find J d ''seqId'' = Some q" "is_number (last_seq m) (den q)" "j_find J d ''prevSeqId'' = Some p"
    "den p = TNum n" "i64_ok n" "prev_last m = (if n < 0 then 0 else word_of_int n)"
    using d(1,2) unfolding holds_iff [OF D(1)] by blast
  show ?thesis
    using ty v f(1,3,6) num_den [OF D(1) f(2)] den_get(3) [OF D(1) f(4,5)] find_checksum_den [OF D d(3)] side_den(2) [OF D d(4)]
      side_den(2) [OF D d(5)] assms(3,5) filled_update [OF assms(4)]
    by (simp add: okx_parseIncremental_def parser_steps incremental_reset_def Let_def)
qed

lemma kucoin_update:
  assumes D: "json_denotes J den" "json_kinds J den" and "j_parse J msg = Some j" and "inc_ts_recv_ns m = 0"
    and "carries_update KucoinAdapter (den j) m"
  shows "kucoin_parseIncremental J msg = Parsed m"
proof -
  have ty: "j_value J (j_str J) j ''type'' [] = Some ''message''" "j_value J (j_str J) j ''subject'' [] = Some ''trade.l2update''"
    using str_member(1) [OF D(1)] assms(5) by simp_all
  obtain d s1 s2 c where d: "j_find J j ''data'' = Some d" "j_find J d ''sequenceStart'' = Some s1" "num_or_text (first_seq m) (den s1)"
    "j_find J d ''sequenceEnd'' = Some s2" "num_or_text (last_seq m) (den s2)" "j_find J d ''changes'' = Some c"
    "side_of (den c) ''bids'' (inc_bids m)" "side_of (den c) ''asks'' (inc_asks m)"
    using assms(5) by (auto simp: holds_iff [OF D(1)])
  show ?thesis
    using ty d(1,2,4,6) num_or_text_den(2,3) [OF D d(3)] num_or_text_den(2,3) [OF D d(5)] side_den(3) [OF D d(7)]
      side_den(3) [OF D d(8)] assms(3,5) filled_update [OF assms(4)]
    by (simp add: kucoin_parseIncremental_def parser_steps incremental_reset_def)
qed

lemma binance_snapshot:
  assumes D: "json_denotes J den" "json_kinds J den" and "j_parse J msg = Some j" and "snap_ts_recv_ns s = 0"
    and "carries_snapshot BinanceAdapter (den j) s"
  shows "binance_parseSnapshot J msg = Parsed s"
proof -
  obtain n where n: "j_find J j ''lastUpdateId'' = Some n" "is_number (lastUpdateId s) (den n)"
    using assms(5) by (auto simp: holds_iff [OF D(1)])
  have d: "side_of (den j) ''bids'' (snap_bids s)" "side_of (den j) ''asks'' (snap_asks s)" using assms(5) by simp_all
  show ?thesis
    using n(1) num_den [OF D(1) n(2)] side_den(4) [OF D d(1)] side_den(4) [OF D d(2)] assms(3,5) filled_snapshot [OF assms(4)]
    by (simp add: binance_parseSnapshot_def parser_steps snapshot_reset_def)
qed

lemma bybit_snapshot:
  assumes D: "json_denotes J den" "json_kinds J den" and "j_parse J msg = Some j" and "snap_ts_recv_ns s = 0"
    and "carries_snapshot BybitAdapter (den j) s"
  shows "bybit_parseWsSnapshot J msg = Parsed s"
proof -
  have ty: "j_value J (j_str J) j ''type'' [] = Some ''snapshot''" using str_member(1) [OF D(1)] assms(5) by simp
  obtain d where d: "j_find J j ''data'' = Some d" "holds (den d) ''u'' (is_number (lastUpdateId s))"
    "side_of (den d) ''b'' (snap_bids s)" "side_of (den d) ''a'' (snap_asks s)"
    using assms(5) by (auto simp: holds_iff [OF D(1), of j])
  then obtain u where u: "j_find J d ''u'' = Some u" "is_number (lastUpdateId s) (den u)" unfolding holds_iff [OF D(1)] by blast
  show ?thesis
    using ty d(1) u(1) holds_tobj [OF d(2)] num_den [OF D(1) u(2)] side_den(1) [OF D d(3)] side_den(1) [OF D d(4)] assms(3,5)
      filled_snapshot [OF assms(4)]
    by (simp add: bybit_parseWsSnapshot_def parser_steps den_object [OF D(1)] snapshot_reset_def)
qed

lemma bitget_snapshot:
  assumes D: "json_denotes J den" "json_kinds J den" and "j_parse J msg = Some j" and "snap_ts_recv_ns s = 0"
    and "carries_snapshot BitgetAdapter (den j) s"
  shows "bitget_parseWsSnapshot J msg = Parsed s"
proof -
  have ty: "j_value J (j_str J) j ''action'' [] = Some ''snapshot''" using str_member(1) [OF D(1)] assms(5) by simp
  obtain v d ds where v: "j_find J j ''data'' = Some v" "j_is_array J v" "j_elems J v = d # ds"
    and d: "holds (den d) ''seq'' (num_or_text (lastUpdateId s))" "checksum_of (den d) (den j) (snap_checksum s)"
      "holds (den d) ''bids'' (columns (snap_bids s))" "holds (den d) ''asks'' (columns (snap_asks s))"
    using first_holdsD [OF D(1), of j "''data''"] assms(5) by (simp, blast)
  obtain b a where f: "j_find J d ''bids'' = Some b" "columns (snap_bids s) (den b)"
    "j_find J d ''asks'' = Some a" "columns (snap_asks s) (den a)"
    using d(3,4) by (auto simp: holds_iff [OF D(1)])
  show ?thesis
    using ty v f(1,3) bitget_seq_den [OF D d(1)] find_checksum_den [OF D d(2)] columns_den [OF D f(2)] columns_den [OF D f(4)] assms(3)
      filled_snapshot [OF assms(4)]
    by (simp add: bitget_parseWsSnapshot_def parser_steps level_parsers snapshot_reset_def)
qed

lemma okx_snapshot:
  assumes D: "json_denotes J den" "json_kinds J den" and "j_parse J msg = Some j" and "snap_ts_recv_ns s = 0"
    and "carries_snapshot OKXAdapter (den j) s"
  shows "okx_parseWsSnapshot J msg = Parsed s"
proof -
  have ty: "j_value J (j_str J) j ''action'' [] = Some ''snapshot''" using str_member(1) [OF D(1)] assms(5) by simp
  obtain v d ds where v: "j_find J j ''data'' = Some v" "j_is_array J v" "j_elems J v = d # ds"
    and d: "holds (den d) ''seqId'' (is_number (lastUpdateId s))" "checksum_of (den d) (den j) (snap_checksum s)"
      "side_of (den d) ''bids'' (snap_bids s)" "side_of (den d) ''asks'' (snap_asks s)"
    using first_holdsD [OF D(1), of j "''data''"] assms(5) by (simp, blast)
  obtain q where q: "j_find J d ''seqId'' = Some q" "is_number (lastUpdateId s) (den q)" using d(1) unfolding holds_iff [OF D(1)] by blast
  show ?thesis
    using ty v q(1) num_den [OF D(1) q(2)] find_checksum_den [OF D d(2)] side_den(2) [OF D d(3)] side_den(2) [OF D d(4)] assms(3)
      filled_snapshot [OF assms(4)]
    by (simp add: okx_parseWsSnapshot_def parser_steps snapshot_reset_def)
qed

lemma kucoin_snapshot:
  assumes D: "json_denotes J den" "json_kinds J den" and "j_parse J msg = Some j" and "snap_ts_recv_ns s = 0"
    and "carries_snapshot KucoinAdapter (den j) s"
  shows "kucoin_parseSnapshot J msg = Parsed s"
proof -
  obtain d q where d: "j_find J j ''data'' = Some d" "j_find J d ''sequence'' = Some q" "num_or_text (lastUpdateId s) (den q)"
    "side_of (den d) ''bids'' (snap_bids s)" "side_of (den d) ''asks'' (snap_asks s)"
    using assms(5) by (auto simp: holds_iff [OF D(1)])
  show ?thesis
    using d(1,2) num_or_text_den(2,3) [OF D d(3)] side_den(3) [OF D d(4)] side_den(3) [OF D d(5)] assms(3,5) filled_snapshot [OF assms(4)]
    by (simp add: kucoin_parseSnapshot_def parser_steps snapshot_reset_def)
qed

text \<open>The guards on the kind of a message.\<close>

lemma snapshot_is_no_update:
  assumes D: "json_denotes J den" and "j_parse J msg = Some j" and "carries_snapshot a (den j) s"
  shows "parseIncremental J a msg = Rejected"
proof (cases a)
  case BinanceAdapter
  then show ?thesis using assms(2,3) by (simp add: binance_parseIncremental_def parser_steps find_None [OF D])
next
  case KucoinAdapter
  have "is_tobj (den j)" using assms(3) KucoinAdapter holds_tobj by auto
  then show ?thesis
    using assms(2,3) KucoinAdapter by (simp add: kucoin_parseIncremental_def parser_steps j_value_def den_object [OF D] find_None [OF D])
qed (use assms(2,3) str_member(1) [OF D, of j "''type''" "''snapshot''"] str_member(1) [OF D, of j "''action''" "''snapshot''"] in
  \<open>simp_all add: bybit_parseIncremental_def bitget_parseIncremental_def okx_parseIncremental_def parser_steps\<close>)

lemma update_is_no_snapshot:
  assumes D: "json_denotes J den" and "j_parse J msg = Some j" and "carries_update a (den j) m"
  shows "parseWsSnapshot J a msg = Rejected"
  using assms(2,3) str_member(1) [OF D, of j "''type''" "''delta''"] str_member(1) [OF D, of j "''action''" "''update''"]
  by (cases a) (simp_all add: bybit_parseWsSnapshot_def bitget_parseWsSnapshot_def okx_parseWsSnapshot_def parser_steps)

text \<open>C29: An adapter reads its venue's messages as what they carry. Take any text that the JSON library decodes to a tree of the
  venue's format, for any of the five venues. If the tree carries an update, the adapter's parser returns exactly that
  update: its sequence numbers, its checksum, and on either side the levels of that side, in order, with the price and the
  quantity from the first and the second column; and it is not accepted as a snapshot. If the tree carries a
  snapshot, the snapshot parser of the venue, for REST or for the WebSocket according to its synchronisation mode, returns
  exactly that snapshot, and it is not accepted as an update. The time of reception is not part of a message and is zero.\<close>

theorem venue_messages_are_read_back:
  assumes "json_denotes J den" and "json_kinds J den" and "j_parse J msg = Some j"
  shows "(carries_update a (den j) m \<and> inc_ts_recv_ns m = 0 \<longrightarrow>
      parseIncremental J a msg = Parsed m \<and> parseWsSnapshot J a msg = Rejected) \<and>
    (carries_snapshot a (den j) s \<and> snap_ts_recv_ns s = 0 \<longrightarrow>
      (if sync_mode (caps a) = WsAuthoritative then parseWsSnapshot J a msg else parseSnapshot J a msg) = Parsed s \<and>
      parseIncremental J a msg = Rejected)"
proof (intro conjI impI; elim conjE)
  assume c: "carries_update a (den j) m" and t: "inc_ts_recv_ns m = 0"
  show "parseIncremental J a msg = Parsed m"
    using binance_update [OF assms t] bybit_update [OF assms t] bitget_update [OF assms t] okx_update [OF assms t]
      kucoin_update [OF assms t] c
    by (cases a) simp_all
  show "parseWsSnapshot J a msg = Rejected" by (rule update_is_no_snapshot [OF assms(1,3) c])
next
  assume c: "carries_snapshot a (den j) s" and t: "snap_ts_recv_ns s = 0"
  show "(if sync_mode (caps a) = WsAuthoritative then parseWsSnapshot J a msg else parseSnapshot J a msg) = Parsed s"
    using binance_snapshot [OF assms t] bybit_snapshot [OF assms t] bitget_snapshot [OF assms t] okx_snapshot [OF assms t]
      kucoin_snapshot [OF assms t] c
    by (cases a) (simp_all add: binance_caps_def bybit_caps_def bitget_caps_def okx_caps_def kucoin_caps_def)
  show "parseIncremental J a msg = Rejected" by (rule snapshot_is_no_update [OF assms(1,3) c])
qed

text \<open>An OKX update with a column more than the code reads, and members that it does not read.\<close>

definition okx_tree :: jtree where
  "okx_tree = TObj [(''arg'', TObj [(''channel'', TStr ''books'')]), (''action'', TStr ''update''), (''data'', TArr [TObj [
     (''asks'', TArr [TArr [TStr ''11'', TStr ''0.25'', TStr ''0'', TStr ''1'']]), (''bids'', TArr [TArr [TStr ''10.5'', TStr ''2'', TStr ''0'', TStr ''3'']]),
     (''checksum'', TNum (- 5)), (''seqId'', TNum 7), (''prevSeqId'', TNum 4)]])]"

definition okx_carried :: GenericIncrementalFormat where
  "okx_carried = \<lparr>first_seq = 5, last_seq = 7, prev_last = 4, inc_ts_recv_ns = 0, inc_checksum = - 5,
     inc_bids = [Level 1050 2000 ''10.5'' ''2''], inc_asks = [Level 1100 250 ''11'' ''0.25'']\<rparr>"

lemma tree_api_kinds: "json_kinds tree_api id"
  by (auto simp: json_kinds_def split: jtree.splits)

theorem venue_messages_are_read_back_witness:
  "parseIncremental tree_api OKXAdapter (tree_encode okx_tree) = Parsed okx_carried \<and>
   parseWsSnapshot tree_api OKXAdapter (tree_encode okx_tree) = Rejected"
proof -
  have "level_text_ok (Level 1050 2000 ''10.5'' ''2'')" "level_text_ok (Level 1100 250 ''11'' ''0.25'')"
    by (simp_all add: level_text_ok_def) code_simp+
  then have "carries_update OKXAdapter (id okx_tree) okx_carried"
    by (simp add: okx_tree_def okx_carried_def first_holds_def holds_def checksum_of_def checksum_num_def side_of_def is_number_def i64_ok_def)
  then show ?thesis
    using venue_messages_are_read_back [OF tree_api_denotes tree_api_kinds, of "tree_encode okx_tree" okx_tree OKXAdapter okx_carried]
    by (simp add: okx_carried_def)
qed

end
