(* ===== verification/Spec2Isabelle.thy ===== *)
theory Spec2Isabelle
  imports Zida_Prelude OrderBook OrderBookUtils CheckSumUtils OrderBookController
    Double Json UnifiedBook LatencyHistogram ArbDetector ExecEngine ExecCmdLine
    VenueAdapters WsClient FeedHandler Sinks BrainServers BrainCmdLine Brain
    RestClient Backtest PopMain HealthServer ExecMain ProcessLogging
    FeedRest BrainReplay TlsTrust DebugLog VenueMessages
begin

text \<open>
  \<^bold>\<open>zidaBot\<close>: three processes that find price crosses between cryptocurrency venues. A \<^emph>\<open>feed\<close> process
  (\<^verbatim>\<open>src/feed\<close>) follows the order book of one venue and publishes it; the \<^emph>\<open>brain\<close> (\<^verbatim>\<open>src/brain\<close>) joins the
  books of all venues and looks for crosses; an \<^emph>\<open>execution\<close> process (\<^verbatim>\<open>src/exec\<close>) turns crosses into orders.
  Code they share is under \<^verbatim>\<open>src/common\<close>. This development models that code in HOL, one theory per
  component, and proves what makes the components, and their composition, correct.

  \<^bold>\<open>Conventions.\<close> State is a record and every operation a function on it; handlers of asynchronous
  operations are functions applied to the outcome of the operation, and a run is a fold over a list
  of events, so that a theorem about all event lists is one about all interleavings. Exceptions are
  values of a sum or option type. \<^verbatim>\<open>uint64_t\<close> counters are 64-bit words; prices, quantities and
  timestamps are integers, with the range \<open>i64_ok\<close> where the width matters; \<^verbatim>\<open>double\<close> is binary64 with
  its roundings (\<open>Double\<close>). The JSON library, CRC-32 and the option parser are not part of the
  repository: they are parameters, with their documented laws (\<open>json_denotes\<close>) as hypotheses and a
  concrete instance (\<open>tree_api\<close>) for the witnesses. Clocks, random jitter and system calls are
  arguments. Log calls are left out of the operations; \<open>DebugLog\<close> has the logger and the debug output.

  \<^bold>\<open>Theories and the code they model.\<close>
  \<^item> \<open>Zida_Prelude\<close>: bounded queues that drop their oldest element, decimal printing, binary search,
    and the locales \<open>drop_oldest_queue\<close>, \<open>tick_order\<close>, \<open>spacing_limiter\<close>, and for runs \<open>guarded_steps\<close>, \<open>steps\<close> and \<open>ranked_steps\<close>.
  \<^item> \<open>OrderBook\<close>, \<open>OrderBookUtils\<close>, \<open>CheckSumUtils\<close>, \<open>OrderBookController\<close> (\<^verbatim>\<open>common/include/orderbook\<close>,
    \<^verbatim>\<open>common/src/orderbook\<close>, \<^verbatim>\<open>common/include/utils/CheckSumUtils.hpp\<close>): the two-sided book as sorted vectors,
    refined to a map from ticks to quantities; the fixed-point parser; the Bitget checksum; the
    synchronisation controller with its bridging phase, gap, crossed-book and checksum guards.
  \<^item> \<open>VenueAdapters\<close> (\<^verbatim>\<open>feed/src/md/adapters\<close>, \<^verbatim>\<open>feed/include/md/VenueAdapter.hpp\<close>, \<^verbatim>\<open>feed/include/utils\<close>): the five
    venues' endpoints, subscriptions, message filters and parsers.
  \<^item> \<open>VenueMessages\<close>: the formats of the five venues as predicates on JSON trees, and that the adapters' parsers read them.
  \<^item> \<open>WsClient\<close> (\<^verbatim>\<open>common/src/connection_handler/WsClient.cpp\<close>): connection pipeline, outbox, close
    notification and timers.
  \<^item> \<open>FeedHandler\<close> (\<^verbatim>\<open>feed/src/md/GenericFeedHandler.cpp\<close>): the feed's state machine over the adapter, the
    controller and the WebSocket client, with its timers, REST replies and publications.
  \<^item> \<open>RestClient\<close> (\<^verbatim>\<open>feed/src/connection_handler/RestClient.cpp\<close>): one HTTPS request at a time, with its deadlines,
    connection reuse and TLS shutdown; pending operations are a list, and any of them may complete next.
  \<^item> \<open>FeedRest\<close>: the feed handler with its REST client. The handler's requests are the client's calls and the
    client's callbacks are the handler's replies, with the HTTP status that the client holds; all other events come from outside.
  \<^item> \<open>PopMain\<close> (\<^verbatim>\<open>feed/include/CmdLine.hpp\<close>, \<^verbatim>\<open>feed/app/main.cpp\<close>): options, symbol list, file names and the start of
    one handler per symbol.
  \<^item> \<open>Sinks\<close> (\<^verbatim>\<open>feed/src/postprocess\<close>): the publisher to the brain and the line file.
  \<^item> \<open>Double\<close>, \<open>Json\<close>: floating point and the JSON library.
  \<^item> \<open>UnifiedBook\<close>, \<open>LatencyHistogram\<close>, \<open>ArbDetector\<close> (\<^verbatim>\<open>brain/include/brain\<close>, \<^verbatim>\<open>brain/src/brain\<close>): the brain's parsers
    and books, the latency ring buffer, the scan with its guards, rate limiter, emission and writer.
  \<^item> \<open>BrainServers\<close>, \<open>BrainCmdLine\<close>, \<open>Brain\<close> (\<^verbatim>\<open>brain/src/brain/WsServer.cpp\<close>, \<^verbatim>\<open>SignalServer.cpp\<close>,
    \<^verbatim>\<open>brain/include/brain/BrainCmdLine.hpp\<close>, \<^verbatim>\<open>brain/app/brain.cpp\<close>): the two servers with their session registers
    (locale \<open>session_register\<close>), the options, and the process with its threads.
  \<^item> \<open>Backtest\<close> (\<^verbatim>\<open>brain/src/brain/BacktestEngine.cpp\<close>, \<^verbatim>\<open>brain/app/zidabot_replay.cpp\<close>): the synchronous engine and the
    replay program, with recordings made by the line file of \<open>Sinks\<close>.
  \<^item> \<open>BrainReplay\<close>: a simulation between the brain process with its queue and threads and the back-test engine.
  \<^item> \<open>ExecEngine\<close>, \<open>ExecCmdLine\<close>, \<open>ExecMain\<close> (\<^verbatim>\<open>exec\<close>): engine guards, strategy, order tracker, order clients, the
    process on its strand, the options and their live-mode guards, and \<^verbatim>\<open>main\<close> with its signal connection.
  \<^item> \<open>HealthServer\<close>, \<open>ProcessLogging\<close> (\<^verbatim>\<open>common/include/utils/HealthServer.hpp\<close>, \<^verbatim>\<open>common/src/utils/ProcessLoggingUtils.cpp\<close>): the
    HTTP endpoint of the health documents; the log file name and the buffer that stamps its lines.
  \<^item> \<open>TlsTrust\<close>: the TLS settings of the two clients (\<^verbatim>\<open>RestClient.cpp\<close>, \<^verbatim>\<open>WsClient.cpp\<close>), of the execution process and of the brain's servers,
    with certificate chains and OpenSSL's checks as parameters.
  \<^item> \<open>DebugLog\<close> (\<^verbatim>\<open>common/src/utils/Log.cpp\<close>, \<^verbatim>\<open>feed/include/utils/DebugConfigUtils.hpp\<close>): the logger's set-up, the debug switches, the
    sampling of messages and the bounds of what is printed.

  \<^bold>\<open>What is shown.\<close> Books: every reachable book is valid, updates refine map updates, a strict stream has
  no gap, an incremental is applied or the book is reset. Feed: for every venue and every event list
  a handler in state SYNCED has a synchronised valid book, the status the brain was last told is the
  current one, restarts back off; the process comes up with one running handler per symbol, each with a file of its own.
  REST: every request is answered exactly once, and within ten completions; composed with its client a handler behaves as
  some run of the handler with arbitrary replies, so that the handler's theorems hold of the composition, and it does not wait for a snapshot forever. Transport: the close callback runs once per connection; each adapter reads the messages of its venue as
  exactly the updates and snapshots they carry; a published
  book makes the brain hold the same book, updates are read back exactly. Brain: events go to the
  book of their venue and symbol; reported crosses are real and complete; signals are spaced and written to the file; a
  standby brain is silent; state and queues stay within their invariants in every run. Execution:
  a paused process submits nothing, order identifiers are distinct, limits and cooldown hold, live
  orders are within their cap. Replay: the recorded lines give back the recorded books, and replaying what a brain consumed finds, cross for cross, what
  the brain found and wrote. This theory joins the two ends of the signal wire: the execution process does on the
  text of a cross what it would do on the cross, and an order submitted for the text of a reported cross is backed by two crossing books. No
  theorem says that the text gets there: \<^verbatim>\<open>main\<close> of the brain owns its signal server by a \<^verbatim>\<open>unique_ptr\<close>, so that the server does not start
  (\<open>signal_port_stops_brain\<close>). TLS: the REST client talks only to peers
  with a verified chain for the host, a brain with a CA file serves only verified peers. Some theorems state behaviour that the code should not have, such as
  \<open>second_close_is_swallowed\<close>, \<open>signal_port_stops_brain\<close>, \<open>lost_signal_stream_is_final\<close>, \<open>scan_ignores_symbols\<close>,
  \<open>old_recordings_show_no_crosses\<close>, \<open>stale_completion_fails_next_request\<close>, \<open>failed_accept_is_final\<close>,
  \<open>full_outbox_loses_unsent_frame\<close>, \<open>rate_limited_snapshot_restarts\<close>, \<open>throwing_snapshot_keeps_waiting\<close>,
  \<open>ws_stream_keeps_legacy_protocols\<close>, \<open>huge_message_not_cut\<close>, \<open>checksum_ignores_quantity_updates\<close> and \<open>malformed_book_state_revives_stale_book\<close>.

  \<^bold>\<open>Bounds and fuel.\<close> Loops of the code are structural recursion or have a termination proof; there is
  no fuel. The number of steps of a REST request is bounded by a potential of its pending operations. Queue bounds are those of the code (64, 4096, 5000, 10000, 50000).

  \<^bold>\<open>Not modelled.\<close> Sockets, resolvers, handshakes and the event loop appear only as outcomes of events; of TLS only the settings are
  modelled. Data races between threads are outside the model: each thread's step is atomic. The text of log calls is left out.
  Undefined behaviour is not given a meaning: a signal session whose full outbox drops the frame being written is marked as such (\<open>sg_dangling\<close>) and
  nothing is shown of it; the buffer that the WebSocket client frees under a write in the same way, and the stream that the REST client destroys under
  pending TLS operations, are only in the comments at their definitions. Memory is assumed to suffice, and \<^verbatim>\<open>dump\<close> of the JSON library not to meet
  text that is not UTF-8. Sums and differences of ticks and clock readings in the scan, and the conversion of milliseconds in the replay, are those of unbounded
  integers. Recordings are made by a writer thread that keeps up.
  What remains of the C++ sources is declarations, includes, thread creation and joins, and an empty translation unit
  (\<^verbatim>\<open>exec/src/exec/placeholder.cpp\<close>); the Python scripts and the tests are not part of the system.
\<close>

section \<open>From a scan to the orders of the execution process\<close>

text \<open>Crosses that the text format carries: ASCII venue names, integers of their width, finite spreads.\<close>

definition cross_wire_ok :: "ArbCross \<Rightarrow> bool" where
  "cross_wire_ok c \<longleftrightarrow> clean_string (sell_venue c) \<and> clean_string (buy_venue c) \<and>
     i64_ok (sell_bid_tick c) \<and> i64_ok (buy_ask_tick c) \<and> i64_ok (ts_detected_ns c) \<and>
     i64_ok (sell_ts_book_ns c) \<and> i64_ok (buy_ts_book_ns c) \<and>
     clean (TFlt (spread_bps c)) \<and> clean (TFlt (net_spread_bps c))"

lemma den_at:
  assumes "json_denotes J den" and "den j = den (mk_obj J kvs)" and "distinct (map fst kvs)"
  shows "map_of kvs k = Some (mk_str J s) \<Longrightarrow> j_at J j k \<bind> j_str J = Some s"
    and "map_of kvs k = Some (mk_i64 J n) \<Longrightarrow> i64_ok n \<Longrightarrow> j_at J j k \<bind> j_i64 J = Some n"
    and "map_of kvs k = Some (mk_dbl J x) \<Longrightarrow> j_at J j k \<bind> j_dbl J = Some x"
  using read_members(5) [OF assms, of k] den_leaf [OF assms(1)] den_get [OF assms(1)] by fastforce+

lemma parse_serialized_cross:
  assumes "json_denotes J den" and "cross_wire_ok c"
  shows "parse_cross J junk (serialize_cross J c) = Some (c\<lparr>net_spread_bps := junk\<rparr>)"
proof -
  let ?kvs = "[(''schema_version'', mk_i64 J 1), (''event_type'', mk_str J ''arb_cross''),
      (''ts_detected_ns'', mk_i64 J (ts_detected_ns c)), (''sell_venue'', mk_str J (sell_venue c)),
      (''buy_venue'', mk_str J (buy_venue c)), (''sell_bid_tick'', mk_i64 J (sell_bid_tick c)),
      (''buy_ask_tick'', mk_i64 J (buy_ask_tick c)), (''spread_bps'', mk_dbl J (spread_bps c)),
      (''net_spread_bps'', mk_dbl J (net_spread_bps c)), (''sell_ts_book_ns'', mk_i64 J (sell_ts_book_ns c)),
      (''buy_ts_book_ns'', mk_i64 J (buy_ts_book_ns c))]"
  have dist: "distinct (map fst ?kvs)" by simp
  have "clean (den (mk_obj J ?kvs))"
    using assms(2) by (simp add: clean_built [OF assms(1)] den_leaf [OF assms(1)] cross_wire_ok_def)
  with assms(1) obtain j where j: "j_parse J (serialize_cross J c) = Some j" "den j = den (mk_obj J ?kvs)"
    unfolding serialize_cross_def by (rule den_text)
  note r = den_at [OF assms(1) j(2) dist]
  have "j_at J j ''sell_venue'' \<bind> j_str J = Some (sell_venue c)" "j_at J j ''buy_venue'' \<bind> j_str J = Some (buy_venue c)"
    by (rule r(1); simp)+
  moreover have "j_at J j ''sell_bid_tick'' \<bind> j_i64 J = Some (sell_bid_tick c)"
    "j_at J j ''buy_ask_tick'' \<bind> j_i64 J = Some (buy_ask_tick c)"
    "j_at J j ''ts_detected_ns'' \<bind> j_i64 J = Some (ts_detected_ns c)"
    "j_at J j ''sell_ts_book_ns'' \<bind> j_i64 J = Some (sell_ts_book_ns c)"
    "j_at J j ''buy_ts_book_ns'' \<bind> j_i64 J = Some (buy_ts_book_ns c)"
    by (rule r(2); use assms(2) in \<open>simp add: cross_wire_ok_def\<close>)+
  moreover have "j_at J j ''spread_bps'' \<bind> j_dbl J = Some (spread_bps c)" by (rule r(3)) simp
  moreover have "\<lparr>sell_venue = sell_venue c, buy_venue = buy_venue c, sell_bid_tick = sell_bid_tick c, buy_ask_tick = buy_ask_tick c,
      spread_bps = spread_bps c, net_spread_bps = junk, ts_detected_ns = ts_detected_ns c,
      sell_ts_book_ns = sell_ts_book_ns c, buy_ts_book_ns = buy_ts_book_ns c\<rparr> = c\<lparr>net_spread_bps := junk\<rparr>"
    by (cases c) simp
  ultimately show ?thesis by (auto simp: parse_cross_def j(1) bind_eq_Some_conv)
qed

lemma wire_text_is_the_signal:
  assumes "json_denotes J den" and "cross_wire_ok c"
  shows "on_raw_message J junk now (serialize_cross J c) p = on_signal now c p"
proof -
  have "engine_guards (c\<lparr>net_spread_bps := junk\<rparr>) = engine_guards c"
    by (rule ext) (simp add: engine_guards_def ref_price_def)
  moreover have "strategy_on_signal (c\<lparr>net_spread_bps := junk\<rparr>) = strategy_on_signal c"
    by (rule ext) (simp add: strategy_on_signal_def)
  ultimately have "on_signal now (c\<lparr>net_spread_bps := junk\<rparr>) p = on_signal now c p"
    unfolding on_signal_def by (simp only:)
  with parse_serialized_cross [OF assms] show ?thesis by (simp add: on_raw_message_def)
qed

text \<open>C31: The text of a cross is as good as the cross. When the execution process receives the text that the brain makes of a
  cross, \<^verbatim>\<open>parse_cross\<close> reads every member back but leaves \<^verbatim>\<open>net_spread_bps\<close>, which the text has, at whatever value the variable
  had; nevertheless the process does exactly what it would do if it were handed the cross itself: the
  same guards, the same order, the same fills and timers, whatever state it is in and whatever that value is. The theorem is about the two ends of the
  wire; it holds for crosses with ASCII venue names, integers of 64 bits and finite spreads.\<close>

theorem executor_acts_on_the_text_of_a_cross:
  assumes "json_denotes J den" and "cross_wire_ok c"
  shows "parse_cross J junk (serialize_cross J c) = Some (c\<lparr>net_spread_bps := junk\<rparr>) \<and>
    on_raw_message J junk now (serialize_cross J c) p = on_signal now c p"
  using parse_serialized_cross [OF assms] wire_text_is_the_signal [OF assms] by blast

text \<open>C3: Every order is backed by two crossing books. When an execution process, in any state, handles the text of a cross that
  a scan has reported, each order it then submits is for its own venue and is priced at what that scan
  saw: among the scanned books there are two synced ones, the bid of one above the ask of the other, and the order sells at
  exactly that bid on the venue of the first or buys at exactly that ask on the venue of the
  second. The scan may be that of the brain or of the back-test engine, over any books and in any state of the detector. How the text travels is not part
  of the statement: the signal server of the brain does not start (\<open>signal_port_stops_brain\<close>).\<close>

theorem orders_are_backed_by_crossing_books:
  assumes "json_denotes J den" and "c \<in> set (snd (scan J now vs d))" and "cross_wire_ok c"
    and "ord \<in> set (drop (length (p_submitted p)) (p_submitted (on_raw_message J junk now' (serialize_cross J c) p)))"
  shows "\<exists>sv \<in> set vs. \<exists>bv \<in> set vs. synced sv \<and> synced bv \<and>
    priceTick (best_bid (vb_book sv)) > priceTick (best_ask (vb_book bv)) \<and> o_venue ord = s_my_venue (p_strategy p) \<and>
    (o_side ord = SELL \<and> o_venue ord = UnifiedBook.venue_name sv \<and> o_price_tick ord = priceTick (best_bid (vb_book sv)) \<or>
     o_side ord = BUY \<and> o_venue ord = UnifiedBook.venue_name bv \<and> o_price_tick ord = priceTick (best_ask (vb_book bv)))"
proof -
  have o: "order_for c (p_strategy p) ord"
    using assms(4) unfolding wire_text_is_the_signal [OF assms(1,3)] by (cases rule: on_signal_cases [of now' c p]) auto
  obtain q where q: "q \<in> set (all_pairs (length (take kMaxVenues vs)))"
    "eligible d now (take kMaxVenues vs) (take kMaxVenues vs ! fst q) (take kMaxVenues vs ! snd q)"
    "c = mk_cross d now (take kMaxVenues vs ! fst q) (take kMaxVenues vs ! snd q)"
    using fold_scan_pair_sound [OF assms(2) [unfolded scan_pairs]] by auto
  define sv bv where "sv = take kMaxVenues vs ! fst q" and "bv = take kMaxVenues vs ! snd q"
  have "sv \<in> set (take kMaxVenues vs)" "bv \<in> set (take kMaxVenues vs)" unfolding sv_def bv_def using q(1) by (auto intro!: nth_mem)
  then have "sv \<in> set vs" "bv \<in> set vs" by (auto dest: in_set_takeD)
  moreover have "synced sv" "synced bv" "bid_tick sv > ask_tick bv" using q(2) by (simp_all add: eligible_def sv_def bv_def)
  ultimately show ?thesis
    using o q(3) [folded sv_def bv_def]
    by (intro bexI [of _ sv] bexI [of _ bv]) (auto simp: order_for_def mk_cross_def bid_tick_def ask_tick_def)
qed

section \<open>A cross and its order\<close>

definition okx_cross :: ArbCross where
  "okx_cross = mk_cross (plain_detector 0 100) 50 (quote ''okx'' 5 9 10) (quote ''bybit'' 2 3 20)"

definition okx_executor :: exec_proc where
  "okx_executor = start_exec DryRunOrderClient ''okx'' (Fin 1) (Fin 0) (Fin 0) 0"

definition okx_order :: Order where
  "okx_order = \<lparr>o_venue = ''okx'', o_side = SELL, o_price_tick = 5, o_quantity = Fin 1, client_order_id = ''okx-'' @ nat_str 1\<rparr>"

lemma okx_cross_wire: "cross_wire_ok okx_cross"
  by (simp add: okx_cross_def cross_wire_ok_def mk_cross_def net_spread_def spread_5_3 i64_ok_def)

lemma okx_order_submitted: "p_submitted (on_signal 60 okx_cross okx_executor) = [okx_order]" "p_submitted okx_executor = []"
  by (simp_all add: okx_executor_def okx_cross_def okx_order_def on_signal_def start_exec_def engine_guards_def new_ExecEngine_def
      check_cooldown_def strategy_on_signal_def new_ImmediateStrategy_def mk_cross_def next_order_id_def double_ops Let_def)

theorem executor_acts_on_the_text_of_a_cross_witness:
  "p_submitted (on_raw_message tree_api (Fin 7) 60 (serialize_cross tree_api okx_cross) okx_executor) = [okx_order]"
  using executor_acts_on_the_text_of_a_cross [OF tree_api_denotes okx_cross_wire, of "Fin 7" 60 okx_executor] okx_order_submitted
  by simp

theorem orders_are_backed_by_crossing_books_witness:
  "okx_order \<in> set (p_submitted (on_raw_message tree_api (Fin 0) 60 (serialize_cross tree_api okx_cross) okx_executor)) \<and>
   (\<exists>sv \<in> set two_quotes. synced sv \<and> UnifiedBook.venue_name sv = ''okx'' \<and> o_price_tick okx_order = priceTick (best_bid (vb_book sv)))"
proof -
  have r: "p_submitted (on_raw_message tree_api (Fin 0) 60 (serialize_cross tree_api okx_cross) okx_executor) = [okx_order]"
    using wire_text_is_the_signal [OF tree_api_denotes okx_cross_wire] okx_order_submitted by simp
  have "okx_cross \<in> set (snd (scan tree_api 50 two_quotes (plain_detector 0 100)))"
    unfolding scan_two_quotes okx_cross_def by simp
  from orders_are_backed_by_crossing_books [OF tree_api_denotes this okx_cross_wire, of okx_order okx_executor "Fin 0" 60]
  show ?thesis using r okx_order_submitted(2) by (auto simp: okx_order_def)
qed

end
